(* ===== verification/AIL_Prelude.thy ===== *)
theory AIL_Prelude
  imports Main "HOL-Library.Word" "HOL-Library.Multiset"
    "HOL-Library.Char_ord" "HOL-Library.List_Lexorder"
begin

text \<open>
  Shared vocabulary of the development: the machine integers and result values
  the Rust sources use, the binding of fallible steps, the standard library's
  \<^verbatim>\<open>BTreeMap\<close> as a strictly sorted association list together with the
  interface its clients rely on, and generic facts on lists.
\<close>

section \<open>Machine integers, results, lemma collections\<close>

type_synonym u8 = "8 word"
type_synonym u32 = "32 word"
type_synonym u64 = "64 word"

text \<open>\<^verbatim>\<open>Result<A, E>\<close>: the error is on the left.\<close>

type_synonym ('e, 'a) result = "'e + 'a"

abbreviation Err :: "'e \<Rightarrow> ('e, 'a) result" where "Err \<equiv> Inl"
abbreviation Ok :: "'a \<Rightarrow> ('e, 'a) result" where "Ok \<equiv> Inr"

named_theorems graph_simps \<open>unfolding rules of graph predicates\<close>
named_theorems parser_defs \<open>unfolding rules of the line parser\<close>

text \<open>The \<^verbatim>\<open>?\<close> operator: stop at the first error.\<close>

definition rbind :: "('e, 'a) result \<Rightarrow> ('a \<Rightarrow> ('e, 'b) result) \<Rightarrow> ('e, 'b) result" where
  "rbind r f = (case r of Inl e \<Rightarrow> Inl e | Inr a \<Rightarrow> f a)"

lemma rbind_simps [simp]:
  "rbind (Inl e) f = Inl e" "rbind (Inr a) f = f a"
  by (simp_all add: rbind_def)

lemma rbind_Ok_iff: "rbind r f = Inr b \<longleftrightarrow> (\<exists>a. r = Inr a \<and> f a = Inr b)"
  by (cases r) auto

lemma rbind_Err_iff:
  "rbind r f = Inl e \<longleftrightarrow> r = Inl e \<or> (\<exists>a. r = Inr a \<and> f a = Inl e)"
  by (cases r) auto

lemma rbind_cong [fundef_cong]:
  "r = r' \<Longrightarrow> (\<And>a. r' = Inr a \<Longrightarrow> f a = g a) \<Longrightarrow> rbind r f = rbind r' g"
  by (cases r') auto

text \<open>A loop whose body may stop with an error.\<close>

fun rfold :: "('s \<Rightarrow> 'x \<Rightarrow> ('e, 's) result) \<Rightarrow> 's \<Rightarrow> 'x list \<Rightarrow> ('e, 's) result" where
  "rfold f s [] = Inr s"
| "rfold f s (x # xs) = rbind (f s x) (\<lambda>s'. rfold f s' xs)"

lemma rfold_append:
  "rfold f s (xs @ ys) = rbind (rfold f s xs) (\<lambda>s'. rfold f s' ys)"
proof (induction xs arbitrary: s)
  case (Cons x xs)
  then show ?case by (cases "f s x") auto
qed simp

text \<open>An invariant of the body is an invariant of the loop.\<close>

lemma rfold_invariant:
  assumes "rfold f s xs = Inr t" "I s"
    and "\<And>a x b. I a \<Longrightarrow> x \<in> set xs \<Longrightarrow> f a x = Inr b \<Longrightarrow> I b"
  shows "I t"
  using assms
proof (induction xs arbitrary: s)
  case (Cons x xs)
  from Cons.prems(1) obtain u where u: "f s x = Inr u" "rfold f u xs = Inr t"
    by (auto simp: rbind_Ok_iff)
  with Cons.prems have "I u" by auto
  with u Cons.prems(3) show ?case by (intro Cons.IH[of u]) auto
qed simp

text \<open>A loop that stops has run every step before the one that fails.\<close>

lemma rfold_Err_split:
  "rfold f s xs = Inl e \<Longrightarrow> \<exists>ys x zs t. xs = ys @ x # zs \<and> rfold f s ys = Inr t \<and> f t x = Inl e"
proof (induction xs arbitrary: s)
  case (Cons x xs)
  show ?case
  proof (cases "f s x")
    case (Inl e')
    with Cons.prems have "f s x = Inl e" by simp
    then show ?thesis by (intro exI[of _ "[]"]) auto
  next
    case (Inr u)
    with Cons obtain ys y zs t where "xs = ys @ y # zs" "rfold f u ys = Inr t" "f t y = Inl e" by fastforce
    with Inr have "x # xs = (x # ys) @ y # zs" "rfold f s (x # ys) = Inr t" "f t y = Inl e" by auto
    then show ?thesis by blast
  qed
qed simp

section \<open>Ordered maps\<close>

text \<open>
  The operations of \<^verbatim>\<open>BTreeMap\<close> the sources use. The representation is the
  sequence of entries in ascending key order, which is also the order in which
  \<^verbatim>\<open>iter\<close> visits them.
\<close>

type_synonym ('k, 'v) btree_map = "('k \<times> 'v) list"

definition bt_inv :: "('k::linorder, 'v) btree_map \<Rightarrow> bool" where
  "bt_inv m = sorted_wrt (<) (map fst m)"

definition bt_get :: "('k, 'v) btree_map \<Rightarrow> 'k \<Rightarrow> 'v option" where
  "bt_get m k = map_of m k"

fun bt_insert :: "'k::linorder \<Rightarrow> 'v \<Rightarrow> ('k, 'v) btree_map \<Rightarrow> ('k, 'v) btree_map" where
  "bt_insert k v [] = [(k, v)]"
| "bt_insert k v ((k', v') # m) =
     (if k = k' then (k, v) # m
      else if k < k' then (k, v) # (k', v') # m
      else (k', v') # bt_insert k v m)"

definition bt_remove :: "'k \<Rightarrow> ('k, 'v) btree_map \<Rightarrow> ('k, 'v) btree_map" where
  "bt_remove k m = filter (\<lambda>e. fst e \<noteq> k) m"

definition bt_contains_key :: "('k, 'v) btree_map \<Rightarrow> 'k \<Rightarrow> bool" where
  "bt_contains_key m k = (bt_get m k \<noteq> None)"

text \<open>\<^verbatim>\<open>entry(k).or_insert(v)\<close> and an update through \<^verbatim>\<open>get_mut\<close>.\<close>

definition bt_or_insert :: "'k::linorder \<Rightarrow> 'v \<Rightarrow> ('k, 'v) btree_map \<Rightarrow> ('k, 'v) btree_map" where
  "bt_or_insert k v m = (case bt_get m k of None \<Rightarrow> bt_insert k v m | Some _ \<Rightarrow> m)"

definition bt_modify :: "'k::linorder \<Rightarrow> ('v \<Rightarrow> 'v) \<Rightarrow> ('k, 'v) btree_map \<Rightarrow> ('k, 'v) btree_map" where
  "bt_modify k f m = (case bt_get m k of None \<Rightarrow> m | Some v \<Rightarrow> bt_insert k (f v) m)"

text \<open>\<^verbatim>\<open>iter.collect::<BTreeMap<_, _>>()\<close>: a later entry replaces an earlier one.\<close>

definition bt_collect :: "('k::linorder \<times> 'v) list \<Rightarrow> ('k, 'v) btree_map" where
  "bt_collect kvs = fold (\<lambda>(k, v) m. bt_insert k v m) kvs []"

text \<open>The contract the clients of an ordered map rely on.\<close>

locale ordered_map =
  fixes invar :: "'m \<Rightarrow> bool"
    and empty :: "'m"
    and lookup :: "'m \<Rightarrow> 'k \<Rightarrow> 'v option"
    and ins :: "'k \<Rightarrow> 'v \<Rightarrow> 'm \<Rightarrow> 'm"
    and rem :: "'k \<Rightarrow> 'm \<Rightarrow> 'm"
  assumes invar_empty: "invar empty"
    and invar_ins: "invar m \<Longrightarrow> invar (ins k v m)"
    and invar_rem: "invar m \<Longrightarrow> invar (rem k m)"
    and lookup_empty: "lookup empty k = None"
    and lookup_ins: "invar m \<Longrightarrow> lookup (ins k v m) = (lookup m)(k \<mapsto> v)"
    and lookup_rem: "invar m \<Longrightarrow> lookup (rem k m) = (lookup m)(k := None)"
begin

text \<open>Inserting a sequence of entries: the last entry of a key wins.\<close>

lemma invar_fold_ins: "invar m \<Longrightarrow> invar (fold (\<lambda>(k, v). ins k v) kvs m)"
  by (induction kvs arbitrary: m) (auto simp: invar_ins split: prod.splits)

lemma lookup_fold_ins:
  "invar m \<Longrightarrow> lookup (fold (\<lambda>(k, v). ins k v) kvs m) = lookup m ++ map_of (rev kvs)"
proof (induction kvs arbitrary: m)
  case (Cons kv kvs)
  obtain k v where kv: "kv = (k, v)" by fastforce
  have "lookup (fold (\<lambda>(k, v). ins k v) (kv # kvs) m)
    = lookup (ins k v m) ++ map_of (rev kvs)"
    using Cons.IH[of "ins k v m"] Cons.prems by (simp add: kv invar_ins)
  also have "\<dots> = (lookup m)(k \<mapsto> v) ++ map_of (rev kvs)"
    using Cons.prems by (simp add: lookup_ins)
  finally show ?case by (simp add: kv map_add_def fun_eq_iff split: option.splits)
qed simp

text \<open>Moving the value of one key to another (used by migrations).\<close>

lemma lookup_move:
  assumes "invar m" and "k \<noteq> k'"
  shows "lookup (ins k' v (rem k m)) = (lookup m)(k := None, k' \<mapsto> v)"
  using assms by (simp add: lookup_ins lookup_rem invar_rem)

end

lemma bt_inv_Nil [simp]: "bt_inv []"
  by (simp add: bt_inv_def)

lemma bt_inv_Cons: "bt_inv ((k, v) # m) \<longleftrightarrow> (\<forall>k' \<in> fst ` set m. k < k') \<and> bt_inv m"
  by (auto simp: bt_inv_def)

lemma keys_bt_insert [simp]: "fst ` set (bt_insert k v m) = insert k (fst ` set m)"
  by (induction k v m rule: bt_insert.induct) auto

lemma bt_inv_insert [simp, intro]: "bt_inv m \<Longrightarrow> bt_inv (bt_insert k v m)"
  by (induction k v m rule: bt_insert.induct) (auto simp: bt_inv_Cons simp del: split_paired_Ball_Sigma)

lemma bt_inv_remove [simp, intro]: "bt_inv m \<Longrightarrow> bt_inv (bt_remove k m)"
  by (induction m) (auto simp: bt_inv_def bt_remove_def)

lemma bt_get_Nil [simp]: "bt_get [] k = None"
  by (simp add: bt_get_def)

lemma bt_get_Cons: "bt_get ((k, v) # m) k' = (if k' = k then Some v else bt_get m k')"
  by (simp add: bt_get_def)

lemma bt_get_insert [simp]: "bt_get (bt_insert k v m) k' = (if k' = k then Some v else bt_get m k')"
  by (induction k v m rule: bt_insert.induct) (auto simp: bt_get_def)

lemma bt_get_remove [simp]: "bt_get (bt_remove k m) k' = (if k' = k then None else bt_get m k')"
  by (induction m) (auto simp: bt_get_def bt_remove_def)

interpretation bt: ordered_map bt_inv "[]" bt_get bt_insert bt_remove
  by unfold_locales (auto simp: fun_eq_iff)

lemma bt_inv_or_insert [simp, intro]: "bt_inv m \<Longrightarrow> bt_inv (bt_or_insert k v m)"
  by (auto simp: bt_or_insert_def split: option.split)

lemma bt_inv_modify [simp, intro]: "bt_inv m \<Longrightarrow> bt_inv (bt_modify k f m)"
  by (auto simp: bt_modify_def split: option.split)

lemma bt_get_or_insert [simp]:
  "bt_get (bt_or_insert k v m) k' =
     (if k' = k \<and> bt_get m k = None then Some v else bt_get m k')"
  by (auto simp: bt_or_insert_def split: option.split)

lemma bt_get_modify [simp]:
  "bt_get (bt_modify k f m) k' = (if k' = k then map_option f (bt_get m k) else bt_get m k')"
  by (auto simp: bt_modify_def split: option.split)

lemma bt_get_collect: "bt_get (bt_collect kvs) k = map_of (rev kvs) k"
  using bt.lookup_fold_ins[OF bt_inv_Nil, of kvs]
  by (simp add: bt_collect_def map_add_def fun_eq_iff split: option.splits)

lemma bt_inv_collect [simp]: "bt_inv (bt_collect kvs)"
  using bt.invar_fold_ins[OF bt_inv_Nil, of kvs] by (simp add: bt_collect_def)

text \<open>The representation is canonical.\<close>

lemma bt_get_above: "bt_inv ((k, v) # m) \<Longrightarrow> k' \<le> k \<Longrightarrow> bt_get m k' = None"
  by (force simp: bt_inv_Cons bt_get_def map_of_eq_None_iff)

lemma bt_ext:
  assumes "bt_inv m" "bt_inv m'" "\<And>k. bt_get m k = bt_get m' k"
  shows "m = m'"
  using assms
proof (induction m arbitrary: m')
  case Nil
  show ?case
  proof (cases m')
    case (Cons e' n)
    with Nil.prems(3)[of "fst e'"] show ?thesis by (simp add: bt_get_def split: prod.splits)
  qed simp
next
  case (Cons e m)
  obtain k v where e: "e = (k, v)" by fastforce
  show ?case
  proof (cases m')
    case Nil
    with Cons.prems(3)[of k] show ?thesis by (simp add: e bt_get_def)
  next
    case (Cons e' n)
    obtain k' v' where e': "e' = (k', v')" by fastforce
    note above = bt_get_above[of k v m] bt_get_above[of k' v' n]
    have "k = k'"
    proof (rule ccontr)
      assume "k \<noteq> k'"
      then consider "k < k'" | "k' < k" by fastforce
      then show False
        using above Cons.prems(1,2) Cons.prems(3)[of k] Cons.prems(3)[of k']
        by cases (auto simp: e e' Cons bt_get_def less_imp_le split: if_splits)
    qed
    moreover have "v = v'" using Cons.prems(3)[of k] \<open>k = k'\<close> by (simp add: e e' Cons bt_get_def)
    moreover have "bt_get m j = bt_get n j" for j
      using Cons.prems(3)[of j] above Cons.prems(1,2) \<open>k = k'\<close>
      by (cases "j = k") (auto simp: e e' Cons bt_get_def)
    then have "m = n" using Cons.prems(1,2) by (intro Cons.IH) (auto simp: e e' Cons bt_inv_Cons)
    ultimately show ?thesis by (simp add: e e' Cons)
  qed
qed

lemma bt_distinct_keys: "bt_inv m \<Longrightarrow> distinct (map fst m)"
  by (simp add: bt_inv_def strict_sorted_iff)

lemma bt_get_mem: "bt_inv m \<Longrightarrow> (k, v) \<in> set m \<longleftrightarrow> bt_get m k = Some v"
  by (simp add: bt_get_def bt_distinct_keys)

lemma bt_collect_self: "bt_inv m \<Longrightarrow> bt_collect m = m"
proof (rule bt_ext)
  fix k assume "bt_inv m"
  then have d: "distinct (map fst m)" by (simp add: bt_inv_def strict_sorted_iff)
  then have "map_of (rev m) = map_of m" by (subst map_of_inject_set) (simp_all flip: rev_map)
  then show "bt_get (bt_collect m) k = bt_get m k" by (simp only: bt_get_collect) (simp add: bt_get_def)
qed simp_all

section \<open>Lists\<close>

text \<open>\<^verbatim>\<open>iter().find(p)\<close> is \<^const>\<open>List.find\<close>; an in-place update of the first match:\<close>

fun update_first :: "('a \<Rightarrow> bool) \<Rightarrow> ('a \<Rightarrow> 'a) \<Rightarrow> 'a list \<Rightarrow> 'a list" where
  "update_first p f [] = []"
| "update_first p f (x # xs) = (if p x then f x # xs else x # update_first p f xs)"

lemma length_update_first [simp]: "length (update_first p f xs) = length xs"
  by (induction xs) auto

lemma map_update_first [simp]: "(\<And>x. g (f x) = g x) \<Longrightarrow> map g (update_first p f xs) = map g xs"
  by (induction xs) auto

lemma update_first_id: "(\<And>x. x \<in> set xs \<Longrightarrow> \<not> p x) \<Longrightarrow> update_first p f xs = xs"
  by (induction xs) auto

lemma update_first_comp:
  "(\<And>x. p x \<Longrightarrow> p (f x)) \<Longrightarrow> update_first p g (update_first p f xs) = update_first p (g \<circ> f) xs"
  by (induction xs) auto

lemma update_first_cong:
  "(\<And>x. x \<in> set xs \<Longrightarrow> p x \<Longrightarrow> f x = g x) \<Longrightarrow> update_first p f xs = update_first p g xs"
  by (induction xs) auto

lemma find_update_first:
  assumes "\<And>x. p x \<Longrightarrow> p (f x)"
  shows "find p (update_first p f xs) = map_option f (find p xs)"
  using assms by (induction xs) auto

lemma find_Some_mem: "find p xs = Some x \<Longrightarrow> x \<in> set xs \<and> p x"
  by (induction xs) (auto split: if_splits)

lemma find_None: "find p xs = None \<longleftrightarrow> (\<forall>x \<in> set xs. \<not> p x)"
  by (induction xs) auto

lemma find_unique_key: "distinct (map f xs) \<Longrightarrow> x \<in> set xs \<Longrightarrow> find (\<lambda>y. f y = f x) xs = Some x"
  by (induction xs) (auto simp: image_iff)

lemma map_of_map_pair: "map_of (map (\<lambda>x. (f x, g x)) xs) k = map_option g (find (\<lambda>x. f x = k) xs)"
  by (induction xs) auto

text \<open>A value pushed to a list unless it is already there.\<close>

definition push_new :: "'a \<Rightarrow> 'a list \<Rightarrow> 'a list" where
  "push_new x xs = (if x \<in> set xs then xs else xs @ [x])"

lemma push_new_idem [simp]: "push_new x (push_new x xs) = push_new x xs"
  by (simp add: push_new_def)

lemma set_push_new [simp]: "set (push_new x xs) = insert x (set xs)"
  by (auto simp: push_new_def)

lemma if_mem: "x \<in> S \<Longrightarrow> y \<in> S \<Longrightarrow> (if b then x else y) \<in> S"
  by simp

lemma enumerate_split:
  assumes "enumerate k ls = ys @ (n, l) # zs"
  shows "n = k + length ys \<and> length ys < length ls \<and> l = ls ! length ys \<and> ys = enumerate k (take (length ys) ls)"
proof -
  have len: "length ys < length ls" using arg_cong[OF assms, of length] by simp
  have "(n, l) = enumerate k ls ! length ys" by (simp add: assms)
  also have "\<dots> = (k + length ys, ls ! length ys)" using len by (simp add: nth_enumerate_eq)
  finally have nl: "n = k + length ys" "l = ls ! length ys" by auto
  have "ys = take (length ys) (enumerate k ls)" by (simp add: assms)
  also have "\<dots> = enumerate k (take (length ys) ls)"
    using len by (simp add: enumerate_eq_zip take_zip)
  finally show ?thesis using nl len by blast
qed

lemma find_append: "find p (xs @ ys) = (case find p xs of None \<Rightarrow> find p ys | Some x \<Rightarrow> Some x)"
  by (induction xs) auto

end
