(* ===== verification/AIL_Strings.thy ===== *)
theory AIL_Strings
  imports AIL_Prelude
begin

text \<open>
  The string operations of Rust's standard library that the sources call, on
  text as a list of bytes. Byte positions are list positions. White space, letter
  case and digits are those of ASCII: on ASCII text the operations are the
  standard library's, a byte above 127 is no white space, no letter and no digit.
\<close>

section \<open>White space and trimming\<close>

definition is_whitespace :: "char \<Rightarrow> bool" where
  "is_whitespace c \<longleftrightarrow>
     c \<in> set [CHR 0x09, CHR 0x0A, CHR 0x0B, CHR 0x0C, CHR 0x0D, CHR 0x20]"

definition trim_start :: "string \<Rightarrow> string" where
  "trim_start s = dropWhile is_whitespace s"

definition trim_end :: "string \<Rightarrow> string" where
  "trim_end s = rev (dropWhile is_whitespace (rev s))"

definition trim :: "string \<Rightarrow> string" where
  "trim s = trim_end (trim_start s)"

section \<open>Prefixes, searching, splitting\<close>

fun strip_prefix :: "string \<Rightarrow> string \<Rightarrow> string option" where
  "strip_prefix [] s = Some s"
| "strip_prefix (p # ps) [] = None"
| "strip_prefix (p # ps) (c # s) = (if p = c then strip_prefix ps s else None)"

definition starts_with :: "string \<Rightarrow> string \<Rightarrow> bool" where
  "starts_with s p = (strip_prefix p s \<noteq> None)"

definition ends_with_char :: "string \<Rightarrow> char \<Rightarrow> bool" where
  "ends_with_char s c = (s \<noteq> [] \<and> last s = c)"

text \<open>\<^verbatim>\<open>find(c)\<close>: the position of the first occurrence.\<close>

fun find_char :: "char \<Rightarrow> string \<Rightarrow> nat option" where
  "find_char c [] = None"
| "find_char c (x # s) = (if x = c then Some 0 else map_option Suc (find_char c s))"

text \<open>\<^verbatim>\<open>splitn(n, p)\<close>: at most \<open>n\<close> pieces, the last one unsplit.\<close>

fun splitn :: "nat \<Rightarrow> (char \<Rightarrow> bool) \<Rightarrow> string \<Rightarrow> string list" where
  "splitn 0 p s = []"
| "splitn (Suc 0) p s = [s]"
| "splitn (Suc (Suc n)) p s =
     (case dropWhile (\<lambda>c. \<not> p c) s of
        [] \<Rightarrow> [s]
      | _ # rest \<Rightarrow> takeWhile (\<lambda>c. \<not> p c) s # splitn (Suc n) p rest)"

text \<open>The iterator's \<^verbatim>\<open>next\<close> and \<^verbatim>\<open>nth\<close> with \<^verbatim>\<open>unwrap_or("")\<close>.\<close>

definition piece :: "string list \<Rightarrow> nat \<Rightarrow> string option" where
  "piece ps i = (if i < length ps then Some (ps ! i) else None)"

definition piece_or_empty :: "string list \<Rightarrow> nat \<Rightarrow> string" where
  "piece_or_empty ps i = (case piece ps i of None \<Rightarrow> [] | Some s \<Rightarrow> s)"

fun split_on :: "(char \<Rightarrow> bool) \<Rightarrow> string \<Rightarrow> string list" where
  "split_on p [] = [[]]"
| "split_on p (c # s) =
     (if p c then [] # split_on p s
      else (case split_on p s of [] \<Rightarrow> [[c]] | w # ws \<Rightarrow> (c # w) # ws))"

definition split_whitespace :: "string \<Rightarrow> string list" where
  "split_whitespace s = filter (\<lambda>w. w \<noteq> []) (split_on is_whitespace s)"

definition strip_cr :: "string \<Rightarrow> string" where
  "strip_cr s = (if ends_with_char s CHR 0x0D then butlast s else s)"

text \<open>\<^verbatim>\<open>lines()\<close>: a final line end opens no further line.\<close>

definition str_lines :: "string \<Rightarrow> string list" where
  "str_lines s =
     (let ps = split_on (\<lambda>c. c = CHR 0x0A) s
      in map strip_cr (butlast ps) @ (if last ps = [] then [] else [last ps]))"

text \<open>\<^verbatim>\<open>rsplit('.').next()\<close>: what follows the last dot.\<close>

definition last_segment :: "char \<Rightarrow> string \<Rightarrow> string" where
  "last_segment c s = rev (takeWhile (\<lambda>x. x \<noteq> c) (rev s))"

section \<open>Letter case\<close>

definition is_uppercase :: "char \<Rightarrow> bool" where
  "is_uppercase c \<longleftrightarrow> 65 \<le> (of_char c :: nat) \<and> (of_char c :: nat) \<le> 90"

definition to_lower_char :: "char \<Rightarrow> char" where
  "to_lower_char c = (if is_uppercase c then char_of ((of_char c :: nat) + 32) else c)"

definition to_lowercase :: "string \<Rightarrow> string" where
  "to_lowercase s = map to_lower_char s"

definition replace_char :: "char \<Rightarrow> char \<Rightarrow> string \<Rightarrow> string" where
  "replace_char a b s = map (\<lambda>c. if c = a then b else c) s"

section \<open>Decimal and hexadecimal numerals\<close>

definition digit_value :: "char \<Rightarrow> nat option" where
  "digit_value c = (let n = of_char c in if 48 \<le> n \<and> n \<le> 57 then Some (n - 48) else None)"

fun parse_digits :: "nat \<Rightarrow> string \<Rightarrow> nat option" where
  "parse_digits acc [] = Some acc"
| "parse_digits acc (c # s) =
     (case digit_value c of None \<Rightarrow> None | Some d \<Rightarrow> parse_digits (10 * acc + d) s)"

text \<open>\<^verbatim>\<open>parse::<uN>()\<close> with \<open>bound = 2\<^sup>N\<close>: an optional plus sign, then digits.\<close>

definition parse_uint :: "nat \<Rightarrow> string \<Rightarrow> nat option" where
  "parse_uint bound s =
     (let ds = (case s of c # r \<Rightarrow> if c = CHR ''+'' then r else s | [] \<Rightarrow> s)
      in if ds = [] then None
         else (case parse_digits 0 ds of
                 None \<Rightarrow> None
               | Some n \<Rightarrow> if n < bound then Some n else None))"

definition parse_u32 :: "string \<Rightarrow> u32 option" where
  "parse_u32 s = map_option of_nat (parse_uint (2 ^ 32) s)"

definition parse_u64 :: "string \<Rightarrow> u64 option" where
  "parse_u64 s = map_option of_nat (parse_uint (2 ^ 64) s)"

text \<open>\<^verbatim>\<open>to_string()\<close> of an unsigned integer.\<close>

fun show_nat :: "nat \<Rightarrow> string" where
  "show_nat n = (if n < 10 then [char_of (48 + n)] else show_nat (n div 10) @ [char_of (48 + n mod 10)])"

declare show_nat.simps [simp del]

text \<open>\<^verbatim>\<open>format!("{b:02x}")\<close> for each byte.\<close>

definition hex_digit :: "u8 \<Rightarrow> char" where
  "hex_digit d = (if unat d < 10 then char_of (48 + unat d) else char_of (87 + unat d))"

definition hex_byte :: "u8 \<Rightarrow> string" where
  "hex_byte b = [hex_digit (b div 16), hex_digit (b mod 16)]"

definition hex_encode :: "u8 list \<Rightarrow> string" where
  "hex_encode bs = concat (map hex_byte bs)"

definition str_bytes :: "string \<Rightarrow> u8 list" where
  "str_bytes s = map (\<lambda>c. of_nat (of_char c)) s"

section \<open>Facts\<close>

lemma strip_prefix_Some_iff: "strip_prefix p s = Some r \<longleftrightarrow> s = p @ r"
  by (induction p s rule: strip_prefix.induct) auto

lemma strip_prefix_append [simp]: "strip_prefix p (p @ r) = Some r"
  by (simp add: strip_prefix_Some_iff)

lemma starts_with_iff: "starts_with s p \<longleftrightarrow> (\<exists>r. s = p @ r)"
  by (auto simp: starts_with_def strip_prefix_Some_iff)

lemma is_uppercase_to_lower [simp]: "\<not> is_uppercase (to_lower_char c)"
  by (auto simp: to_lower_char_def is_uppercase_def)

lemma to_lower_char_idem [simp]: "to_lower_char (to_lower_char c) = to_lower_char c"
  by (simp add: to_lower_char_def[of "to_lower_char c"])

lemma to_lower_char_id: "\<not> is_uppercase c \<Longrightarrow> to_lower_char c = c"
  by (simp add: to_lower_char_def)

lemma find_char_None_iff: "find_char c s = None \<longleftrightarrow> c \<notin> set s"
  by (induction s) auto

lemma find_char_Some_split:
  "find_char c s = Some i \<Longrightarrow> s = take i s @ c # drop (Suc i) s \<and> c \<notin> set (take i s) \<and> i < length s"
proof (induction s arbitrary: i)
  case (Cons x s)
  then show ?case by (cases i) (auto split: if_splits)
qed simp

lemma find_char_append [simp]: "c \<notin> set p \<Longrightarrow> find_char c (p @ c # r) = Some (length p)"
  by (induction p) auto

text \<open>Trimming leaves a text without outer white space alone.\<close>

lemma trim_start_id: "s = [] \<or> \<not> is_whitespace (hd s) \<Longrightarrow> trim_start s = s"
  by (cases s) (auto simp: trim_start_def)

lemma trim_end_id: "s = [] \<or> \<not> is_whitespace (last s) \<Longrightarrow> trim_end s = s"
  by (cases s rule: rev_cases) (auto simp: trim_end_def)

lemma trim_id: "s = [] \<or> \<not> is_whitespace (hd s) \<and> \<not> is_whitespace (last s) \<Longrightarrow> trim s = s"
  unfolding trim_def by (subst trim_start_id) (auto intro: trim_end_id)

lemma length_trim_start [simp]: "length (trim_start s) \<le> length s"
  by (simp add: trim_start_def length_dropWhile_le)

lemma parse_digits_append:
  "parse_digits acc (s @ t) = Option.bind (parse_digits acc s) (\<lambda>a. parse_digits a t)"
  by (induction acc s rule: parse_digits.induct) (auto split: option.splits)

lemma digit_value_char [simp]: "n < 10 \<Longrightarrow> digit_value (char_of (48 + n :: nat)) = Some n"
  by (auto simp: digit_value_def)

lemma parse_digits_show [simp]: "parse_digits 0 (show_nat n) = Some n"
proof (induction n rule: show_nat.induct)
  case (1 n)
  show ?case
  proof (cases "n < 10")
    case True
    then show ?thesis by (simp add: show_nat.simps[of n])
  next
    case False
    with 1 have "parse_digits 0 (show_nat (n div 10)) = Some (n div 10)" by simp
    with False show ?thesis
      by (simp add: show_nat.simps[of n] parse_digits_append)
  qed
qed

lemma show_nat_hd: "\<exists>d s. d < 10 \<and> show_nat n = char_of (48 + d :: nat) # s"
proof (induction n rule: show_nat.induct)
  case (1 n)
  then show ?case
  proof (cases "n < 10")
    case False
    with 1 obtain d :: nat and s where "d < 10" "show_nat (n div 10) = char_of (48 + d) # s" by blast
    with False show ?thesis by (auto simp: show_nat.simps[of n])
  qed (auto simp: show_nat.simps[of n])
qed

lemma char_of_digit_neq_plus: "d < 10 \<Longrightarrow> char_of (48 + d :: nat) \<noteq> CHR ''+''"
  by (auto dest!: arg_cong[where f = "of_char :: char \<Rightarrow> nat"])

lemma parse_uint_show_iff: "parse_uint bound (show_nat n) = (if n < bound then Some n else None)"
proof -
  obtain d :: nat and s where d: "d < 10" "show_nat n = char_of (48 + d) # s" using show_nat_hd by blast
  then have "parse_uint bound (show_nat n) =
    (case parse_digits 0 (show_nat n) of None \<Rightarrow> None | Some n \<Rightarrow> if n < bound then Some n else None)"
    by (simp add: parse_uint_def char_of_digit_neq_plus del: parse_digits_show)
  then show ?thesis by simp
qed

lemma parse_uint_show: "n < bound \<Longrightarrow> parse_uint bound (show_nat n) = Some n"
  by (simp add: parse_uint_show_iff)

lemma parse_u64_show: "parse_u64 (show_nat (unat w)) = Some w"
proof -
  have "unat w < 2 ^ 64" using unsigned_less[of w] by simp
  then show ?thesis by (simp add: parse_u64_def parse_uint_show)
qed

lemma parse_u32_show: "parse_u32 (show_nat (unat w)) = Some w"
proof -
  have "unat w < 2 ^ 32" using unsigned_less[of w] by simp
  then show ?thesis by (simp add: parse_u32_def parse_uint_show)
qed

lemma hex_encode_Nil [simp]: "hex_encode [] = []"
  by (simp add: hex_encode_def)

lemma hex_encode_Cons [simp]:
  "hex_encode (b # bs) = hex_digit (b div 16) # hex_digit (b mod 16) # hex_encode bs"
  by (simp add: hex_encode_def hex_byte_def)

lemma length_hex_encode [simp]: "length (hex_encode bs) = 2 * length bs"
  by (induction bs) auto

end
