(* ===== verification/Package_Manifest.thy ===== *)
theory Package_Manifest
  imports AIL_Strings "HOL-Library.Product_Lexorder"
begin

text \<open>
  Package manifests of \<^verbatim>\<open>ail-package\<close>: trust levels (\<^verbatim>\<open>trust.rs\<close>), the declarations a
  manifest holds (\<^verbatim>\<open>assumption.rs\<close>, \<^verbatim>\<open>surface.rs\<close>, \<^verbatim>\<open>handler.rs\<close>, \<^verbatim>\<open>export.rs\<close>,
  \<^verbatim>\<open>import.rs\<close>, \<^verbatim>\<open>verification.rs\<close>), and the two validations of \<^verbatim>\<open>manifest.rs\<close>: the
  first error of \<^verbatim>\<open>validate\<close> and the full issue list a publication needs.  The
  version parser of the \<^verbatim>\<open>semver\<close> crate is a parameter.  Field names carry the
  initials of their struct.
\<close>

section \<open>Trust levels\<close>

datatype TrustLevel = Unsafe | Unverified | Assumed | Verified

fun trust_rank :: "TrustLevel \<Rightarrow> nat" where
  "trust_rank Unsafe = 0"
| "trust_rank Unverified = 1"
| "trust_rank Assumed = 2"
| "trust_rank Verified = 3"

instantiation TrustLevel :: linorder
begin

definition less_eq_TrustLevel :: "TrustLevel \<Rightarrow> TrustLevel \<Rightarrow> bool" where
  "a \<le> b \<longleftrightarrow> trust_rank a \<le> trust_rank b"

definition less_TrustLevel :: "TrustLevel \<Rightarrow> TrustLevel \<Rightarrow> bool" where
  "a < b \<longleftrightarrow> trust_rank a < trust_rank b"

instance
proof
  fix a b :: TrustLevel
  show "a \<le> b \<Longrightarrow> b \<le> a \<Longrightarrow> a = b" by (cases a; cases b) (simp_all add: less_eq_TrustLevel_def)
qed (auto simp: less_eq_TrustLevel_def less_TrustLevel_def)

end

definition satisfies :: "TrustLevel \<Rightarrow> TrustLevel \<Rightarrow> bool" where
  "satisfies level minimum \<longleftrightarrow> level \<ge> minimum"

section \<open>Declarations\<close>

datatype AssumptionState = Proposed | Approved | Active | Expired | Revoked | FailedReview

record PackageAssumption =
  pa_id :: string
  pa_claim :: string
  pa_boundary :: string
  pa_owner :: string
  pa_expires :: "string option"
  pa_state :: AssumptionState

record UnsafeSurfaceEntry =
  us_kind :: string
  us_name :: string
  us_description :: string

record HandlerExport =
  he_capability :: string
  he_handler_name :: string
  he_trust_level :: TrustLevel

datatype ExportVisibility = Public | Internal | Private

datatype ExportStability = Stable | Beta | Experimental | Deprecated

record ExportDeclaration =
  ed_name :: string
  ed_signature :: string
  ed_effects :: "string list"
  ed_contracts :: "string list"
  ed_visibility :: ExportVisibility
  ed_stability :: ExportStability
  ed_trust_state :: "TrustLevel option"

record ImportDeclaration =
  id_source_package :: string
  id_items :: "string list"
  id_version_constraint :: "string option"

record Provenance =
  pv_url :: "string option"
  pv_source_repository :: "string option"
  pv_commit_hash :: "string option"
  pv_build_id :: "string option"

record ArtifactHashEntry =
  ah_role :: string
  ah_hash :: string

record PackageVerificationReport =
  vr_package :: string
  vr_version :: string
  vr_exports_verified :: "string list"
  vr_effects_declared :: "string list"
  vr_assumptions :: "string list"
  vr_unsafe_surface :: "string list"
  vr_artifact_hashes :: "string list"

record ReproducibleBuildEvidence =
  re_build_inputs_hash :: string
  re_toolchain_id :: string
  re_source_digest :: string
  re_recipe_hash :: string

record PackageManifest =
  pm_name :: string
  pm_version :: string
  pm_trust_level :: TrustLevel
  pm_required_capabilities :: "string list"
  pm_exported_capabilities :: "string list"
  pm_assumptions :: "PackageAssumption list"
  pm_unsafe_surface :: "UnsafeSurfaceEntry list"
  pm_artifact_hashes :: "ArtifactHashEntry list"
  pm_build_env_hash :: "string option"
  pm_handlers :: "HandlerExport list"
  pm_contracts :: "string list"
  pm_exports :: "ExportDeclaration list"
  pm_imports :: "ImportDeclaration list"
  pm_boundaries :: "string list"
  pm_license :: "string option"
  pm_provenance :: "Provenance option"
  pm_verification_report :: "PackageVerificationReport option"
  pm_graph_schema :: "u32 option"
  pm_core_ir_schema :: "u32 option"
  pm_reproducible_evidence :: "ReproducibleBuildEvidence option"

section \<open>Validation\<close>

datatype PackageValidationError =
  UnsafeWithoutSurface | ExportNameEmpty | HandlerFieldEmpty | ImportSourceEmpty
| WasmArtifactMissingAbiDescriptor | ArtifactRoleEmpty | ArtifactHashInvalid | DuplicateArtifactRole

definition has_artifact_role :: "ArtifactHashEntry list \<Rightarrow> string \<Rightarrow> bool" where
  "has_artifact_role artifact_hashes role = list_ex (\<lambda>entry. trim (ah_role entry) = role) artifact_hashes"

definition is_ascii_digit :: "char \<Rightarrow> bool" where
  "is_ascii_digit c \<longleftrightarrow> CHR ''0'' \<le> c \<and> c \<le> CHR ''9''"

definition is_valid_blake3_hex :: "string \<Rightarrow> bool" where
  "is_valid_blake3_hex hash \<longleftrightarrow>
    length hash = 64 \<and> list_all (\<lambda>c. is_ascii_digit c \<or> CHR ''a'' \<le> c \<and> c \<le> CHR ''f'') hash"

fun validate_artifacts :: "ArtifactHashEntry list \<Rightarrow> string set \<Rightarrow> (PackageValidationError, unit) result" where
  "validate_artifacts [] artifact_roles = Ok ()"
| "validate_artifacts (artifact # rest) artifact_roles =
    (let role = trim (ah_role artifact) in
     if role = [] then Err ArtifactRoleEmpty
     else if \<not> is_valid_blake3_hex (ah_hash artifact) then Err ArtifactHashInvalid
     else if role \<in> artifact_roles then Err DuplicateArtifactRole
     else validate_artifacts rest (insert role artifact_roles))"

definition validate :: "PackageManifest \<Rightarrow> (PackageValidationError, unit) result" where
  "validate m =
    (if pm_trust_level m = Unsafe \<and> pm_unsafe_surface m = [] then Err UnsafeWithoutSurface
     else if list_ex (\<lambda>export. ed_name export = []) (pm_exports m) then Err ExportNameEmpty
     else if list_ex (\<lambda>handler. he_capability handler = [] \<or> he_handler_name handler = []) (pm_handlers m)
       then Err HandlerFieldEmpty
     else if list_ex (\<lambda>import. id_source_package import = []) (pm_imports m) then Err ImportSourceEmpty
     else rbind (validate_artifacts (pm_artifact_hashes m) {}) (\<lambda>_.
       if has_artifact_role (pm_artifact_hashes m) ''wasm-artifact'' \<and>
          \<not> has_artifact_role (pm_artifact_hashes m) ''wasm-abi-descriptor''
       then Err WasmArtifactMissingAbiDescriptor else Ok ()))"

section \<open>Publication issues\<close>

datatype PackageManifestIssueKind =
  InvalidPackageName | InvalidVersion | UnsafeWithoutSurfaceIssue | ExportNameEmptyIssue
| HandlerFieldEmptyIssue | ImportSourceEmptyIssue | MissingLicense | MissingEntryMetadata
| MissingAbiDescriptorArtifact | ArtifactRoleEmptyIssue | ArtifactHashInvalidIssue
| DuplicateArtifactRoleIssue | DuplicateDependency | DuplicateCapability | DuplicateExport

record PackageManifestIssue =
  mi_kind :: PackageManifestIssueKind
  mi_path :: string
  mi_index :: "nat option"
  mi_duplicate_of :: "nat option"
  mi_message :: string

definition manifest_issue ::
  "PackageManifestIssueKind \<Rightarrow> string \<Rightarrow> nat option \<Rightarrow> nat option \<Rightarrow> string \<Rightarrow> PackageManifestIssue" where
  "manifest_issue kind path index duplicate_of message =
    \<lparr>mi_kind = kind, mi_path = path, mi_index = index, mi_duplicate_of = duplicate_of, mi_message = message\<rparr>"

definition has_infix :: "string \<Rightarrow> string \<Rightarrow> bool" where
  "has_infix s p \<longleftrightarrow> list_ex (\<lambda>n. starts_with (drop n s) p) [0..<length s]"

definition is_valid_package_name :: "string \<Rightarrow> bool" where
  "is_valid_package_name name =
    (if name = [] \<or> starts_with name ''.'' \<or> ends_with_char name CHR ''.'' \<or> has_infix name ''..'' then False
     else list_all (\<lambda>b. CHR ''a'' \<le> b \<and> b \<le> CHR ''z'' \<or> is_ascii_digit b \<or> b = CHR ''.'' \<or> b = CHR ''_'' \<or> b = CHR ''-'') name)"

text \<open>The position of every value that occurs before, with the position of its first occurrence.\<close>

fun duplicate_scan :: "(nat \<times> string) list \<Rightarrow> (string \<Rightarrow> nat option) \<Rightarrow> (nat \<times> nat) list" where
  "duplicate_scan [] first_indexes = []"
| "duplicate_scan ((index, v) # rest) first_indexes =
    (if trim v = [] then duplicate_scan rest first_indexes
     else case first_indexes (trim v) of
       Some first_index \<Rightarrow> (index, first_index) # duplicate_scan rest first_indexes
     | None \<Rightarrow> duplicate_scan rest (first_indexes(trim v \<mapsto> index)))"

definition duplicate_indexes :: "string list \<Rightarrow> (nat \<times> nat) list" where
  "duplicate_indexes xs = sort (duplicate_scan (enumerate 0 xs) Map.empty)"

definition push_duplicate_string_issues ::
  "string list \<Rightarrow> PackageManifestIssueKind \<Rightarrow> string \<Rightarrow> string \<Rightarrow> PackageManifestIssue list" where
  "push_duplicate_string_issues xs kind path message =
    map (\<lambda>(index, first_index). manifest_issue kind path (Some index) (Some first_index) message)
      (duplicate_indexes xs)"

definition push_duplicate_import_issues :: "ImportDeclaration list \<Rightarrow> PackageManifestIssue list" where
  "push_duplicate_import_issues imports =
    push_duplicate_string_issues (map id_source_package imports) DuplicateDependency
      ''manifest.imports.source_package'' ''dependency imports must be unique by source package''"

definition push_duplicate_export_issues :: "ExportDeclaration list \<Rightarrow> PackageManifestIssue list" where
  "push_duplicate_export_issues exports =
    push_duplicate_string_issues (map ed_name exports) DuplicateExport
      ''manifest.exports.name'' ''export declarations must be unique by export name''"

definition push_artifact_hash_issues :: "ArtifactHashEntry list \<Rightarrow> PackageManifestIssue list" where
  "push_artifact_hash_issues artifact_hashes =
    concat (map (\<lambda>(index, artifact).
      (if trim (ah_role artifact) = []
       then [manifest_issue ArtifactRoleEmptyIssue ''manifest.artifact_hashes.role'' (Some index) None
               ''artifact hash entries must include an artifact role''] else []) @
      (if \<not> is_valid_blake3_hex (ah_hash artifact)
       then [manifest_issue ArtifactHashInvalidIssue ''manifest.artifact_hashes.hash'' (Some index) None
               ''artifact hashes must be canonical BLAKE3 hex digests''] else [])) (enumerate 0 artifact_hashes)) @
    map (\<lambda>(index, first_index). manifest_issue DuplicateArtifactRoleIssue ''manifest.artifact_hashes.role''
        (Some index) (Some first_index) ''artifact hash roles must be unique'')
      (duplicate_scan (enumerate 0 (map ah_role artifact_hashes)) Map.empty)"

definition production_validation_issues :: "(string \<Rightarrow> 'ver option) \<Rightarrow> PackageManifest \<Rightarrow> PackageManifestIssue list" where
  "production_validation_issues parse_version m =
    (if \<not> is_valid_package_name (pm_name m)
     then [manifest_issue InvalidPackageName ''manifest.name'' None None
             ''package name must be non-empty lowercase package coordinates''] else []) @
    (if parse_version (pm_version m) = None
     then [manifest_issue InvalidVersion ''manifest.version'' None None
             ''package version must be valid semantic version metadata''] else []) @
    (if pm_trust_level m = Unsafe \<and> pm_unsafe_surface m = []
     then [manifest_issue UnsafeWithoutSurfaceIssue ''manifest.unsafe_surface'' None None
             ''unsafe packages must declare at least one unsafe surface entry''] else []) @
    (if (case pm_license m of None \<Rightarrow> True | Some license \<Rightarrow> trim license = [])
     then [manifest_issue MissingLicense ''manifest.license'' None None
             ''production package manifests must declare license metadata''] else []) @
    push_duplicate_string_issues (pm_required_capabilities m) DuplicateCapability
      ''manifest.required_capabilities'' ''required capability entries must be unique'' @
    push_duplicate_string_issues (pm_exported_capabilities m) DuplicateCapability
      ''manifest.exported_capabilities'' ''exported capability entries must be unique'' @
    push_duplicate_import_issues (pm_imports m) @
    push_artifact_hash_issues (pm_artifact_hashes m) @
    (if has_artifact_role (pm_artifact_hashes m) ''wasm-artifact'' \<and>
        \<not> has_artifact_role (pm_artifact_hashes m) ''wasm-abi-descriptor''
     then [manifest_issue MissingAbiDescriptorArtifact ''manifest.artifact_hashes'' None None
             ''wasm packages must declare the ABI descriptor artifact''] else []) @
    concat (map (\<lambda>(index, export).
      (if trim (ed_name export) = []
       then [manifest_issue ExportNameEmptyIssue ''manifest.exports.name'' (Some index) None
               ''export declarations must include an export name''] else []) @
      (if trim (ed_signature export) = []
       then [manifest_issue MissingEntryMetadata ''manifest.exports.signature'' (Some index) None
               ''export declarations must include entry signature metadata''] else []))
      (enumerate 0 (pm_exports m))) @
    push_duplicate_export_issues (pm_exports m) @
    concat (map (\<lambda>(index, handler).
      if trim (he_capability handler) = [] \<or> trim (he_handler_name handler) = []
      then [manifest_issue HandlerFieldEmptyIssue ''manifest.handlers'' (Some index) None
              ''handler exports must include capability and handler metadata''] else [])
      (enumerate 0 (pm_handlers m))) @
    concat (map (\<lambda>(index, import).
      if trim (id_source_package import) = []
      then [manifest_issue ImportSourceEmptyIssue ''manifest.imports.source_package'' (Some index) None
              ''import declarations must include source package metadata''] else [])
      (enumerate 0 (pm_imports m)))"

definition validate_for_publish ::
  "(string \<Rightarrow> 'ver option) \<Rightarrow> PackageManifest \<Rightarrow> (PackageManifestIssue list, unit) result" where
  "validate_for_publish parse_version m =
    (let issues = production_validation_issues parse_version m in if issues = [] then Ok () else Err issues)"

section \<open>What a publishable manifest guarantees\<close>

definition unique_names :: "string list \<Rightarrow> bool" where
  "unique_names xs \<longleftrightarrow> distinct (filter (\<lambda>v. v \<noteq> []) (map trim xs))"

lemma duplicate_scan_empty:
  "duplicate_scan (enumerate n xs) f = [] \<longleftrightarrow>
    unique_names xs \<and> (\<forall>v \<in> set xs. trim v \<noteq> [] \<longrightarrow> f (trim v) = None)"
proof (induction xs arbitrary: n f)
  case (Cons x xs)
  then show ?case by (auto simp: unique_names_def image_iff split: option.splits)
qed (simp add: unique_names_def)

lemma sort_empty [simp]: "sort xs = [] \<longleftrightarrow> xs = []"
  by (metis length_0_conv length_sort)

lemma push_duplicates_empty [simp]: "push_duplicate_string_issues xs kind path message = [] \<longleftrightarrow> unique_names xs"
  by (simp add: push_duplicate_string_issues_def duplicate_indexes_def duplicate_scan_empty)

lemma concat_enumerate_Nil:
  assumes "\<And>i x. f i x = [] \<longleftrightarrow> P x"
  shows "concat (map (\<lambda>(i, x). f i x) (enumerate n xs)) = [] \<longleftrightarrow> (\<forall>x \<in> set xs. P x)"
  by (induction xs arbitrary: n) (auto simp: assms)

lemma push_artifacts_empty:
  "push_artifact_hash_issues as = [] \<longleftrightarrow>
    (\<forall>a \<in> set as. trim (ah_role a) \<noteq> [] \<and> is_valid_blake3_hex (ah_hash a)) \<and> unique_names (map ah_role as)"
  unfolding push_artifact_hash_issues_def append_is_Nil_conv map_is_Nil_conv duplicate_scan_empty
  by (subst concat_enumerate_Nil[where P = "\<lambda>a. trim (ah_role a) \<noteq> [] \<and> is_valid_blake3_hex (ah_hash a)"]) auto

lemma validate_artifacts_Ok:
  assumes "\<forall>a \<in> set as. trim (ah_role a) \<noteq> [] \<and> is_valid_blake3_hex (ah_hash a)"
    "unique_names (map ah_role as)" "\<forall>a \<in> set as. trim (ah_role a) \<notin> R"
  shows "validate_artifacts as R = Ok ()"
  using assms
proof (induction as arbitrary: R)
  case (Cons a as)
  then have "validate_artifacts as (insert (trim (ah_role a)) R) = Ok ()"
    by (intro Cons.IH) (auto simp: unique_names_def image_iff)
  with Cons.prems show ?case by (simp add: Let_def)
qed simp

lemma trim_Nil [simp]: "trim [] = []"
  by (simp add: trim_def trim_start_def trim_end_def)

definition publish_ready :: "(string \<Rightarrow> 'ver option) \<Rightarrow> PackageManifest \<Rightarrow> bool" where
  "publish_ready pv m \<longleftrightarrow>
     is_valid_package_name (pm_name m) \<and> pv (pm_version m) \<noteq> None \<and>
     (pm_trust_level m = Unsafe \<longrightarrow> pm_unsafe_surface m \<noteq> []) \<and>
     (\<exists>license. pm_license m = Some license \<and> trim license \<noteq> []) \<and>
     unique_names (pm_required_capabilities m) \<and> unique_names (pm_exported_capabilities m) \<and>
     unique_names (map id_source_package (pm_imports m)) \<and>
     unique_names (map ed_name (pm_exports m)) \<and> unique_names (map ah_role (pm_artifact_hashes m)) \<and>
     (\<forall>a \<in> set (pm_artifact_hashes m). trim (ah_role a) \<noteq> [] \<and> is_valid_blake3_hex (ah_hash a)) \<and>
     (has_artifact_role (pm_artifact_hashes m) ''wasm-artifact'' \<longrightarrow>
       has_artifact_role (pm_artifact_hashes m) ''wasm-abi-descriptor'') \<and>
     (\<forall>e \<in> set (pm_exports m). trim (ed_name e) \<noteq> [] \<and> trim (ed_signature e) \<noteq> []) \<and>
     (\<forall>h \<in> set (pm_handlers m). trim (he_capability h) \<noteq> [] \<and> trim (he_handler_name h) \<noteq> []) \<and>
     (\<forall>i \<in> set (pm_imports m). trim (id_source_package i) \<noteq> [])"

lemma issues_empty: "production_validation_issues pv m = [] \<longleftrightarrow> publish_ready pv m"
proof -
  have license: "(case pm_license m of None \<Rightarrow> True | Some license \<Rightarrow> trim license = []) \<longleftrightarrow>
      \<not> (\<exists>license. pm_license m = Some license \<and> trim license \<noteq> [])"
    by (cases "pm_license m") auto
  show ?thesis
    unfolding production_validation_issues_def publish_ready_def append_is_Nil_conv push_artifacts_empty license
      push_duplicate_import_issues_def push_duplicate_export_issues_def push_duplicates_empty
    apply (subst concat_enumerate_Nil[where P = "\<lambda>e. trim (ed_name e) \<noteq> [] \<and> trim (ed_signature e) \<noteq> []"], simp)
    apply (subst concat_enumerate_Nil[where P = "\<lambda>h. trim (he_capability h) \<noteq> [] \<and> trim (he_handler_name h) \<noteq> []"], simp)
    apply (subst concat_enumerate_Nil[where P = "\<lambda>i. trim (id_source_package i) \<noteq> []"], simp)
    by (simp only: if_split_eq1 list.distinct simp_thms) blast
qed

text \<open>
  C24. A manifest passes the publication check exactly when its name and version
  are well-formed, an unsafe package declares its surface, a licence is stated,
  every name is given and unique up to surrounding blanks, and its artifacts are
  hashed completely; and such a manifest also passes the basic validation.
\<close>

theorem publish_ready_exact:
  "(validate_for_publish pv m = Ok () \<longleftrightarrow> publish_ready pv m) \<and> (publish_ready pv m \<longrightarrow> validate m = Ok ())"
proof -
  have "validate m = Ok ()" if "publish_ready pv m"
    using that validate_artifacts_Ok[of "pm_artifact_hashes m" "{}"]
    by (auto simp: publish_ready_def validate_def list_ex_iff)
  then show ?thesis by (simp add: validate_for_publish_def issues_empty Let_def)
qed

definition plain_manifest :: "string \<Rightarrow> string \<Rightarrow> TrustLevel \<Rightarrow> PackageManifest" where
  "plain_manifest name version trust =
    \<lparr>pm_name = name, pm_version = version, pm_trust_level = trust, pm_required_capabilities = [],
     pm_exported_capabilities = [], pm_assumptions = [], pm_unsafe_surface = [], pm_artifact_hashes = [],
     pm_build_env_hash = None, pm_handlers = [], pm_contracts = [], pm_exports = [], pm_imports = [],
     pm_boundaries = [], pm_license = Some ''MIT'', pm_provenance = None, pm_verification_report = None,
     pm_graph_schema = None, pm_core_ir_schema = None, pm_reproducible_evidence = None\<rparr>"

theorem publish_ready_exact_witness:
  "validate ((plain_manifest ''pay.stripe'' ''1.2.0'' Assumed)\<lparr>pm_imports :=
     [\<lparr>id_source_package = ''net.http'', id_items = [''get''], id_version_constraint = None\<rparr>]\<rparr>) = Ok ()"
proof -
  let ?m = "(plain_manifest ''pay.stripe'' ''1.2.0'' Assumed)\<lparr>pm_imports :=
     [\<lparr>id_source_package = ''net.http'', id_items = [''get''], id_version_constraint = None\<rparr>]\<rparr>"
  have "publish_ready Some ?m"
    by (simp add: publish_ready_def plain_manifest_def) code_simp
  with publish_ready_exact[of Some ?m] show ?thesis by blast
qed

end
