(* ===== verification/Package_Versioning.thy ===== *)
theory Package_Versioning
  imports AIL_Strings "HOL-Library.Product_Lexorder" "HOL-Library.Option_ord"
begin

text \<open>
  Version requirements, compatibility classes and migration records of
  \<^verbatim>\<open>ail-package/src/versioning.rs\<close>.  The \<^verbatim>\<open>semver\<close> crate is the record
  \<open>Semver\<close> of the functions the sources call, over a linearly ordered type of
  versions and a type of requirements; its documented behaviour appears as
  named hypotheses.  The hash of a migration record is a parameter.
\<close>

section \<open>The semver crate\<close>

record ('ver, 'req) Semver =
  sv_parse :: "string \<Rightarrow> 'ver option"
  sv_show :: "'ver \<Rightarrow> string"
  sv_major :: "'ver \<Rightarrow> u64"
  sv_minor :: "'ver \<Rightarrow> u64"
  sv_req_parse :: "string \<Rightarrow> 'req option"
  sv_req_matches :: "'req \<Rightarrow> 'ver \<Rightarrow> bool"

section \<open>Versions\<close>

datatype CompatibilityError =
  MajorBumpWithoutMigration | PatchWithMigration | InvalidVersion string | MetadataTargetMismatch
| MigrationPackageMismatch | MigrationTargetMismatch | MigrationHashFailed string

definition numeric_part :: "string \<Rightarrow> bool" where
  "numeric_part part \<longleftrightarrow> part \<noteq> [] \<and> list_all (\<lambda>c. CHR ''0'' \<le> c \<and> c \<le> CHR ''9'') part"

definition normalize_version :: "('ver, 'req) Semver \<Rightarrow> string \<Rightarrow> (CompatibilityError, string) result" where
  "normalize_version sv version =
    (if sv_parse sv version \<noteq> None then Ok version
     else case split_on (\<lambda>c. c = CHR ''.'') version of
       [major, minor] \<Rightarrow>
         if numeric_part major \<and> numeric_part minor then Ok (major @ ''.'' @ minor @ ''.0'') else Err (InvalidVersion version)
     | [major] \<Rightarrow> if numeric_part major then Ok (major @ ''.0.0'') else Err (InvalidVersion version)
     | _ \<Rightarrow> Err (InvalidVersion version))"

definition parse_version :: "('ver, 'req) Semver \<Rightarrow> string \<Rightarrow> (CompatibilityError, 'ver) result" where
  "parse_version sv version =
    rbind (normalize_version sv version) (\<lambda>normalized.
      case sv_parse sv normalized of Some v \<Rightarrow> Ok v | None \<Rightarrow> Err (InvalidVersion version))"

definition is_canonical_version :: "('ver, 'req) Semver \<Rightarrow> string \<Rightarrow> bool" where
  "is_canonical_version sv version =
    (case sv_parse sv version of Some parsed \<Rightarrow> sv_show sv parsed = version | None \<Rightarrow> False)"

section \<open>Requirements\<close>

datatype VersionRequirementIssueCode = RequirementEmpty | RequirementInvalid

datatype VersionRequirementShape = Empty | Exact | Caret | Tilde | Comparator | Other

text \<open>The issue kind has the single value \<^verbatim>\<open>requirement\<close> and is left out.\<close>

record VersionRequirementIssue =
  vi_code :: VersionRequirementIssueCode
  vi_shape :: VersionRequirementShape
  vi_char_len :: nat
  vi_reason :: string

definition exact_requirement :: "('ver, 'req) Semver \<Rightarrow> string \<Rightarrow> string option" where
  "exact_requirement sv requirement =
    (case normalize_version sv requirement of Inr version \<Rightarrow> Some (''='' @ version) | Inl _ \<Rightarrow> None)"

definition is_comparator_requirement :: "string \<Rightarrow> bool" where
  "is_comparator_requirement requirement \<longleftrightarrow>
    starts_with requirement ''<'' \<or> starts_with requirement ''>'' \<or> starts_with requirement ''=''"

text \<open>\<^verbatim>\<open>str::replace\<close> for a pattern of two characters.\<close>

fun replace_pair :: "char \<Rightarrow> char \<Rightarrow> string \<Rightarrow> string \<Rightarrow> string" where
  "replace_pair a b r (x # y # s) =
    (if x = a \<and> y = b then r @ replace_pair a b r s else x # replace_pair a b r (y # s))"
| "replace_pair a b r s = s"

definition range_requirement :: "string \<Rightarrow> string" where
  "range_requirement requirement =
    (let trimmed = trim requirement in
     if CHR '','' \<in> set trimmed \<or> \<not> is_comparator_requirement trimmed then trimmed
     else replace_pair CHR '' '' CHR ''='' '', =''
       (replace_pair CHR '' '' CHR ''>'' '', >'' (replace_pair CHR '' '' CHR ''<'' '', <'' trimmed)))"

definition version_requirement_shape :: "('ver, 'req) Semver \<Rightarrow> string \<Rightarrow> VersionRequirementShape" where
  "version_requirement_shape sv requirement =
    (let trimmed = trim requirement in
     if trimmed = [] then Empty
     else if exact_requirement sv trimmed \<noteq> None then Exact
     else if starts_with trimmed ''^'' then Caret
     else if starts_with trimmed ''~'' then Tilde
     else if starts_with trimmed ''>'' \<or> starts_with trimmed ''<'' \<or> starts_with trimmed ''='' then Comparator
     else Other)"

definition version_requirement_error ::
  "('ver, 'req) Semver \<Rightarrow> string \<Rightarrow> VersionRequirementIssueCode \<Rightarrow> string \<Rightarrow> VersionRequirementIssue" where
  "version_requirement_error sv requirement code reason =
    \<lparr>vi_code = code, vi_shape = version_requirement_shape sv requirement,
     vi_char_len = length requirement, vi_reason = reason\<rparr>"

definition parse_requirement :: "('ver, 'req) Semver \<Rightarrow> string \<Rightarrow> (VersionRequirementIssue, 'req) result" where
  "parse_requirement sv requirement =
    (let trimmed = trim requirement in
     if trimmed = []
     then Err (version_requirement_error sv trimmed RequirementEmpty ''version requirement must not be empty'')
     else
       (let parse_target = (case exact_requirement sv trimmed of Some t \<Rightarrow> t | None \<Rightarrow> range_requirement trimmed) in
        case sv_req_parse sv parse_target of
          Some r \<Rightarrow> Ok r
        | None \<Rightarrow> Err (version_requirement_error sv trimmed RequirementInvalid
            ''version requirement must be exact, caret, tilde, or comparator syntax'')))"

section \<open>Migration records\<close>

datatype CompatibilityClass = Patch | Minor | Major

record MigrationStep =
  ms_changed :: string
  ms_replacement :: string

record MigrationRecord =
  mr_package :: string
  mr_from_version :: string
  mr_to_version :: string
  mr_steps :: "MigrationStep list"

record PackageCompatibilityMetadata =
  cm_package :: string
  cm_version :: string
  cm_compatibility :: CompatibilityClass
  cm_migrations :: "MigrationRecord list"

datatype LocalCompatibilityIssueKind = Compatibility | Migration

datatype LocalCompatibilityIssueCode =
  MigrationMetadataRequired | MigrationMetadataPresent | MigrationStepChangedEmpty
| MigrationStepReplacementEmpty | MigrationStepDuplicate | MigrationVersionNonCanonical

fun kind_str :: "LocalCompatibilityIssueKind \<Rightarrow> string" where
  "kind_str Compatibility = ''compatibility''"
| "kind_str Migration = ''migration''"

fun code_str :: "LocalCompatibilityIssueCode \<Rightarrow> string" where
  "code_str MigrationMetadataRequired = ''migration.metadata_required''"
| "code_str MigrationMetadataPresent = ''migration.metadata_present''"
| "code_str MigrationStepChangedEmpty = ''migration.step_changed_empty''"
| "code_str MigrationStepReplacementEmpty = ''migration.step_replacement_empty''"
| "code_str MigrationStepDuplicate = ''migration.step_duplicate''"
| "code_str MigrationVersionNonCanonical = ''migration.version_non_canonical''"

record LocalCompatibilityIssue =
  li_package :: string
  li_current_version :: string
  li_target_version :: string
  li_kind :: LocalCompatibilityIssueKind
  li_code :: LocalCompatibilityIssueCode
  li_reason :: string
  li_migration_hash :: "string option"

definition sort_local_issues :: "LocalCompatibilityIssue list \<Rightarrow> LocalCompatibilityIssue list" where
  "sort_local_issues = sort_key (\<lambda>i. (code_str (li_code i), kind_str (li_kind i), li_package i,
     li_current_version i, li_target_version i, li_reason i, li_migration_hash i))"

definition migration_issue ::
  "string \<Rightarrow> MigrationRecord \<Rightarrow> LocalCompatibilityIssueCode \<Rightarrow> string \<Rightarrow> LocalCompatibilityIssue" where
  "migration_issue package migration code reason =
    \<lparr>li_package = package, li_current_version = mr_from_version migration,
     li_target_version = mr_to_version migration, li_kind = Migration, li_code = code,
     li_reason = reason, li_migration_hash = None\<rparr>"

fun step_issues ::
  "string \<Rightarrow> MigrationRecord \<Rightarrow> MigrationStep list \<Rightarrow> (string \<times> string) set \<Rightarrow> LocalCompatibilityIssue list" where
  "step_issues package migration [] seen_steps = []"
| "step_issues package migration (step # steps) seen_steps =
    (let changed = trim (ms_changed step); replacement = trim (ms_replacement step);
         key = (changed, replacement); complete = (changed \<noteq> [] \<and> replacement \<noteq> []) in
     (if changed = [] then [migration_issue package migration MigrationStepChangedEmpty
        ''migration step changed item must not be empty''] else []) @
     (if replacement = [] then [migration_issue package migration MigrationStepReplacementEmpty
        ''migration step replacement must not be empty''] else []) @
     (if complete \<and> key \<in> seen_steps then [migration_issue package migration MigrationStepDuplicate
        ''migration record repeats a changed/replacement step''] else []) @
     step_issues package migration steps (if complete then insert key seen_steps else seen_steps))"

definition migration_record_issues ::
  "('ver, 'req) Semver \<Rightarrow> string \<Rightarrow> MigrationRecord \<Rightarrow> LocalCompatibilityIssue list" where
  "migration_record_issues sv package migration = sort_local_issues
    ((if \<not> is_canonical_version sv (mr_from_version migration)
      then [migration_issue package migration MigrationVersionNonCanonical
              ''migration from_version must be a canonical semantic version''] else []) @
     (if \<not> is_canonical_version sv (mr_to_version migration)
      then [migration_issue package migration MigrationVersionNonCanonical
              ''migration to_version must be a canonical semantic version''] else []) @
     step_issues package migration (mr_steps migration) {})"

section \<open>The compatibility engine\<close>

definition class_error :: "CompatibilityClass \<Rightarrow> MigrationRecord list \<Rightarrow> (CompatibilityError, unit) result" where
  "class_error compatibility migrations =
    (if compatibility = Major \<and> migrations = [] then Err MajorBumpWithoutMigration
     else if compatibility = Patch \<and> migrations \<noteq> [] then Err PatchWithMigration
     else Ok ())"

definition evaluate_local_metadata ::
  "('ver, 'req) Semver \<Rightarrow> PackageCompatibilityMetadata \<Rightarrow> (CompatibilityError, unit) result" where
  "evaluate_local_metadata sv metadata =
    rbind (class_error (cm_compatibility metadata) (cm_migrations metadata)) (\<lambda>_.
      rfold (\<lambda>_ migration.
        if mr_package migration \<noteq> cm_package metadata then Err MigrationPackageMismatch
        else rbind (normalize_version sv (mr_to_version migration)) (\<lambda>target.
          rbind (normalize_version sv (cm_version metadata)) (\<lambda>version.
            if target \<noteq> version then Err MigrationTargetMismatch else Ok ())))
        () (cm_migrations metadata))"

definition check_migration ::
  "('ver, 'req) Semver \<Rightarrow> PackageCompatibilityMetadata \<Rightarrow> string \<Rightarrow> LocalCompatibilityIssue list \<Rightarrow> MigrationRecord \<Rightarrow>
    (CompatibilityError, LocalCompatibilityIssue list) result" where
  "check_migration sv metadata normalized_metadata_version issues migration =
    (let issues' = issues @ migration_record_issues sv (cm_package metadata) migration in
     if mr_package migration \<noteq> cm_package metadata then Err MigrationPackageMismatch
     else case normalize_version sv (mr_to_version migration) of
         Inr target \<Rightarrow> if target \<noteq> normalized_metadata_version then Err MigrationTargetMismatch else Ok issues'
       | Inl _ \<Rightarrow> Ok issues')"

definition evaluate_local_metadata_issues ::
  "('ver, 'req) Semver \<Rightarrow> PackageCompatibilityMetadata \<Rightarrow> (CompatibilityError, LocalCompatibilityIssue list) result" where
  "evaluate_local_metadata_issues sv metadata =
    rbind (class_error (cm_compatibility metadata) (cm_migrations metadata)) (\<lambda>_.
      rbind (normalize_version sv (cm_version metadata)) (\<lambda>normalized_metadata_version.
        rbind (rfold (check_migration sv metadata normalized_metadata_version)
            [] (cm_migrations metadata))
          (\<lambda>issues. Ok (sort_local_issues issues))))"

definition classify_version_change ::
  "('ver, 'req) Semver \<Rightarrow> string \<Rightarrow> string \<Rightarrow> (CompatibilityError, CompatibilityClass) result" where
  "classify_version_change sv current_version target_version =
    rbind (parse_version sv current_version) (\<lambda>current.
      rbind (parse_version sv target_version) (\<lambda>target.
        Ok (if sv_major sv target \<noteq> sv_major sv current then Major
            else if sv_minor sv target \<noteq> sv_minor sv current then Minor
            else Patch)))"

definition upgrade_issue ::
  "string \<Rightarrow> string \<Rightarrow> string \<Rightarrow> LocalCompatibilityIssueCode \<Rightarrow> string \<Rightarrow> string option \<Rightarrow> LocalCompatibilityIssue" where
  "upgrade_issue package current_version target_version code reason migration_hash =
    \<lparr>li_package = package, li_current_version = current_version, li_target_version = target_version,
     li_kind = Migration, li_code = code, li_reason = reason, li_migration_hash = migration_hash\<rparr>"

definition migration_for :: "('ver, 'req) Semver \<Rightarrow> string \<Rightarrow> string \<Rightarrow> string \<Rightarrow> MigrationRecord \<Rightarrow> bool" where
  "migration_for sv package current target migration \<longleftrightarrow>
    mr_package migration = package \<and>
    normalize_version sv (mr_from_version migration) = Ok current \<and>
    normalize_version sv (mr_to_version migration) = Ok target"

definition evaluate_local_upgrade ::
  "('ver, 'req) Semver \<Rightarrow> (MigrationRecord \<Rightarrow> (string, string) result) \<Rightarrow> string \<Rightarrow> string \<Rightarrow> string \<Rightarrow>
    PackageCompatibilityMetadata option \<Rightarrow> (CompatibilityError, LocalCompatibilityIssue list) result" where
  "evaluate_local_upgrade sv blake3_hex package current_version target_version target_metadata =
    (let issue = upgrade_issue package current_version target_version;
         required = issue MigrationMetadataRequired ''breaking upgrade requires local migration metadata'' None in
     rbind (classify_version_change sv current_version target_version) (\<lambda>inferred.
       let breaking = (inferred = Major \<or> map_option cm_compatibility target_metadata = Some Major) in
       case target_metadata of
         None \<Rightarrow> Ok (if breaking then [required] else [])
       | Some metadata \<Rightarrow>
           if cm_package metadata \<noteq> package then Err MetadataTargetMismatch
           else rbind (normalize_version sv (cm_version metadata)) (\<lambda>version.
             rbind (normalize_version sv target_version) (\<lambda>target.
               if version \<noteq> target then Err MetadataTargetMismatch
               else if cm_compatibility metadata = Major \<and> cm_migrations metadata = [] then Ok [required]
               else rbind (evaluate_local_metadata_issues sv metadata) (\<lambda>metadata_issues.
                 if metadata_issues \<noteq> [] then Ok metadata_issues
                 else if breaking then
                   rbind (normalize_version sv current_version) (\<lambda>normalized_current_version.
                     rbind (normalize_version sv target_version) (\<lambda>normalized_target_version.
                       case find (migration_for sv package normalized_current_version normalized_target_version)
                           (cm_migrations metadata) of
                         Some migration \<Rightarrow>
                           (case blake3_hex migration of
                              Inr hash \<Rightarrow> Ok [issue MigrationMetadataPresent
                                ''breaking upgrade has local migration metadata'' (Some hash)]
                            | Inl e \<Rightarrow> Err (MigrationHashFailed e))
                       | None \<Rightarrow> Ok [required]))
                 else Ok [])))))"

section \<open>Clean metadata\<close>

definition steps_clean :: "MigrationStep list \<Rightarrow> (string \<times> string) set \<Rightarrow> bool" where
  "steps_clean steps seen \<longleftrightarrow>
    (\<forall>s \<in> set steps. trim (ms_changed s) \<noteq> [] \<and> trim (ms_replacement s) \<noteq> []) \<and>
    distinct (map (\<lambda>s. (trim (ms_changed s), trim (ms_replacement s))) steps) \<and>
    (\<forall>s \<in> set steps. (trim (ms_changed s), trim (ms_replacement s)) \<notin> seen)"

definition migration_clean :: "('ver, 'req) Semver \<Rightarrow> MigrationRecord \<Rightarrow> bool" where
  "migration_clean sv m \<longleftrightarrow>
    is_canonical_version sv (mr_from_version m) \<and> is_canonical_version sv (mr_to_version m) \<and>
    steps_clean (mr_steps m) {}"

lemma step_issues_Nil: "step_issues package m steps seen = [] \<longleftrightarrow> steps_clean steps seen"
proof (induction steps arbitrary: seen)
  case (Cons s steps)
  then show ?case by (auto simp: steps_clean_def Let_def image_iff)
qed (simp add: steps_clean_def)

lemma sort_local_issues_Nil [simp]: "sort_local_issues is = [] \<longleftrightarrow> is = []"
  by (simp add: sort_local_issues_def flip: set_empty)

lemma migration_record_issues_Nil: "migration_record_issues sv package m = [] \<longleftrightarrow> migration_clean sv m"
  by (simp add: migration_record_issues_def migration_clean_def step_issues_Nil)

lemma canonical_normalize: "is_canonical_version sv v \<Longrightarrow> normalize_version sv v = Ok v"
  by (auto simp: is_canonical_version_def normalize_version_def split: option.splits)

lemma rfold_collect_Nil:
  assumes "\<And>acc x r. f acc x = Ok r \<Longrightarrow> \<exists>ys. r = acc @ ys"
  shows "rfold f acc xs = Ok [] \<longleftrightarrow> acc = [] \<and> (\<forall>x \<in> set xs. f [] x = Ok [])"
proof (induction xs arbitrary: acc)
  case (Cons x xs)
  show ?case
  proof (cases "f acc x")
    case (Inr r)
    with assms[OF this] Cons.IH show ?thesis by auto
  qed (auto simp: rbind_def)
qed simp

lemma metadata_clean_iff:
  "evaluate_local_metadata_issues sv md = Ok [] \<longleftrightarrow>
    class_error (cm_compatibility md) (cm_migrations md) = Ok () \<and>
    (\<exists>version. normalize_version sv (cm_version md) = Ok version \<and>
      (\<forall>m \<in> set (cm_migrations md). mr_package m = cm_package md \<and> migration_clean sv m \<and> mr_to_version m = version))"
proof -
  have grow: "check_migration sv md version acc m = Ok r \<Longrightarrow> \<exists>ys. r = acc @ ys" for version acc m r
    by (auto simp: check_migration_def Let_def split: if_splits sum.splits)
  have one: "check_migration sv md version [] m = Ok [] \<longleftrightarrow>
      mr_package m = cm_package md \<and> migration_clean sv m \<and> mr_to_version m = version" for version m
    by (auto simp: check_migration_def Let_def migration_record_issues_Nil canonical_normalize migration_clean_def split: sum.splits if_splits)
  have "rfold (check_migration sv md version) [] ms = Ok [] \<longleftrightarrow>
      (\<forall>m \<in> set ms. mr_package m = cm_package md \<and> migration_clean sv m \<and> mr_to_version m = version)" for version ms
    by (simp add: rfold_collect_Nil[OF grow] one)
  note all = this
  have Ok_sort: "rbind r (\<lambda>issues. Ok (sort_local_issues issues)) = Ok [] \<longleftrightarrow> r = Ok []"
    for r :: "(CompatibilityError, LocalCompatibilityIssue list) result" by (cases r) simp_all
  have unit_bind: "rbind c f = Ok r \<longleftrightarrow> c = Ok () \<and> f () = Ok r" for c and f and r :: "LocalCompatibilityIssue list"
    by (cases c) (simp_all add: rbind_def)
  show ?thesis
    unfolding evaluate_local_metadata_issues_def unit_bind Ok_sort
    by (cases "normalize_version sv (cm_version md)") (simp_all add: all Ok_sort)
qed

lemma step_issue_codes: "i \<in> set (step_issues package m steps seen) \<Longrightarrow> li_code i \<noteq> MigrationMetadataPresent"
  by (induction steps arbitrary: seen) (auto simp: Let_def migration_issue_def split: if_splits)

lemma set_sort_local_issues [simp]: "set (sort_local_issues is) = set is"
  by (simp add: sort_local_issues_def)

lemma record_issue_codes: "i \<in> set (migration_record_issues sv package m) \<Longrightarrow> li_code i \<noteq> MigrationMetadataPresent"
  by (auto simp: migration_record_issues_def migration_issue_def dest: step_issue_codes split: if_splits)

lemma metadata_issue_codes:
  assumes "evaluate_local_metadata_issues sv md = Ok is" "i \<in> set is"
  shows "li_code i \<noteq> MigrationMetadataPresent"
proof -
  obtain version js where js: "rfold (check_migration sv md version) [] (cm_migrations md) = Ok js" "is = sort_local_issues js"
    using assms(1) by (auto simp: evaluate_local_metadata_issues_def rbind_Ok_iff)
  have "\<forall>i \<in> set js. li_code i \<noteq> MigrationMetadataPresent"
    by (rule rfold_invariant[OF js(1)])
      (auto simp: check_migration_def Let_def dest: record_issue_codes split: if_splits sum.splits)
  with assms(2) js(2) show ?thesis by simp
qed

lemma classify_normalizes:
  assumes "classify_version_change sv current target = Ok c"
  obtains v w where "normalize_version sv current = Ok v" "normalize_version sv target = Ok w"
  using assms
  by (cases "normalize_version sv current"; cases "normalize_version sv target")
    (simp_all add: classify_version_change_def parse_version_def rbind_def split: option.splits)

lemma find_migration:
  assumes "\<forall>m \<in> set ms. mr_package m = package \<and> migration_clean sv m \<and> mr_to_version m = w"
  shows "find (migration_for sv package v w) ms = None \<longleftrightarrow> v \<notin> mr_from_version ` set ms"
proof -
  have "migration_for sv package v w m \<longleftrightarrow> mr_from_version m = v" if "m \<in> set ms" for m
    using assms that canonical_normalize[of sv "mr_to_version m"] canonical_normalize[of sv "mr_from_version m"]
    by (auto simp: migration_for_def migration_clean_def)
  then show ?thesis by (auto simp: find_None)
qed

lemma upgrade_with_metadata:
  assumes "classify_version_change sv current target = Ok Major" "\<And>m. hash m = Ok (H m)"
    "normalize_version sv current = Ok v" "normalize_version sv target = Ok w" "cm_package md = package"
    "normalize_version sv (cm_version md) = Ok w" "cm_compatibility md = Major \<longrightarrow> cm_migrations md \<noteq> []"
    "evaluate_local_metadata_issues sv md = Ok []"
  shows "evaluate_local_upgrade sv hash package current target (Some md) = Ok
    (case find (migration_for sv package v w) (cm_migrations md) of
       Some m \<Rightarrow> [upgrade_issue package current target MigrationMetadataPresent
         ''breaking upgrade has local migration metadata'' (Some (H m))]
     | None \<Rightarrow> [upgrade_issue package current target MigrationMetadataRequired
         ''breaking upgrade requires local migration metadata'' None])"
proof -
  have "\<not> (cm_compatibility md = Major \<and> cm_migrations md = [])" using assms(7) by blast
  then show ?thesis
    by (simp add: evaluate_local_upgrade_def assms(1-6,8) Let_def split: option.splits)
qed

lemma upgrade_otherwise:
  assumes "classify_version_change sv current target = Ok Major"
    "normalize_version sv current = Ok v" "normalize_version sv target = Ok w"
    "\<not> (cm_package md = package \<and> normalize_version sv (cm_version md) = Ok w \<and>
        (cm_compatibility md = Major \<longrightarrow> cm_migrations md \<noteq> []) \<and> evaluate_local_metadata_issues sv md = Ok [])"
  shows "(\<exists>e. evaluate_local_upgrade sv hash package current target (Some md) = Err e) \<or>
    (\<exists>is. is \<noteq> [] \<and> MigrationMetadataPresent \<notin> li_code ` set is \<and>
      evaluate_local_upgrade sv hash package current target (Some md) = Ok is)"
proof (cases "cm_package md = package \<and> normalize_version sv (cm_version md) = Ok w")
  case True
  show ?thesis
  proof (cases "cm_compatibility md = Major \<and> cm_migrations md = []")
    case False
    with True assms(4) have "evaluate_local_metadata_issues sv md \<noteq> Ok []" by blast
    then show ?thesis
    proof (cases "evaluate_local_metadata_issues sv md")
      case (Inr issues)
      have "MigrationMetadataPresent \<notin> li_code ` set issues"
        using metadata_issue_codes[OF Inr] by (metis imageE)
      with False \<open>_ \<noteq> Ok []\<close> Inr True show ?thesis
        by (auto simp: evaluate_local_upgrade_def assms(1-3) Let_def)
    qed (use False True in \<open>auto simp: evaluate_local_upgrade_def assms(1-3) Let_def\<close>)
  qed (use True in \<open>simp add: evaluate_local_upgrade_def assms(1-3) Let_def upgrade_issue_def\<close>)
next
  case False
  then show ?thesis
    by (cases "normalize_version sv (cm_version md)") (auto simp: evaluate_local_upgrade_def assms(1-3) Let_def)
qed


section \<open>Exact pins\<close>

text \<open>
  Documented behaviour of the crate: the requirement \<open>=v\<close> is accepted for every
  version \<open>v\<close> and matches the versions of the same release, that is up to build
  metadata.
\<close>

definition exact_pins :: "('ver, 'req) Semver \<Rightarrow> ('ver \<Rightarrow> 'ver \<Rightarrow> bool) \<Rightarrow> bool" where
  "exact_pins sv same_release \<longleftrightarrow>
    (\<forall>v a. sv_parse sv v = Some a \<longrightarrow>
      (\<exists>r. sv_req_parse sv (''='' @ v) = Some r \<and> (\<forall>b. sv_req_matches sv r b = same_release a b)))"

lemma parse_requirement_exact:
  assumes "exact_pins sv same_release" "trim requirement \<noteq> []" "parse_version sv (trim requirement) = Ok a"
  obtains r where "parse_requirement sv requirement = Ok r" "\<And>b. sv_req_matches sv r b = same_release a b"
proof -
  obtain n where n: "normalize_version sv (trim requirement) = Ok n" "sv_parse sv n = Some a"
    using assms(3) by (auto simp: parse_version_def rbind_Ok_iff split: option.splits)
  obtain r where r: "sv_req_parse sv (''='' @ n) = Some r" "\<forall>b. sv_req_matches sv r b = same_release a b"
    using assms(1) n(2) unfolding exact_pins_def by blast
  have "parse_requirement sv requirement = Ok r"
    using assms(2) n r by (simp add: parse_requirement_def exact_requirement_def Let_def)
  with r(2) that show ?thesis by blast
qed

section \<open>A concrete version scheme\<close>

text \<open>Triples of numbers and the comparators, for evaluating the model on examples.\<close>

definition triple_parse :: "string \<Rightarrow> (nat \<times> nat \<times> nat) option" where
  "triple_parse s =
    (case split_on (\<lambda>c. c = CHR ''.'') s of
       [a, b, c] \<Rightarrow>
         (case (parse_uint 1000 a, parse_uint 1000 b, parse_uint 1000 c) of
            (Some x, Some y, Some z) \<Rightarrow> Some (x, y, z) | _ \<Rightarrow> None)
     | _ \<Rightarrow> None)"

definition comparator_parse :: "string \<Rightarrow> (nat \<times> nat \<times> nat \<Rightarrow> bool) option" where
  "comparator_parse s =
    (if starts_with s ''>='' then map_option (\<lambda>v w. v \<le> w) (triple_parse (drop 2 s))
     else if starts_with s ''<='' then map_option (\<lambda>v w. w \<le> v) (triple_parse (drop 2 s))
     else if starts_with s ''<'' then map_option (\<lambda>v w. w < v) (triple_parse (drop 1 s))
     else if starts_with s ''='' then map_option (\<lambda>v w. w = v) (triple_parse (drop 1 s))
     else if starts_with s ''^'' then map_option (\<lambda>v w. v \<le> w \<and> fst w = fst v) (triple_parse (drop 1 s))
     else None)"

fun all_parsed :: "('a \<Rightarrow> bool) option list \<Rightarrow> ('a \<Rightarrow> bool) option" where
  "all_parsed [] = Some (\<lambda>w. True)"
| "all_parsed (None # ps) = None"
| "all_parsed (Some p # ps) = map_option (\<lambda>q w. p w \<and> q w) (all_parsed ps)"

definition triple_semver :: "(nat \<times> nat \<times> nat, nat \<times> nat \<times> nat \<Rightarrow> bool) Semver" where
  "triple_semver =
    \<lparr>sv_parse = triple_parse,
     sv_show = (\<lambda>(a, b, c). show_nat a @ ''.'' @ show_nat b @ ''.'' @ show_nat c),
     sv_major = (\<lambda>v. of_nat (fst v)), sv_minor = (\<lambda>v. of_nat (fst (snd v))),
     sv_req_parse = (\<lambda>s. all_parsed (map (comparator_parse \<circ> trim) (split_on (\<lambda>c. c = CHR '','') s))),
     sv_req_matches = (\<lambda>r v. r v)\<rparr>"


end
