(* ===== verification/Package_Registry.thy ===== *)
theory Package_Registry
  imports Package_Manifest Package_Versioning
begin

text \<open>
  The package registry of \<^verbatim>\<open>ail-package\<close>: yank records, security advisories and
  their policy gate (\<^verbatim>\<open>yank.rs\<close>, \<^verbatim>\<open>advisory.rs\<close>), the trust gate of deployment
  profiles (\<^verbatim>\<open>policy.rs\<close>), package signatures with the signing trust policy
  (\<^verbatim>\<open>signing.rs\<close>, \<^verbatim>\<open>trust.rs\<close>), and the registry itself (\<^verbatim>\<open>registry.rs\<close>).  The hash of
  a manifest and the signature scheme are parameters.
\<close>

section \<open>Yanks and advisories\<close>

record YankRecord =
  yr_name :: string
  yr_version :: string
  yr_reason :: string

datatype AdvisorySeverity = Low | Medium | High | Critical

fun severity_rank :: "AdvisorySeverity \<Rightarrow> nat" where
  "severity_rank Low = 0"
| "severity_rank Medium = 1"
| "severity_rank High = 2"
| "severity_rank Critical = 3"

record SecurityAdvisory =
  sa_id :: string
  sa_package :: string
  sa_affected_constraint :: string
  sa_severity :: AdvisorySeverity
  sa_reason :: string

definition has_operator :: "string \<Rightarrow> bool" where
  "has_operator s \<longleftrightarrow> s \<noteq> [] \<and> hd s \<in> set ''<>^~=*''"

definition version_matches :: "('ver, 'req) Semver \<Rightarrow> string \<Rightarrow> string \<Rightarrow> bool" where
  "version_matches sv version constraint =
    (if \<not> has_operator constraint then constraint = version
     else case sv_parse sv version of
         None \<Rightarrow> constraint = version
       | Some ver \<Rightarrow>
           (case sv_req_parse sv constraint of
              Some req \<Rightarrow> sv_req_matches sv req ver
            | None \<Rightarrow> constraint = version))"

definition is_affected :: "('ver, 'req) Semver \<Rightarrow> string \<Rightarrow> string \<Rightarrow> SecurityAdvisory list \<Rightarrow> bool" where
  "is_affected sv name version advisories =
    list_ex (\<lambda>adv. sa_package adv = name \<and> version_matches sv version (sa_affected_constraint adv)) advisories"

text \<open>The comparison of matches: most severe first, then by the texts.\<close>

definition compare_key :: "SecurityAdvisory \<Rightarrow> nat \<times> string \<times> string \<times> string \<times> string" where
  "compare_key adv =
    (3 - severity_rank (sa_severity adv), sa_id adv, sa_package adv, sa_affected_constraint adv, sa_reason adv)"

definition advisory_matches ::
  "('ver, 'req) Semver \<Rightarrow> string \<Rightarrow> string \<Rightarrow> SecurityAdvisory list \<Rightarrow> SecurityAdvisory list" where
  "advisory_matches sv name version advisories =
    sort_key compare_key
      (filter (\<lambda>adv. sa_package adv = name \<and> version_matches sv version (sa_affected_constraint adv)) advisories)"

definition first_match ::
  "('ver, 'req) Semver \<Rightarrow> string \<Rightarrow> string \<Rightarrow> SecurityAdvisory list \<Rightarrow> SecurityAdvisory option" where
  "first_match sv name version advisories =
    (case advisory_matches sv name version advisories of [] \<Rightarrow> None | adv # _ \<Rightarrow> Some adv)"

datatype AdvisoryPolicyAction = Warn | Block

datatype AdvisoryPolicyIssueCode = PackageYanked | AdvisoryCritical | AdvisoryHigh | AdvisoryWarning

record AdvisoryPolicyIssue =
  ai_code :: AdvisoryPolicyIssueCode
  ai_action :: AdvisoryPolicyAction
  ai_advisory_id :: "string option"
  ai_severity :: "AdvisorySeverity option"
  ai_reason :: string

definition advisory_issue :: "SecurityAdvisory \<Rightarrow> AdvisoryPolicyIssue" where
  "advisory_issue adv =
    (let (code, action) =
       (case sa_severity adv of
          Critical \<Rightarrow> (AdvisoryCritical, Block)
        | High \<Rightarrow> (AdvisoryHigh, Block)
        | Medium \<Rightarrow> (AdvisoryWarning, Warn)
        | Low \<Rightarrow> (AdvisoryWarning, Warn)) in
     \<lparr>ai_code = code, ai_action = action, ai_advisory_id = Some (sa_id adv),
      ai_severity = Some (sa_severity adv), ai_reason = sa_reason adv\<rparr>)"

definition advisory_gate ::
  "('ver, 'req) Semver \<Rightarrow> string \<Rightarrow> string \<Rightarrow> string option \<Rightarrow> SecurityAdvisory list \<Rightarrow> AdvisoryPolicyIssue list" where
  "advisory_gate sv name version yanked_reason advisories =
    (case yanked_reason of
       Some reason \<Rightarrow> [\<lparr>ai_code = PackageYanked, ai_action = Block, ai_advisory_id = None,
         ai_severity = None, ai_reason = reason\<rparr>]
     | None \<Rightarrow> []) @
    map advisory_issue (advisory_matches sv name version advisories)"

definition is_blocked :: "AdvisoryPolicyIssue list \<Rightarrow> bool" where
  "is_blocked issues = list_ex (\<lambda>issue. ai_action issue = Block) issues"

section \<open>The trust gate\<close>

datatype DeploymentProfile = Draft | Dev | Test | Staging | Prod | CriticalProfile

datatype TrustGateVerdict = AllowVerdict | WarnVerdict | DenyVerdict

fun trust_gate :: "TrustLevel \<Rightarrow> DeploymentProfile \<Rightarrow> TrustGateVerdict" where
  "trust_gate Verified profile = AllowVerdict"
| "trust_gate Unsafe profile = DenyVerdict"
| "trust_gate Assumed profile = (if profile = CriticalProfile then WarnVerdict else AllowVerdict)"
| "trust_gate Unverified profile =
    (if profile \<in> {Draft, Dev, Test} then WarnVerdict else DenyVerdict)"

section \<open>Signatures\<close>

record PackageSignature =
  ps_signer :: "u8 list"
  ps_signature :: "u8 list"

record SignedPackage =
  sp_manifest :: PackageManifest
  sp_sig :: PackageSignature

datatype SigningError = SignatureInvalid | HashError string

record Crypto =
  cr_hash :: "PackageManifest \<Rightarrow> (string, string) result"
  cr_verify :: "u8 list \<Rightarrow> string \<Rightarrow> u8 list \<Rightarrow> bool"

definition signed_verify :: "Crypto \<Rightarrow> SignedPackage \<Rightarrow> (SigningError, unit) result" where
  "signed_verify cr package =
    (case cr_hash cr (sp_manifest package) of
       Inl msg \<Rightarrow> Err (HashError msg)
     | Inr hash_hex \<Rightarrow>
         if cr_verify cr (ps_signer (sp_sig package)) hash_hex (ps_signature (sp_sig package))
         then Ok () else Err SignatureInvalid)"

datatype PackageSigningKeyTrust = Trusted | ExpiredKey | RevokedKey

record PackageSigningTrustAnchor =
  ta_public_key :: "u8 list"
  ta_trust :: PackageSigningKeyTrust

type_synonym PackageSigningTrustPolicy = "PackageSigningTrustAnchor list"

definition add_trust_anchor :: "PackageSigningTrustPolicy \<Rightarrow> PackageSigningTrustAnchor \<Rightarrow> PackageSigningTrustPolicy" where
  "add_trust_anchor policy trust_anchor = policy @ [trust_anchor]"

definition trust_for_key :: "PackageSigningTrustPolicy \<Rightarrow> u8 list \<Rightarrow> PackageSigningKeyTrust option" where
  "trust_for_key policy public_key =
    map_option ta_trust (find (\<lambda>trust_anchor. ta_public_key trust_anchor = public_key) policy)"

datatype PackageSigningDiagnosticKind =
  MissingSignature | ManifestHashInvalid | SignatureInvalidKind | UntrustedKey | KeyExpired | KeyRevoked

fun signing_kind_rank :: "PackageSigningDiagnosticKind \<Rightarrow> nat" where
  "signing_kind_rank MissingSignature = 0"
| "signing_kind_rank ManifestHashInvalid = 1"
| "signing_kind_rank SignatureInvalidKind = 2"
| "signing_kind_rank UntrustedKey = 3"
| "signing_kind_rank KeyExpired = 4"
| "signing_kind_rank KeyRevoked = 5"

text \<open>Code, category and message are functions of the kind and the package; the key shape is its length.\<close>

record PackageSigningDiagnostic =
  sd_kind :: PackageSigningDiagnosticKind
  sd_package_name :: string
  sd_package_version :: string
  sd_signer_key :: "nat option"

definition signing_diagnostic ::
  "PackageSigningDiagnosticKind \<Rightarrow> PackageManifest \<Rightarrow> PackageSignature option \<Rightarrow> PackageSigningDiagnostic" where
  "signing_diagnostic kind manifest signature =
    \<lparr>sd_kind = kind, sd_package_name = pm_name manifest, sd_package_version = pm_version manifest,
     sd_signer_key = map_option (length \<circ> ps_signer) signature\<rparr>"

definition sort_package_signing_diagnostics :: "PackageSigningDiagnostic list \<Rightarrow> PackageSigningDiagnostic list" where
  "sort_package_signing_diagnostics = sort_key (\<lambda>issue. (signing_kind_rank (sd_kind issue), sd_package_name issue,
     sd_package_version issue, case sd_signer_key issue of Some n \<Rightarrow> n | None \<Rightarrow> 0))"

definition diagnose_package_signing_trust ::
  "Crypto \<Rightarrow> PackageManifest \<Rightarrow> PackageSignature option \<Rightarrow> PackageSigningTrustPolicy \<Rightarrow> bool \<times> PackageSigningDiagnostic list" where
  "diagnose_package_signing_trust cr manifest signature trust_policy =
    (let issues =
       (case signature of
          None \<Rightarrow> [signing_diagnostic MissingSignature manifest None]
        | Some sig \<Rightarrow> sort_package_signing_diagnostics
            ((case signed_verify cr \<lparr>sp_manifest = manifest, sp_sig = sig\<rparr> of
                Inr _ \<Rightarrow> []
              | Inl SignatureInvalid \<Rightarrow> [signing_diagnostic SignatureInvalidKind manifest (Some sig)]
              | Inl (HashError _) \<Rightarrow> [signing_diagnostic ManifestHashInvalid manifest (Some sig)]) @
             (case trust_for_key trust_policy (ps_signer sig) of
                Some Trusted \<Rightarrow> []
              | Some ExpiredKey \<Rightarrow> [signing_diagnostic KeyExpired manifest (Some sig)]
              | Some RevokedKey \<Rightarrow> [signing_diagnostic KeyRevoked manifest (Some sig)]
              | None \<Rightarrow> [signing_diagnostic UntrustedKey manifest (Some sig)]))) in
     (issues = [], issues))"

section \<open>The registry\<close>

record PackageRegistry =
  pr_manifests :: "PackageManifest list"
  pr_signed_packages :: "SignedPackage list"
  pr_yanked :: "YankRecord list"

definition register :: "PackageRegistry \<Rightarrow> PackageManifest \<Rightarrow> PackageRegistry" where
  "register reg manifest = reg\<lparr>pr_manifests := pr_manifests reg @ [manifest]\<rparr>"

definition register_signed ::
  "Crypto \<Rightarrow> PackageRegistry \<Rightarrow> SignedPackage \<Rightarrow> (SigningError, unit) result \<times> PackageRegistry" where
  "register_signed cr reg package =
    (case signed_verify cr package of
       Inl e \<Rightarrow> (Err e, reg)
     | Inr _ \<Rightarrow> (Ok (), reg\<lparr>pr_manifests := pr_manifests reg @ [sp_manifest package],
         pr_signed_packages := pr_signed_packages reg @ [package]\<rparr>))"

definition lookup_by_name_version :: "PackageRegistry \<Rightarrow> string \<Rightarrow> string \<Rightarrow> PackageManifest option" where
  "lookup_by_name_version reg name version =
    find (\<lambda>m. pm_name m = name \<and> pm_version m = version) (pr_manifests reg)"

definition lookup_signed_by_name_version :: "PackageRegistry \<Rightarrow> string \<Rightarrow> string \<Rightarrow> SignedPackage option" where
  "lookup_signed_by_name_version reg name version =
    find (\<lambda>p. pm_name (sp_manifest p) = name \<and> pm_version (sp_manifest p) = version) (pr_signed_packages reg)"

definition yank :: "PackageRegistry \<Rightarrow> string \<Rightarrow> string \<Rightarrow> string \<Rightarrow> PackageRegistry" where
  "yank reg name version reason =
    reg\<lparr>pr_yanked := pr_yanked reg @ [\<lparr>yr_name = name, yr_version = version, yr_reason = reason\<rparr>]\<rparr>"

definition is_yanked :: "PackageRegistry \<Rightarrow> string \<Rightarrow> string \<Rightarrow> bool" where
  "is_yanked reg name version = list_ex (\<lambda>y. yr_name y = name \<and> yr_version y = version) (pr_yanked reg)"

section \<open>Histories of the registry\<close>

datatype RegistryOp = Register PackageManifest | RegisterSigned SignedPackage | Yank string string string

fun run_op :: "Crypto \<Rightarrow> RegistryOp \<Rightarrow> PackageRegistry \<Rightarrow> PackageRegistry" where
  "run_op cr (Register manifest) reg = register reg manifest"
| "run_op cr (RegisterSigned package) reg = snd (register_signed cr reg package)"
| "run_op cr (Yank name version reason) reg = yank reg name version reason"

abbreviation new_registry :: PackageRegistry where
  "new_registry \<equiv> \<lparr>pr_manifests = [], pr_signed_packages = [], pr_yanked = []\<rparr>"

fun accepted_manifests :: "Crypto \<Rightarrow> RegistryOp list \<Rightarrow> PackageManifest list" where
  "accepted_manifests cr [] = []"
| "accepted_manifests cr (Register manifest # ops) = manifest # accepted_manifests cr ops"
| "accepted_manifests cr (RegisterSigned package # ops) =
    (if signed_verify cr package = Ok () then [sp_manifest package] else []) @ accepted_manifests cr ops"
| "accepted_manifests cr (Yank name version reason # ops) = accepted_manifests cr ops"

definition accepted_packages :: "Crypto \<Rightarrow> RegistryOp list \<Rightarrow> SignedPackage list" where
  "accepted_packages cr ops = [package. RegisterSigned package \<leftarrow> ops, signed_verify cr package = Ok ()]"

lemma run_history:
  "fold (run_op cr) ops reg =
    \<lparr>pr_manifests = pr_manifests reg @ accepted_manifests cr ops,
     pr_signed_packages = pr_signed_packages reg @ accepted_packages cr ops,
     pr_yanked = pr_yanked reg @
       [\<lparr>yr_name = n, yr_version = v, yr_reason = r\<rparr>. Yank n v r \<leftarrow> ops]\<rparr>"
proof (induction ops arbitrary: reg)
  case (Cons op ops)
  show ?case
    by (cases op) (simp_all add: Cons register_def register_signed_def yank_def accepted_packages_def split: sum.splits)
qed (simp add: accepted_packages_def)

text \<open>
  C22. After any history of registrations and yanks a lookup finds the earliest
  accepted manifest of that name and version, a signed lookup finds only
  packages whose signature verifies and whose manifest is registered, and a
  version counts as yanked exactly when some operation yanked it.
\<close>

theorem registry_history_exact:
  "let reg = fold (run_op cr) ops new_registry in
   lookup_by_name_version reg n v =
     find (\<lambda>m. pm_name m = n \<and> pm_version m = v) (accepted_manifests cr ops) \<and>
   (lookup_signed_by_name_version reg n v = Some package \<longrightarrow>
     signed_verify cr package = Ok () \<and> sp_manifest package \<in> set (pr_manifests reg) \<and>
     pm_name (sp_manifest package) = n \<and> pm_version (sp_manifest package) = v) \<and>
   (is_yanked reg n v \<longleftrightarrow> (\<exists>r. Yank n v r \<in> set ops))"
proof -
  have sub: "sp_manifest ` set (accepted_packages cr ops) \<subseteq> set (accepted_manifests cr ops)" for ops
  proof (induction ops)
    case (Cons op ops)
    then show ?case by (cases op) (auto simp: accepted_packages_def)
  qed (simp add: accepted_packages_def)
  have ver: "package \<in> set (accepted_packages cr ops) \<Longrightarrow> signed_verify cr package = Ok ()"
    by (auto simp: accepted_packages_def split: RegistryOp.splits if_splits)
  have yanks: "is_yanked (fold (run_op cr) ops new_registry) n v \<longleftrightarrow> (\<exists>r. Yank n v r \<in> set ops)"
  proof -
    have "list_ex (\<lambda>y. yr_name y = n \<and> yr_version y = v)
        [\<lparr>yr_name = n, yr_version = v, yr_reason = r\<rparr>. Yank n v r \<leftarrow> ops] \<longleftrightarrow> (\<exists>r. Yank n v r \<in> set ops)"
    proof (induction ops)
      case (Cons op ops)
      then show ?case by (cases op) (auto simp: list_ex_iff)
    qed simp
    then show ?thesis by (simp add: is_yanked_def run_history)
  qed
  have signed: "signed_verify cr package = Ok () \<and> sp_manifest package \<in> set (accepted_manifests cr ops) \<and>
     pm_name (sp_manifest package) = n \<and> pm_version (sp_manifest package) = v"
    if "find (\<lambda>p. pm_name (sp_manifest p) = n \<and> pm_version (sp_manifest p) = v) (accepted_packages cr ops) = Some package"
    using find_Some_mem[OF that] sub ver by blast
  show ?thesis
    using yanks signed by (simp add: Let_def run_history lookup_by_name_version_def lookup_signed_by_name_version_def)
qed

theorem registry_history_exact_witness:
  "\<exists>package. signed_verify \<lparr>cr_hash = \<lambda>m. Ok (pm_name m), cr_verify = \<lambda>key text sig. sig = [1]\<rparr> package = Ok () \<and>
    pm_name (sp_manifest package) = ''pay'' \<and> pm_version (sp_manifest package) = ''1.0.0''"
proof -
  let ?cr = "\<lparr>cr_hash = \<lambda>m. Ok (pm_name m), cr_verify = \<lambda>key text sig. sig = [1]\<rparr>"
  let ?package = "\<lambda>trust sig. \<lparr>sp_manifest = plain_manifest ''pay'' ''1.0.0'' trust, sp_sig = \<lparr>ps_signer = [7], ps_signature = sig\<rparr>\<rparr>"
  let ?ops = "[RegisterSigned (?package Verified [0]), RegisterSigned (?package Assumed [1]), Yank ''pay'' ''1.0.0'' ''leak'']"
  have "lookup_signed_by_name_version (fold (run_op ?cr) ?ops new_registry) ''pay'' ''1.0.0'' = Some (?package Assumed [1])"
    by (simp add: register_signed_def signed_verify_def yank_def lookup_signed_by_name_version_def plain_manifest_def)
  with registry_history_exact[of ?cr ?ops "''pay''" "''1.0.0''" "?package Assumed [1]"] show ?thesis
    unfolding Let_def by blast
qed

text \<open>
  C40. An advisory fails open: a constraint that the requirement parser of the
  crate does not accept is compared as a text, so versions inside the range are
  reported as unaffected and pass the gate, although the same text is a valid
  dependency requirement that contains them.
\<close>

theorem advisory_range_fails_open:
  assumes "has_operator (sa_affected_constraint adv)" "sv_req_parse sv (sa_affected_constraint adv) = None"
    "trim (sa_affected_constraint adv) \<noteq> []" "exact_requirement sv (trim (sa_affected_constraint adv)) = None"
    "sv_req_parse sv (range_requirement (trim (sa_affected_constraint adv))) = Some req"
    "sv_parse sv v = Some a" "v \<noteq> sa_affected_constraint adv"
  shows "parse_requirement sv (sa_affected_constraint adv) = Ok req \<and>
    \<not> is_affected sv (sa_package adv) v [adv] \<and> first_match sv (sa_package adv) v [adv] = None \<and>
    \<not> is_blocked (advisory_gate sv (sa_package adv) v None [adv])"
  using assms
  by (simp add: parse_requirement_def Let_def is_affected_def first_match_def advisory_matches_def
      advisory_gate_def is_blocked_def version_matches_def)

definition range_advisory :: SecurityAdvisory where
  "range_advisory = \<lparr>sa_id = ''adv1'', sa_package = ''pay'', sa_affected_constraint = ''>=1.0.0 <2.0.0'',
     sa_severity = Critical, sa_reason = ''key leak''\<rparr>"

theorem advisory_range_fails_open_witness:
  "\<exists>req. parse_requirement triple_semver ''>=1.0.0 <2.0.0'' = Ok req \<and> sv_req_matches triple_semver req (1, 5, 0) \<and>
    \<not> is_blocked (advisory_gate triple_semver ''pay'' ''1.5.0'' None [range_advisory])"
proof -
  let ?c = "''>=1.0.0 <2.0.0''"
  have "Option.is_none (sv_req_parse triple_semver ?c)"
    "case sv_req_parse triple_semver (range_requirement (trim ?c)) of Some r \<Rightarrow> sv_req_matches triple_semver r (1, 5, 0) | None \<Rightarrow> False"
    by code_simp+
  then obtain req where req: "sv_req_parse triple_semver ?c = None"
      "sv_req_parse triple_semver (range_requirement (trim ?c)) = Some req" "sv_req_matches triple_semver req (1, 5, 0)"
    by (auto simp: Option.is_none_def split: option.splits)
  have rest: "has_operator ?c" "trim ?c \<noteq> []" "exact_requirement triple_semver (trim ?c) = None"
    "sv_parse triple_semver ''1.5.0'' = Some (1, 5, 0)" by code_simp+
  have adv: "sa_affected_constraint range_advisory = ?c" "sa_package range_advisory = ''pay''"
    by (simp_all add: range_advisory_def)
  from advisory_range_fails_open[of range_advisory triple_semver req "''1.5.0''" "(1, 5, 0)", unfolded adv] req rest
  show ?thesis by auto
qed

end
