(* ===== verification/Package_Resolver.thy ===== *)
theory Package_Resolver
  imports Package_Registry
begin

text \<open>
  Dependency resolution of \<^verbatim>\<open>ail-package/src/resolver.rs\<close>: the policy chain for one
  specification and the resolution of a list of specifications.
\<close>

section \<open>Specifications and errors\<close>

record DependencySpec =
  ds_name :: string
  ds_version_constraint :: string
  ds_min_trust :: TrustLevel
  ds_profile :: "DeploymentProfile option"
  ds_allowed_licenses :: "string list"
  ds_denied_capabilities :: "string list"
  ds_denied_handlers :: "string list"
  ds_min_graph_schema :: "u32 option"
  ds_min_core_ir_schema :: "u32 option"

datatype ResolverError =
  InvalidVersionRequirement string VersionRequirementIssue
| NotFound string string
| Yanked string
| Advisory string AdvisorySeverity
| TrustViolation TrustLevel TrustLevel
| ProfilePolicyViolation DeploymentProfile TrustLevel
| LicenseViolation "string option"
| CapabilityConflict string
| HandlerConflict string
| SchemaIncompatible string
| ConflictingVersion string string string

section \<open>Resolving one specification\<close>

definition consider_manifest ::
  "('ver::linorder, 'req) Semver \<Rightarrow> string \<Rightarrow> 'req \<Rightarrow> (PackageManifest \<times> 'ver) option \<Rightarrow> PackageManifest \<Rightarrow>
    (PackageManifest \<times> 'ver) option" where
  "consider_manifest sv name requirement best manifest =
    (if pm_name manifest \<noteq> name then best
     else case sv_parse sv (pm_version manifest) of
         None \<Rightarrow> best
       | Some version \<Rightarrow>
           if \<not> sv_req_matches sv requirement version then best
           else (case best of
               None \<Rightarrow> Some (manifest, version)
             | Some (_, prev) \<Rightarrow> if version > prev then Some (manifest, version) else best))"

definition find_best_match ::
  "('ver::linorder, 'req) Semver \<Rightarrow> string \<Rightarrow> string \<Rightarrow> PackageRegistry \<Rightarrow>
    (VersionRequirementIssue, PackageManifest option) result" where
  "find_best_match sv name version_constraint registry =
    rbind (parse_requirement sv version_constraint) (\<lambda>requirement.
      Ok (map_option fst (foldl (consider_manifest sv name requirement) None (pr_manifests registry))))"

definition schema_error :: "string \<Rightarrow> u32 option \<Rightarrow> u32 option \<Rightarrow> ResolverError option" where
  "schema_error field actual minimum =
    (case minimum of
       None \<Rightarrow> None
     | Some m \<Rightarrow>
         (let a = (case actual of Some a \<Rightarrow> a | None \<Rightarrow> 0) in
          if a < m then Some (SchemaIncompatible (field @ '' '' @ show_nat (unat a) @ '' < required '' @ show_nat (unat m)))
          else None))"

definition license_ok :: "string list \<Rightarrow> string option \<Rightarrow> bool" where
  "license_ok allowed actual \<longleftrightarrow> allowed = [] \<or> (case actual of Some l \<Rightarrow> l \<in> set allowed | None \<Rightarrow> False)"

definition policy_error ::
  "('ver, 'req) Semver \<Rightarrow> DependencySpec \<Rightarrow> PackageManifest \<Rightarrow> SecurityAdvisory list \<Rightarrow> YankRecord list \<Rightarrow> ResolverError option" where
  "policy_error sv spec manifest advisories yanks =
    (case find (\<lambda>y. yr_name y = ds_name spec \<and> yr_version y = pm_version manifest) yanks of
       Some y \<Rightarrow> Some (Yanked (yr_reason y))
     | None \<Rightarrow>
     (case first_match sv (ds_name spec) (pm_version manifest) advisories of
        Some adv \<Rightarrow> Some (Advisory (sa_id adv) (sa_severity adv))
      | None \<Rightarrow>
      if \<not> satisfies (pm_trust_level manifest) (ds_min_trust spec)
      then Some (TrustViolation (pm_trust_level manifest) (ds_min_trust spec))
      else (case (case ds_profile spec of
          Some profile \<Rightarrow> if trust_gate (pm_trust_level manifest) profile = DenyVerdict then Some profile else None
        | None \<Rightarrow> None) of
        Some profile \<Rightarrow> Some (ProfilePolicyViolation profile (pm_trust_level manifest))
      | None \<Rightarrow>
      (case schema_error ''graph_schema'' (pm_graph_schema manifest) (ds_min_graph_schema spec) of
         Some e \<Rightarrow> Some e
       | None \<Rightarrow>
       (case schema_error ''core_ir_schema'' (pm_core_ir_schema manifest) (ds_min_core_ir_schema spec) of
          Some e \<Rightarrow> Some e
        | None \<Rightarrow>
        if \<not> license_ok (ds_allowed_licenses spec) (pm_license manifest) then Some (LicenseViolation (pm_license manifest))
        else (case find (\<lambda>cap. cap \<in> set (pm_required_capabilities manifest)) (ds_denied_capabilities spec) of
            Some cap \<Rightarrow> Some (CapabilityConflict cap)
          | None \<Rightarrow>
              map_option HandlerConflict
                (find (\<lambda>h. h \<in> he_handler_name ` set (pm_handlers manifest)) (ds_denied_handlers spec))))))))"

definition resolve ::
  "('ver::linorder, 'req) Semver \<Rightarrow> DependencySpec \<Rightarrow> PackageRegistry \<Rightarrow> SecurityAdvisory list \<Rightarrow> YankRecord list \<Rightarrow>
    (ResolverError, PackageManifest) result" where
  "resolve sv spec registry advisories yanks =
    (case find_best_match sv (ds_name spec) (ds_version_constraint spec) registry of
       Inl issue \<Rightarrow> Err (InvalidVersionRequirement (ds_name spec) issue)
     | Inr None \<Rightarrow> Err (NotFound (ds_name spec) (ds_version_constraint spec))
     | Inr (Some manifest) \<Rightarrow>
         (case policy_error sv spec manifest advisories yanks of
            Some e \<Rightarrow> Err e
          | None \<Rightarrow> Ok manifest))"

section \<open>Resolving a list\<close>

definition canonical_conflict_versions ::
  "('ver::linorder, 'req) Semver \<Rightarrow> string \<Rightarrow> string \<Rightarrow> string \<times> string" where
  "canonical_conflict_versions sv left right =
    (case (sv_parse sv left, sv_parse sv right) of
       (Some l, Some r) \<Rightarrow> if r < l then (right, left) else (left, right)
     | _ \<Rightarrow> if right < left then (right, left) else (left, right))"

definition resolve_step ::
  "('ver::linorder, 'req) Semver \<Rightarrow> PackageRegistry \<Rightarrow> SecurityAdvisory list \<Rightarrow> YankRecord list \<Rightarrow>
    (string, PackageManifest \<times> string) btree_map \<Rightarrow> DependencySpec \<Rightarrow>
    (ResolverError, (string, PackageManifest \<times> string) btree_map) result" where
  "resolve_step sv registry advisories yanks resolved spec =
    rbind (resolve sv spec registry advisories yanks) (\<lambda>manifest.
      case bt_get resolved (pm_name manifest) of
        Some (_, prev_version) \<Rightarrow>
          if prev_version \<noteq> pm_version manifest then
            (case canonical_conflict_versions sv prev_version (pm_version manifest) of
               (v1, v2) \<Rightarrow> Err (ConflictingVersion (pm_name manifest) v1 v2))
          else Ok resolved
      | None \<Rightarrow> Ok (bt_insert (pm_name manifest) (manifest, pm_version manifest) resolved))"

definition resolve_all ::
  "('ver::linorder, 'req) Semver \<Rightarrow> DependencySpec list \<Rightarrow> PackageRegistry \<Rightarrow> SecurityAdvisory list \<Rightarrow> YankRecord list \<Rightarrow>
    (ResolverError, PackageManifest list) result" where
  "resolve_all sv specs registry advisories yanks =
    rbind (rfold (resolve_step sv registry advisories yanks) [] specs) (\<lambda>resolved.
      Ok (map (fst \<circ> snd) resolved))"

section \<open>The chosen manifest\<close>

definition candidate :: "('ver, 'req) Semver \<Rightarrow> string \<Rightarrow> 'req \<Rightarrow> PackageManifest \<Rightarrow> 'ver \<Rightarrow> bool" where
  "candidate sv name req m v \<longleftrightarrow>
    pm_name m = name \<and> sv_parse sv (pm_version m) = Some v \<and> sv_req_matches sv req v"

text \<open>The first manifest, in registration order, of the highest version that meets the requirement.\<close>

definition highest_match ::
  "('ver::linorder, 'req) Semver \<Rightarrow> string \<Rightarrow> 'req \<Rightarrow> PackageManifest list \<Rightarrow> PackageManifest \<Rightarrow> bool" where
  "highest_match sv name req ms m \<longleftrightarrow>
    (\<exists>v. candidate sv name req m v \<and>
      (\<forall>m' \<in> set ms. \<forall>v'. candidate sv name req m' v' \<longrightarrow> v' \<le> v) \<and>
      find (\<lambda>m'. candidate sv name req m' v) ms = Some m)"

lemma consider_manifest_cases:
  "consider_manifest sv name req best m =
    (if \<exists>v. candidate sv name req m v \<and> (\<forall>m' v'. best = Some (m', v') \<longrightarrow> v' < v)
     then Some (m, the (sv_parse sv (pm_version m))) else best)"
  by (auto simp: consider_manifest_def candidate_def split: option.splits)

lemma foldl_consider:
  "case foldl (consider_manifest sv name req) None ms of
     None \<Rightarrow> \<forall>m \<in> set ms. \<forall>v. \<not> candidate sv name req m v
   | Some (m, v) \<Rightarrow> candidate sv name req m v \<and>
       (\<forall>m' \<in> set ms. \<forall>v'. candidate sv name req m' v' \<longrightarrow> v' \<le> v) \<and>
       find (\<lambda>m'. candidate sv name req m' v) ms = Some m"
proof (induction ms rule: rev_induct)
  case (snoc x ms)
  let ?best = "foldl (consider_manifest sv name req) None ms"
  show ?case
  proof (cases "\<exists>v. candidate sv name req x v \<and> (\<forall>m' v'. ?best = Some (m', v') \<longrightarrow> v' < v)")
    case True
    then obtain v where v: "candidate sv name req x v" "\<forall>m' v'. ?best = Some (m', v') \<longrightarrow> v' < v" by blast
    then have step: "foldl (consider_manifest sv name req) None (ms @ [x]) = Some (x, v)"
      using True by (auto simp: consider_manifest_cases candidate_def)
    have below: "v' < v" if "m' \<in> set ms" "candidate sv name req m' v'" for m' v'
      using snoc v(2) that by (auto split: option.splits) (meson le_less_trans)
    then have "find (\<lambda>m'. candidate sv name req m' v) ms = None"
      by (auto simp: find_None)
    with step v(1) below show ?thesis
      by (auto simp: find_append candidate_def less_imp_le)
  next
    case False
    then have step: "foldl (consider_manifest sv name req) None (ms @ [x]) = ?best"
      by (simp only: foldl_append foldl.simps consider_manifest_cases[of sv name req ?best x] if_False)
    show ?thesis
    proof (cases ?best)
      case None
      with False snoc step show ?thesis by auto
    next
      case (Some mv)
      then obtain m v where mv: "?best = Some (m, v)" by (cases mv) auto
      have "v' \<le> v" if "candidate sv name req x v'" for v'
        using False mv that by (auto simp: not_less)
      with snoc mv step show ?thesis by (auto simp: find_append)
    qed
  qed
qed simp

lemma highest_match_unique: "highest_match sv name req ms m \<Longrightarrow> highest_match sv name req ms m' \<Longrightarrow> m = m'"
proof -
  assume a: "highest_match sv name req ms m" and b: "highest_match sv name req ms m'"
  then obtain v v' where v: "find (\<lambda>m. candidate sv name req m v) ms = Some m"
      "\<forall>m' \<in> set ms. \<forall>v'. candidate sv name req m' v' \<longrightarrow> v' \<le> v"
    and v': "find (\<lambda>m. candidate sv name req m v') ms = Some m'"
      "\<forall>m' \<in> set ms. \<forall>w. candidate sv name req m' w \<longrightarrow> w \<le> v'"
    unfolding highest_match_def by blast
  have "v = v'"
    using v(2) v'(2) find_Some_mem[OF v(1)] find_Some_mem[OF v'(1)] by (meson order_antisym)
  with v(1) v'(1) show "m = m'" by simp
qed

lemma find_best_match_iff:
  assumes "parse_requirement sv c = Ok req"
  shows "find_best_match sv name c reg = Ok (Some m) \<longleftrightarrow> highest_match sv name req (pr_manifests reg) m"
    and "find_best_match sv name c reg = Ok None \<longleftrightarrow> (\<forall>m \<in> set (pr_manifests reg). \<forall>v. \<not> candidate sv name req m v)"
proof -
  let ?best = "foldl (consider_manifest sv name req) None (pr_manifests reg)"
  have eq: "find_best_match sv name c reg = Ok (map_option fst ?best)"
    using assms by (simp add: find_best_match_def)
  note best = foldl_consider[where sv = sv and name = name and req = req and ms = "pr_manifests reg"]
  show "find_best_match sv name c reg = Ok None \<longleftrightarrow> (\<forall>m \<in> set (pr_manifests reg). \<forall>v. \<not> candidate sv name req m v)"
    using best by (auto simp: eq split: option.splits dest: find_Some_mem)
  show "find_best_match sv name c reg = Ok (Some m) \<longleftrightarrow> highest_match sv name req (pr_manifests reg) m"
  proof (cases ?best)
    case None
    with best show ?thesis by (auto simp: eq highest_match_def dest: find_Some_mem)
  next
    case (Some mv)
    then obtain m' v where mv: "?best = Some (m', v)" by (cases mv) auto
    with best have "highest_match sv name req (pr_manifests reg) m'" by (auto simp: highest_match_def)
    with highest_match_unique mv show ?thesis by (auto simp: eq)
  qed
qed

lemma advisory_matches_Nil: "advisory_matches sv n v advs = [] \<longleftrightarrow> \<not> is_affected sv n v advs"
proof -
  have "set (advisory_matches sv n v advs) = {} \<longleftrightarrow> \<not> is_affected sv n v advs"
    by (auto simp: advisory_matches_def is_affected_def list_ex_iff)
  then show ?thesis by simp
qed

lemma first_match_None: "first_match sv n v advs = None \<longleftrightarrow> \<not> is_affected sv n v advs"
  by (simp add: first_match_def advisory_matches_Nil[symmetric] split: list.splits)

definition schema_met :: "u32 option \<Rightarrow> u32 option \<Rightarrow> bool" where
  "schema_met minimum actual \<longleftrightarrow>
    (\<forall>m. minimum = Some m \<longrightarrow> m \<le> (case actual of Some a \<Rightarrow> a | None \<Rightarrow> 0))"

lemma schema_error_None: "schema_error field actual minimum = None \<longleftrightarrow> schema_met minimum actual"
  by (cases actual; cases minimum) (auto simp: schema_error_def schema_met_def Let_def not_less)

definition policy_met ::
  "('ver, 'req) Semver \<Rightarrow> DependencySpec \<Rightarrow> PackageManifest \<Rightarrow> SecurityAdvisory list \<Rightarrow> YankRecord list \<Rightarrow> bool" where
  "policy_met sv spec m advs yanks \<longleftrightarrow>
    (\<forall>y \<in> set yanks. \<not> (yr_name y = ds_name spec \<and> yr_version y = pm_version m)) \<and>
    \<not> is_affected sv (ds_name spec) (pm_version m) advs \<and>
    ds_min_trust spec \<le> pm_trust_level m \<and>
    (\<forall>p. ds_profile spec = Some p \<longrightarrow> trust_gate (pm_trust_level m) p \<noteq> DenyVerdict) \<and>
    schema_met (ds_min_graph_schema spec) (pm_graph_schema m) \<and>
    schema_met (ds_min_core_ir_schema spec) (pm_core_ir_schema m) \<and>
    (ds_allowed_licenses spec = [] \<or> pm_license m \<in> Some ` set (ds_allowed_licenses spec)) \<and>
    set (ds_denied_capabilities spec) \<inter> set (pm_required_capabilities m) = {} \<and>
    set (ds_denied_handlers spec) \<inter> he_handler_name ` set (pm_handlers m) = {}"

lemma case_option_None: "(case x of None \<Rightarrow> a | Some y \<Rightarrow> Some (f y)) = None \<longleftrightarrow> x = None \<and> a = None"
  by (cases x) auto

lemma policy_error_None: "policy_error sv spec m advs yanks = None \<longleftrightarrow> policy_met sv spec m advs yanks"
proof -
  have profile: "(case ds_profile spec of Some p \<Rightarrow> if trust_gate (pm_trust_level m) p = DenyVerdict then Some p else None
      | None \<Rightarrow> None) = None \<longleftrightarrow> (\<forall>p. ds_profile spec = Some p \<longrightarrow> trust_gate (pm_trust_level m) p \<noteq> DenyVerdict)"
    by (cases "ds_profile spec") auto
  have license: "license_ok (ds_allowed_licenses spec) (pm_license m) \<longleftrightarrow>
      ds_allowed_licenses spec = [] \<or> pm_license m \<in> Some ` set (ds_allowed_licenses spec)"
    by (cases "pm_license m") (auto simp: license_ok_def)
  have id: "(case x of None \<Rightarrow> a | Some y \<Rightarrow> Some y) = None \<longleftrightarrow> x = None \<and> a = None" for x a :: "ResolverError option"
    by (cases x) auto
  have iff_None: "(if \<not> b then Some e else a) = None \<longleftrightarrow> b \<and> a = None" for b and e :: ResolverError and a by simp
  show ?thesis
    unfolding policy_error_def policy_met_def case_option_None id iff_None profile license schema_error_None
      first_match_None find_None option.map_disc_iff satisfies_def
    by blast
qed

lemma resolve_Ok_iff:
  "resolve sv spec reg advs yanks = Ok m \<longleftrightarrow>
    (\<exists>req. parse_requirement sv (ds_version_constraint spec) = Ok req \<and>
      highest_match sv (ds_name spec) req (pr_manifests reg) m) \<and> policy_met sv spec m advs yanks"
proof (cases "parse_requirement sv (ds_version_constraint spec)")
  case (Inl issue)
  then show ?thesis by (simp add: resolve_def find_best_match_def)
next
  case (Inr req)
  have "resolve sv spec reg advs yanks = Ok m \<longleftrightarrow>
      find_best_match sv (ds_name spec) (ds_version_constraint spec) reg = Ok (Some m) \<and>
      policy_error sv spec m advs yanks = None"
    by (auto simp: resolve_def split: sum.splits option.splits)
  with Inr show ?thesis by (simp add: find_best_match_iff(1) policy_error_None)
qed

text \<open>
  C7. A specification resolves to a manifest exactly when its requirement parses,
  the manifest is the first registered one of the highest version that meets
  the requirement, and every policy of the specification admits it.
\<close>

theorem resolve_exact:
  "resolve sv spec reg advs yanks = Ok m \<longleftrightarrow>
    (\<exists>req v. parse_requirement sv (ds_version_constraint spec) = Ok req \<and>
      candidate sv (ds_name spec) req m v \<and>
      (\<forall>m' \<in> set (pr_manifests reg). \<forall>v'. candidate sv (ds_name spec) req m' v' \<longrightarrow> v' \<le> v) \<and>
      find (\<lambda>m'. candidate sv (ds_name spec) req m' v) (pr_manifests reg) = Some m) \<and>
    policy_met sv spec m advs yanks"
  unfolding resolve_Ok_iff highest_match_def by blast

section \<open>Resolving a list\<close>

lemma resolve_name: "resolve sv spec reg advs yanks = Ok m \<Longrightarrow> pm_name m = ds_name spec"
  by (auto simp: resolve_Ok_iff highest_match_def candidate_def)

text \<open>Two specifications of one package that choose the same version choose the same manifest.\<close>

lemma resolve_version_determines:
  assumes "resolve sv s reg advs yanks = Ok m" "resolve sv t reg advs yanks = Ok m'"
    "pm_name m = pm_name m'" "pm_version m = pm_version m'"
  shows "m = m'"
proof -
  have first: "find (\<lambda>x. pm_name x = pm_name m \<and> sv_parse sv (pm_version x) = sv_parse sv (pm_version m)) (pr_manifests reg) = Some m"
    if r: "resolve sv s reg advs yanks = Ok m" for s m
  proof -
    obtain req v where v: "candidate sv (ds_name s) req m v"
        "find (\<lambda>x. candidate sv (ds_name s) req x v) (pr_manifests reg) = Some m"
      using r unfolding resolve_Ok_iff highest_match_def by blast
    have parts: "ds_name s = pm_name m" "sv_parse sv (pm_version m) = Some v" "sv_req_matches sv req v"
      using v(1) by (simp_all add: candidate_def)
    have "(pm_name x = pm_name m \<and> sv_parse sv (pm_version x) = sv_parse sv (pm_version m)) = candidate sv (ds_name s) req x v" for x
      using parts(3) unfolding candidate_def parts(1,2) by blast
    with v(2) show ?thesis by presburger
  qed
  have "find (\<lambda>x. pm_name x = pm_name m \<and> sv_parse sv (pm_version x) = sv_parse sv (pm_version m)) (pr_manifests reg) = Some m'"
    using first[OF assms(2)] unfolding assms(3,4) .
  with first[OF assms(1)] show ?thesis by (metis option.inject)
qed

definition resolved_by ::
  "('ver::linorder, 'req) Semver \<Rightarrow> PackageRegistry \<Rightarrow> SecurityAdvisory list \<Rightarrow> YankRecord list \<Rightarrow> DependencySpec set \<Rightarrow>
    (string, PackageManifest \<times> string) btree_map \<Rightarrow> bool" where
  "resolved_by sv reg advs yanks D R \<longleftrightarrow> bt_inv R \<and>
    (\<forall>n m v. bt_get R n = Some (m, v) \<longleftrightarrow>
      v = pm_version m \<and> pm_name m = n \<and> (\<exists>s \<in> D. resolve sv s reg advs yanks = Ok m))"

definition agreeing ::
  "('ver::linorder, 'req) Semver \<Rightarrow> PackageRegistry \<Rightarrow> SecurityAdvisory list \<Rightarrow> YankRecord list \<Rightarrow> DependencySpec set \<Rightarrow> bool" where
  "agreeing sv reg advs yanks D \<longleftrightarrow>
    (\<forall>s \<in> D. \<exists>m. resolve sv s reg advs yanks = Ok m) \<and>
    (\<forall>s \<in> D. \<forall>t \<in> D. \<forall>m m'. resolve sv s reg advs yanks = Ok m \<longrightarrow> resolve sv t reg advs yanks = Ok m' \<longrightarrow>
      pm_name m = pm_name m' \<longrightarrow> m = m')"

lemma resolved_byI:
  assumes "bt_inv R"
    "\<And>n m v. bt_get R n = Some (m, v) \<Longrightarrow> v = pm_version m \<and> pm_name m = n \<and> (\<exists>s \<in> D. resolve sv s reg advs yanks = Ok m)"
    "\<And>s m. s \<in> D \<Longrightarrow> resolve sv s reg advs yanks = Ok m \<Longrightarrow> bt_get R (pm_name m) = Some (m, pm_version m)"
  shows "resolved_by sv reg advs yanks D R"
  unfolding resolved_by_def using assms by blast

lemma resolved_byD:
  assumes "resolved_by sv reg advs yanks D R"
  shows "bt_inv R"
    and "bt_get R n = Some (m, v) \<Longrightarrow> v = pm_version m \<and> pm_name m = n \<and> (\<exists>s \<in> D. resolve sv s reg advs yanks = Ok m)"
    and "s \<in> D \<Longrightarrow> resolve sv s reg advs yanks = Ok m \<Longrightarrow> bt_get R (pm_name m) = Some (m, pm_version m)"
  using assms unfolding resolved_by_def by blast+

lemma agreeing_insert:
  assumes D: "agreeing sv reg advs yanks D" and s: "resolve sv s reg advs yanks = Ok m"
  shows "agreeing sv reg advs yanks (insert s D) \<longleftrightarrow>
    (\<forall>t \<in> D. \<forall>m'. resolve sv t reg advs yanks = Ok m' \<longrightarrow> pm_name m' = pm_name m \<longrightarrow> m' = m)"
proof (intro iffI ballI allI impI)
  fix t m' assume a: "agreeing sv reg advs yanks (insert s D)"
    and t: "t \<in> D" "resolve sv t reg advs yanks = Ok m'" "pm_name m' = pm_name m"
  from a have "\<forall>u \<in> insert s D. \<forall>w \<in> insert s D. \<forall>x y. resolve sv u reg advs yanks = Ok x \<longrightarrow>
      resolve sv w reg advs yanks = Ok y \<longrightarrow> pm_name x = pm_name y \<longrightarrow> x = y"
    unfolding agreeing_def by (rule conjunct2)
  from this[rule_format, of t s m' m] t s show "m' = m" by simp
next
  assume r: "\<forall>t \<in> D. \<forall>m'. resolve sv t reg advs yanks = Ok m' \<longrightarrow> pm_name m' = pm_name m \<longrightarrow> m' = m"
  show "agreeing sv reg advs yanks (insert s D)"
    unfolding agreeing_def
  proof (intro conjI ballI allI impI)
    fix t assume "t \<in> insert s D"
    then show "\<exists>m. resolve sv t reg advs yanks = Ok m" using s D unfolding agreeing_def by auto
  next
    fix u w x y
    assume u: "u \<in> insert s D" "resolve sv u reg advs yanks = Ok x"
      and w: "w \<in> insert s D" "resolve sv w reg advs yanks = Ok y" and n: "pm_name x = pm_name y"
    consider "u = s" "w = s" | "u = s" "w \<in> D" | "u \<in> D" "w = s" | "u \<in> D" "w \<in> D" using u(1) w(1) by blast
    then show "x = y"
    proof cases
      case 4
      then show ?thesis using D u(2) w(2) n unfolding agreeing_def by blast
    qed (use r[rule_format] s u(2) w(2) n in fastforce)+
  qed
qed

lemma resolve_step_exact:
  assumes R: "resolved_by sv reg advs yanks D R" and D: "agreeing sv reg advs yanks D"
    and s: "resolve sv s reg advs yanks = Ok m"
  shows "if agreeing sv reg advs yanks (insert s D)
    then \<exists>R'. resolve_step sv reg advs yanks R s = Ok R' \<and> resolved_by sv reg advs yanks (insert s D) R'
    else \<exists>e. resolve_step sv reg advs yanks R s = Err e"
proof (cases "bt_get R (pm_name m)")
  case None
  have fresh: "pm_name m' \<noteq> pm_name m" if "t \<in> D" "resolve sv t reg advs yanks = Ok m'" for t m'
    using resolved_byD(3)[OF R that] None by auto
  have step: "resolve_step sv reg advs yanks R s = Ok (bt_insert (pm_name m) (m, pm_version m) R)"
    by (simp add: resolve_step_def s None)
  have "resolved_by sv reg advs yanks (insert s D) (bt_insert (pm_name m) (m, pm_version m) R)"
  proof (rule resolved_byI)
    show "bt_inv (bt_insert (pm_name m) (m, pm_version m) R)" using resolved_byD(1)[OF R] by simp
  next
    fix n m' v assume "bt_get (bt_insert (pm_name m) (m, pm_version m) R) n = Some (m', v)"
    then show "v = pm_version m' \<and> pm_name m' = n \<and> (\<exists>s \<in> insert s D. resolve sv s reg advs yanks = Ok m')"
      using s resolved_byD(2)[OF R, of n m' v] by (auto split: if_splits)
  next
    fix t m' assume "t \<in> insert s D" "resolve sv t reg advs yanks = Ok m'"
    then show "bt_get (bt_insert (pm_name m) (m, pm_version m) R) (pm_name m') = Some (m', pm_version m')"
      using s fresh[of t m'] resolved_byD(3)[OF R, of t m'] by (cases "t = s") auto
  qed
  moreover have "agreeing sv reg advs yanks (insert s D)"
    unfolding agreeing_insert[OF D s] using fresh by blast
  ultimately show ?thesis using step by simp
next
  case (Some mv)
  then obtain m' v where mv: "bt_get R (pm_name m) = Some (m', v)" by (cases mv) auto
  then obtain t where t: "t \<in> D" "resolve sv t reg advs yanks = Ok m'" "v = pm_version m'" "pm_name m' = pm_name m"
    using resolved_byD(2)[OF R mv] by blast
  show ?thesis
  proof (cases "v = pm_version m")
    case True
    then have eq: "m' = m"
      using resolve_version_determines[OF t(2) s] t by simp
    have all: "m'' = m" if "u \<in> D" "resolve sv u reg advs yanks = Ok m''" "pm_name m'' = pm_name m" for u m''
      using resolved_byD(3)[OF R that(1,2)] that(3) mv eq by simp
    have step: "resolve_step sv reg advs yanks R s = Ok R"
      using True by (simp add: resolve_step_def s mv)
    have "resolved_by sv reg advs yanks (insert s D) R"
    proof (rule resolved_byI)
      show "bt_inv R" by (rule resolved_byD(1)[OF R])
    next
      fix n x v assume "bt_get R n = Some (x, v)"
      then show "v = pm_version x \<and> pm_name x = n \<and> (\<exists>s \<in> insert s D. resolve sv s reg advs yanks = Ok x)"
        using resolved_byD(2)[OF R] by blast
    next
      fix u x assume "u \<in> insert s D" "resolve sv u reg advs yanks = Ok x"
      then show "bt_get R (pm_name x) = Some (x, pm_version x)"
        using s mv eq t(3) resolved_byD(3)[OF R, of u x] by (cases "u = s") auto
    qed
    moreover have "agreeing sv reg advs yanks (insert s D)"
      unfolding agreeing_insert[OF D s] using all by blast
    ultimately show ?thesis using step by simp
  next
    case False
    then have "\<not> agreeing sv reg advs yanks (insert s D)"
      unfolding agreeing_insert[OF D s] using t by blast
    moreover have "\<exists>e. resolve_step sv reg advs yanks R s = Err e"
      using False by (simp add: resolve_step_def s mv split: prod.splits)
    ultimately show ?thesis by simp
  qed
qed

lemma agreeing_subset: "agreeing sv reg advs yanks E \<Longrightarrow> D \<subseteq> E \<Longrightarrow> agreeing sv reg advs yanks D"
  unfolding agreeing_def by (meson subsetD)

lemma rfold_resolve_step:
  assumes "resolved_by sv reg advs yanks D R" "agreeing sv reg advs yanks D"
  shows "if agreeing sv reg advs yanks (D \<union> set specs)
    then \<exists>R'. rfold (resolve_step sv reg advs yanks) R specs = Ok R' \<and> resolved_by sv reg advs yanks (D \<union> set specs) R'
    else \<exists>e. rfold (resolve_step sv reg advs yanks) R specs = Err e"
  using assms
proof (induction specs arbitrary: D R)
  case (Cons s specs)
  have un: "D \<union> set (s # specs) = insert s D \<union> set specs" by simp
  show ?case
  proof (cases "resolve sv s reg advs yanks")
    case (Inl e)
    then have "\<not> agreeing sv reg advs yanks (D \<union> set (s # specs))" by (auto simp: agreeing_def)
    with Inl show ?thesis by (simp add: resolve_step_def)
  next
    case (Inr m)
    note step = resolve_step_exact[OF Cons.prems Inr]
    show ?thesis
    proof (cases "agreeing sv reg advs yanks (insert s D)")
      case True
      with step obtain R' where R': "resolve_step sv reg advs yanks R s = Ok R'" "resolved_by sv reg advs yanks (insert s D) R'" by auto
      from Cons.IH[OF R'(2) True] R'(1) show ?thesis unfolding un by (simp only: rfold.simps rbind_simps)
    next
      case False
      then have "\<not> agreeing sv reg advs yanks (insert s D \<union> set specs)" using agreeing_subset by blast
      with step False show ?thesis unfolding un by (auto simp: rbind_def)
    qed
  qed
qed (use assms in simp)

lemma key_sorted_unique:
  fixes f :: "'a \<Rightarrow> 'k::linorder"
  assumes "sorted_wrt (\<lambda>a b. f a < f b) xs" "sorted_wrt (\<lambda>a b. f a < f b) ys" "set xs = set ys"
  shows "xs = ys"
  using assms
proof (induction xs arbitrary: ys)
  case (Cons x xs)
  then obtain y zs where ys: "ys = y # zs" by (cases ys) auto
  have "x = y"
  proof (rule ccontr)
    assume "x \<noteq> y"
    with Cons.prems ys have "x \<in> set zs" "y \<in> set xs" by auto
    with Cons.prems ys show False by (auto dest!: bspec intro: less_asym)
  qed
  moreover have "set xs = set zs"
    using Cons.prems ys \<open>x = y\<close> by (auto dest: bspec)
  ultimately show ?case using Cons.IH[of zs] Cons.prems ys by simp
qed simp

lemma resolved_values:
  assumes "resolved_by sv reg advs yanks D R"
  shows "sorted_wrt (\<lambda>a b. pm_name a < pm_name b) (map (fst \<circ> snd) R)"
    and "set (map (fst \<circ> snd) R) = {m. \<exists>s \<in> D. resolve sv s reg advs yanks = Ok m}"
proof -
  have inv: "bt_inv R" by (rule resolved_byD(1)[OF assms])
  have key: "fst e = pm_name (fst (snd e))" if "e \<in> set R" for e
    using bt_get_mem[OF inv, of "fst e" "snd e"] resolved_byD(2)[OF assms, of "fst e" "fst (snd e)" "snd (snd e)"] that by simp
  have "sorted_wrt (\<lambda>a b. fst a < fst b) R"
    using inv unfolding bt_inv_def sorted_wrt_map .
  then have "sorted_wrt (\<lambda>a b. pm_name (fst (snd a)) < pm_name (fst (snd b))) R"
    by (rule sorted_wrt_mono_rel[rotated]) (simp add: key)
  then show "sorted_wrt (\<lambda>a b. pm_name a < pm_name b) (map (fst \<circ> snd) R)"
    by (simp add: sorted_wrt_map)
  show "set (map (fst \<circ> snd) R) = {m. \<exists>s \<in> D. resolve sv s reg advs yanks = Ok m}"
  proof (intro set_eqI iffI)
    fix m assume "m \<in> set (map (fst \<circ> snd) R)"
    then obtain n v where "(n, m, v) \<in> set R" by auto
    then have "bt_get R n = Some (m, v)" by (simp add: bt_get_mem[OF inv])
    from resolved_byD(2)[OF assms this] show "m \<in> {m. \<exists>s \<in> D. resolve sv s reg advs yanks = Ok m}" by blast
  next
    fix m assume "m \<in> {m. \<exists>s \<in> D. resolve sv s reg advs yanks = Ok m}"
    then obtain s where "s \<in> D" "resolve sv s reg advs yanks = Ok m" by blast
    from resolved_byD(3)[OF assms this] have "(pm_name m, m, pm_version m) \<in> set R"
      by (simp add: bt_get_mem[OF inv])
    then show "m \<in> set (map (fst \<circ> snd) R)" by force
  qed
qed

text \<open>
  C8. A list of specifications resolves exactly when each of them does and those
  of one package choose the same manifest; the result is then the set of chosen
  manifests, one for each package, in the order of their names, whatever the
  order of the specifications.
\<close>

theorem resolve_all_exact:
  "resolve_all sv specs reg advs yanks = Ok ms \<longleftrightarrow>
    agreeing sv reg advs yanks (set specs) \<and>
    sorted_wrt (\<lambda>a b. pm_name a < pm_name b) ms \<and>
    set ms = {m. \<exists>s \<in> set specs. resolve sv s reg advs yanks = Ok m}"
proof -
  have "resolved_by sv reg advs yanks {} []" "agreeing sv reg advs yanks {}"
    by (simp_all add: resolved_by_def agreeing_def)
  from rfold_resolve_step[OF this, of specs] have run: "if agreeing sv reg advs yanks (set specs)
    then \<exists>R. rfold (resolve_step sv reg advs yanks) [] specs = Ok R \<and> resolved_by sv reg advs yanks (set specs) R
    else \<exists>e. rfold (resolve_step sv reg advs yanks) [] specs = Err e" by (simp only: Un_empty_left)
  show ?thesis
  proof (cases "agreeing sv reg advs yanks (set specs)")
    case True
    with run obtain R where R: "rfold (resolve_step sv reg advs yanks) [] specs = Ok R" "resolved_by sv reg advs yanks (set specs) R"
      by auto
    then have "resolve_all sv specs reg advs yanks = Ok (map (fst \<circ> snd) R)" by (simp add: resolve_all_def)
    with True resolved_values[OF R(2)] key_sorted_unique[of pm_name ms "map (fst \<circ> snd) R"] show ?thesis by fastforce
  next
    case False
    with run show ?thesis by (auto simp: resolve_all_def)
  qed
qed

section \<open>The resolver and the gates beside it\<close>

lemma resolve_registry: "pr_manifests reg' = pr_manifests reg \<Longrightarrow> resolve sv spec reg' advs yanks = resolve sv spec reg advs yanks"
  by (simp add: resolve_def find_best_match_def)

lemma gate_blocks_iff:
  "is_blocked (advisory_gate sv n v yanked advs) \<longleftrightarrow> yanked \<noteq> None \<or>
    (\<exists>adv \<in> set advs. sa_package adv = n \<and> version_matches sv v (sa_affected_constraint adv) \<and> sa_severity adv \<in> {High, Critical})"
proof -
  have "ai_action (advisory_issue adv) = Block \<longleftrightarrow> sa_severity adv \<in> {High, Critical}" for adv
    by (cases "sa_severity adv") (simp_all add: advisory_issue_def)
  then have "list_ex (\<lambda>issue. ai_action issue = Block) (map advisory_issue (advisory_matches sv n v advs)) \<longleftrightarrow>
      (\<exists>adv \<in> set advs. sa_package adv = n \<and> version_matches sv v (sa_affected_constraint adv) \<and> sa_severity adv \<in> {High, Critical})"
    by (auto simp: list_ex_iff advisory_matches_def)
  then show ?thesis by (cases yanked) (simp_all add: is_blocked_def advisory_gate_def)
qed

text \<open>
  The resolver refuses a package for any matching advisory, also where the
  advisory gate of the same version only warns; and it looks at the yank
  records it is given, never at those of the registry.
\<close>

lemma resolver_beside_gates:
  assumes "find_best_match sv (ds_name spec) (ds_version_constraint spec) reg = Ok (Some m)"
    "\<forall>y \<in> set yanks. \<not> (yr_name y = ds_name spec \<and> yr_version y = pm_version m)"
    "is_affected sv (ds_name spec) (pm_version m) advs"
    "\<forall>adv \<in> set advs. sa_severity adv \<in> {Low, Medium}"
  shows "(\<exists>adv \<in> set advs. resolve sv spec reg advs yanks = Err (Advisory (sa_id adv) (sa_severity adv))) \<and>
    \<not> is_blocked (advisory_gate sv (ds_name spec) (pm_version m) None advs) \<and>
    resolve sv spec (yank reg (ds_name spec) (pm_version m) reason) advs yanks = resolve sv spec reg advs yanks \<and>
    is_yanked (yank reg (ds_name spec) (pm_version m) reason) (ds_name spec) (pm_version m)"
proof -
  obtain adv rest where adv: "advisory_matches sv (ds_name spec) (pm_version m) advs = adv # rest"
    using assms(3) advisory_matches_Nil[of sv "ds_name spec" "pm_version m" advs]
    by (cases "advisory_matches sv (ds_name spec) (pm_version m) advs") auto
  then have "adv \<in> set (advisory_matches sv (ds_name spec) (pm_version m) advs)" by simp
  then have mem: "adv \<in> set advs" by (simp add: advisory_matches_def)
  have "find (\<lambda>y. yr_name y = ds_name spec \<and> yr_version y = pm_version m) yanks = None"
    using assms(2) by (simp add: find_None)
  then have "resolve sv spec reg advs yanks = Err (Advisory (sa_id adv) (sa_severity adv))"
    by (simp add: resolve_def assms(1) policy_error_def first_match_def adv)
  moreover have "\<not> is_blocked (advisory_gate sv (ds_name spec) (pm_version m) None advs)"
    using assms(4) unfolding gate_blocks_iff by auto
  moreover have "resolve sv spec (yank reg (ds_name spec) (pm_version m) reason) advs yanks = resolve sv spec reg advs yanks"
    by (rule resolve_registry) (simp add: yank_def)
  moreover have "is_yanked (yank reg (ds_name spec) (pm_version m) reason) (ds_name spec) (pm_version m)"
    by (simp add: yank_def is_yanked_def)
  ultimately show ?thesis using mem by blast
qed

section \<open>Examples\<close>

definition plain_spec :: "string \<Rightarrow> string \<Rightarrow> DependencySpec" where
  "plain_spec name version_constraint =
    \<lparr>ds_name = name, ds_version_constraint = version_constraint, ds_min_trust = Unverified, ds_profile = None,
     ds_allowed_licenses = [], ds_denied_capabilities = [], ds_denied_handlers = [],
     ds_min_graph_schema = None, ds_min_core_ir_schema = None\<rparr>"

definition sample_registry :: PackageRegistry where
  "sample_registry = \<lparr>pr_manifests =
     [plain_manifest ''pay'' ''1.2.0'' Assumed, plain_manifest ''pay'' ''1.10.0'' Assumed,
      plain_manifest ''pay'' ''2.0.0'' Assumed], pr_signed_packages = [], pr_yanked = []\<rparr>"

theorem resolve_exact_witness:
  "policy_met triple_semver (plain_spec ''pay'' ''^1.0.0'') (plain_manifest ''pay'' ''1.10.0'' Assumed) [] []"
proof -
  have "resolve triple_semver (plain_spec ''pay'' ''^1.0.0'') sample_registry [] [] =
      Ok (plain_manifest ''pay'' ''1.10.0'' Assumed)" by code_simp
  then show ?thesis by (rule resolve_exact[THEN iffD1, THEN conjunct2])
qed

lemma resolver_beside_gates_witness:
  "\<not> is_blocked (advisory_gate triple_semver ''pay'' ''1.10.0'' None
      [\<lparr>sa_id = ''adv1'', sa_package = ''pay'', sa_affected_constraint = ''<2.0.0'', sa_severity = Low, sa_reason = []\<rparr>]) \<and>
    (\<exists>adv \<in> set [\<lparr>sa_id = ''adv1'', sa_package = ''pay'', sa_affected_constraint = ''<2.0.0'', sa_severity = Low, sa_reason = []\<rparr>].
      resolve triple_semver (plain_spec ''pay'' ''^1.0.0'') sample_registry
        [\<lparr>sa_id = ''adv1'', sa_package = ''pay'', sa_affected_constraint = ''<2.0.0'', sa_severity = Low, sa_reason = []\<rparr>] [] =
        Err (Advisory (sa_id adv) (sa_severity adv)))"
proof -
  let ?adv = "\<lparr>sa_id = ''adv1'', sa_package = ''pay'', sa_affected_constraint = ''<2.0.0'', sa_severity = Low, sa_reason = []\<rparr>"
  have best: "find_best_match triple_semver (ds_name (plain_spec ''pay'' ''^1.0.0'')) (ds_version_constraint (plain_spec ''pay'' ''^1.0.0''))
      sample_registry = Ok (Some (plain_manifest ''pay'' ''1.10.0'' Assumed))" by code_simp
  have affected: "is_affected triple_semver (ds_name (plain_spec ''pay'' ''^1.0.0''))
      (pm_version (plain_manifest ''pay'' ''1.10.0'' Assumed)) [?adv]" by code_simp
  from resolver_beside_gates[OF best _ affected, of "[]"] show ?thesis
    by (simp add: plain_spec_def plain_manifest_def)
qed

end
