(* ===== verification/Package_Diagnostics.thy ===== *)
theory Package_Diagnostics
  imports Package_Resolver
begin

text \<open>
  The preflight diagnostics of \<^verbatim>\<open>ail-package/src/resolver.rs\<close>: duplicate and
  unsatisfiable specifications, conflicting sources, and the import cycles of
  the packages a list of specifications can reach.  The source descriptor of a
  manifest, which the code only compares, is the pair of its two optional texts.
  \<^verbatim>\<open>sort_by\<close> leaves the order unspecified when the comparator is not a total
  order, which happens when some version strings parse and others do not: that
  order is the parameter \<open>mixed\<close>.
\<close>

section \<open>Preflight diagnostics\<close>

datatype ResolverDiagnosticKind =
  DuplicatePackage | IncompatibleVersionRange | MissingPackage | InvalidRequirement | MissingVersion
| DependencyCycle | ConflictingSource

fun diagnostic_kind_rank :: "ResolverDiagnosticKind \<Rightarrow> nat" where
  "diagnostic_kind_rank DuplicatePackage = 0"
| "diagnostic_kind_rank IncompatibleVersionRange = 1"
| "diagnostic_kind_rank MissingPackage = 2"
| "diagnostic_kind_rank InvalidRequirement = 3"
| "diagnostic_kind_rank MissingVersion = 4"
| "diagnostic_kind_rank DependencyCycle = 5"
| "diagnostic_kind_rank ConflictingSource = 6"

text \<open>
  The message renders the other fields (and the number of conflicting sources),
  and \<^verbatim>\<open>redacted\<close> is always true: both are left out.
\<close>

record ResolverDiagnostic =
  rd_kind :: ResolverDiagnosticKind
  rd_package :: string
  rd_version :: "string option"
  rd_constraints :: "string list"
  rd_versions :: "string list"
  rd_related_packages :: "string list"

definition diagnostic ::
  "ResolverDiagnosticKind \<Rightarrow> string \<Rightarrow> string option \<Rightarrow> string list \<Rightarrow> string list \<Rightarrow> string list \<Rightarrow> ResolverDiagnostic" where
  "diagnostic kind package version constraints versions related =
    \<lparr>rd_kind = kind, rd_package = package, rd_version = version, rd_constraints = constraints,
     rd_versions = versions, rd_related_packages = related\<rparr>"

definition diagnostic_sort_key ::
  "ResolverDiagnostic \<Rightarrow> string \<times> nat \<times> string option \<times> string list \<times> string list \<times> string list" where
  "diagnostic_sort_key d = (rd_package d, diagnostic_kind_rank (rd_kind d), rd_version d, rd_constraints d,
     rd_versions d, rd_related_packages d)"

definition version_matches_constraint :: "('ver, 'req) Semver \<Rightarrow> string \<Rightarrow> string \<Rightarrow> bool" where
  "version_matches_constraint sv version constraint =
    (case sv_parse sv version of
       None \<Rightarrow> False
     | Some parsed_version \<Rightarrow>
         (case parse_requirement sv constraint of
            Inl _ \<Rightarrow> False
          | Inr requirement \<Rightarrow> sv_req_matches sv requirement parsed_version))"

definition canonical_versions ::
  "('ver::linorder, 'req) Semver \<Rightarrow> (string list \<Rightarrow> string list) \<Rightarrow> string list \<Rightarrow> string list" where
  "canonical_versions sv mixed versions =
    (if list_all (\<lambda>v. sv_parse sv v \<noteq> None) versions then sort_key (\<lambda>v. the (sv_parse sv v)) versions
     else if list_all (\<lambda>v. sv_parse sv v = None) versions then sort versions
     else mixed versions)"

definition registry_versions_for ::
  "('ver::linorder, 'req) Semver \<Rightarrow> (string list \<Rightarrow> string list) \<Rightarrow> string \<Rightarrow> PackageRegistry \<Rightarrow> string list" where
  "registry_versions_for sv mixed package registry =
    canonical_versions sv mixed
      (sorted_list_of_set (set (map pm_version (filter (\<lambda>m. pm_name m = package) (pr_manifests registry)))))"

definition specs_by_package :: "DependencySpec list \<Rightarrow> (string, DependencySpec list) btree_map" where
  "specs_by_package specs = foldl (\<lambda>groups spec. bt_modify (ds_name spec) (\<lambda>group. group @ [spec])
     (bt_or_insert (ds_name spec) [] groups)) [] specs"

definition group_constraints :: "DependencySpec list \<Rightarrow> string list" where
  "group_constraints specs = sorted_list_of_set (set (map ds_version_constraint specs))"

definition add_duplicate_package_diagnostics :: "(string, DependencySpec list) btree_map \<Rightarrow> ResolverDiagnostic list" where
  "add_duplicate_package_diagnostics groups =
    [diagnostic DuplicatePackage package None (group_constraints specs) [] []. (package, specs) \<leftarrow> groups, length specs > 1]"

definition invalid_requirement_shape :: "VersionRequirementIssue \<Rightarrow> string" where
  "invalid_requirement_shape issue =
    ''shape='' @ (case vi_shape issue of Empty \<Rightarrow> ''empty'' | Exact \<Rightarrow> ''exact'' | Caret \<Rightarrow> ''caret'' | Tilde \<Rightarrow> ''tilde''
      | Comparator \<Rightarrow> ''comparator'' | Other \<Rightarrow> ''other'') @
    '';char_len='' @ show_nat (vi_char_len issue) @ '';category=requirement''"

fun add_missing_diagnostics ::
  "('ver::linorder, 'req) Semver \<Rightarrow> (string list \<Rightarrow> string list) \<Rightarrow> PackageRegistry \<Rightarrow> (string \<times> string) set \<Rightarrow>
    DependencySpec list \<Rightarrow> ResolverDiagnostic list" where
  "add_missing_diagnostics sv mixed registry emitted [] = []"
| "add_missing_diagnostics sv mixed registry emitted (spec # specs) =
    (let versions = registry_versions_for sv mixed (ds_name spec) registry;
         key = (ds_name spec, ds_version_constraint spec) in
     if key \<in> emitted then add_missing_diagnostics sv mixed registry emitted specs
     else (case parse_requirement sv (ds_version_constraint spec) of
         Inl issue \<Rightarrow> [diagnostic InvalidRequirement (ds_name spec) None [] [] [invalid_requirement_shape issue]]
       | Inr _ \<Rightarrow>
           if versions = [] then [diagnostic MissingPackage (ds_name spec) None [ds_version_constraint spec] [] []]
           else if \<not> list_ex (\<lambda>version. version_matches_constraint sv version (ds_version_constraint spec)) versions
             then [diagnostic MissingVersion (ds_name spec) None [ds_version_constraint spec] versions []]
           else []) @
       add_missing_diagnostics sv mixed registry (insert key emitted) specs)"

definition add_incompatible_range_diagnostics ::
  "('ver::linorder, 'req) Semver \<Rightarrow> (string list \<Rightarrow> string list) \<Rightarrow> PackageRegistry \<Rightarrow>
    (string, DependencySpec list) btree_map \<Rightarrow> ResolverDiagnostic list" where
  "add_incompatible_range_diagnostics sv mixed registry groups =
    [diagnostic IncompatibleVersionRange package None (group_constraints specs) (registry_versions_for sv mixed package registry) [].
       (package, specs) \<leftarrow> groups, length specs > 1, registry_versions_for sv mixed package registry \<noteq> [],
       list_all (\<lambda>c. \<not> isl (parse_requirement sv c)) (group_constraints specs),
       \<not> list_ex (\<lambda>version. list_all (version_matches_constraint sv version) (group_constraints specs))
         (registry_versions_for sv mixed package registry)]"

section \<open>Import cycles\<close>

type_synonym import_graph = "(string, string list) btree_map"

definition registry_packages :: "PackageRegistry \<Rightarrow> string set" where
  "registry_packages registry = set (map pm_name (pr_manifests registry))"

definition imports_of :: "PackageRegistry \<Rightarrow> string \<Rightarrow> string list" where
  "imports_of registry package =
    sorted_list_of_set (set [id_source_package i. m \<leftarrow> pr_manifests registry, pm_name m = package,
      i \<leftarrow> pm_imports m, id_source_package i \<in> registry_packages registry])"

text \<open>The stack of pending packages, its top first.\<close>

function dependency_loop :: "PackageRegistry \<Rightarrow> string list \<Rightarrow> import_graph \<Rightarrow> import_graph" where
  "dependency_loop registry [] graph = graph"
| "dependency_loop registry (package # pending) graph =
    (if bt_contains_key graph package then dependency_loop registry pending graph
     else dependency_loop registry
       (rev (filter (\<lambda>i. \<not> bt_contains_key graph i) (imports_of registry package)) @ pending)
       (bt_insert package (imports_of registry package) graph))"
  by pat_completeness auto
termination
proof (relation "(\<lambda>(registry, pending, graph). card ((set pending \<union> registry_packages registry) - fst ` set graph)) <*mlex*>
    measure (\<lambda>(registry, pending, graph). length pending)", goal_cases)
  case 1
  then show ?case by (simp add: wf_mlex)
next
  case (2 registry package pending graph)
  have "card ((set pending \<union> registry_packages registry) - fst ` set graph)
      \<le> card ((set (package # pending) \<union> registry_packages registry) - fst ` set graph)"
    by (rule card_mono) (auto simp: registry_packages_def)
  then show ?case by (intro mlex_leq) simp_all
next
  case (3 registry package pending graph)
  have sub: "set (imports_of registry package) \<subseteq> registry_packages registry"
    by (auto simp: imports_of_def)
  have "package \<notin> fst ` set graph"
    using 3 by (simp add: bt_contains_key_def bt_get_def map_of_eq_None_iff)
  then have "card ((set (rev (filter (\<lambda>i. \<not> bt_contains_key graph i) (imports_of registry package)) @ pending)
        \<union> registry_packages registry) - fst ` set (bt_insert package (imports_of registry package) graph))
      < card ((set (package # pending) \<union> registry_packages registry) - fst ` set graph)"
    using sub by (intro psubset_card_mono) (auto simp: registry_packages_def)
  then show ?case by (intro mlex_less) simp
qed

definition dependency_graph_for :: "string list \<Rightarrow> PackageRegistry \<Rightarrow> import_graph" where
  "dependency_graph_for root_packages registry = dependency_loop registry (rev root_packages) []"

definition diagnostic_package_scope :: "DependencySpec list \<Rightarrow> PackageRegistry \<Rightarrow> string list" where
  "diagnostic_package_scope specs registry =
    map fst (dependency_graph_for
      (sorted_list_of_set (set (filter (\<lambda>n. n \<in> registry_packages registry) (map ds_name specs)))) registry)"

definition normalized_cycle :: "string list \<Rightarrow> string list" where
  "normalized_cycle cycle =
    (if cycle = [] then []
     else let start_index = length (takeWhile (\<lambda>x. x \<noteq> Min (set cycle)) cycle);
              normalized = drop start_index cycle @ take start_index cycle in
       normalized @ [hd normalized])"

definition dependency_cycle :: "string list \<Rightarrow> ResolverDiagnostic" where
  "dependency_cycle normalized = diagnostic DependencyCycle (case normalized of [] \<Rightarrow> [] | p # _ \<Rightarrow> p) None [] [] normalized"

type_synonym cycle_state = "string list set \<times> ResolverDiagnostic list"

definition emit_cycle :: "string list \<Rightarrow> cycle_state \<Rightarrow> cycle_state" where
  "emit_cycle normalized st =
    (if normalized \<in> fst st then st else (insert normalized (fst st), snd st @ [dependency_cycle normalized]))"

function visit_cycles :: "string \<Rightarrow> import_graph \<Rightarrow> string list \<Rightarrow> cycle_state \<Rightarrow> cycle_state" where
  "visit_cycles package graph path st =
    (if package \<in> set path then emit_cycle (normalized_cycle (dropWhile (\<lambda>visited. visited \<noteq> package) path)) st
     else case bt_get graph package of
         None \<Rightarrow> st
       | Some imports \<Rightarrow> fold (\<lambda>import. visit_cycles import graph (path @ [package])) imports st)"
  by pat_completeness auto
termination
proof (relation "measure (\<lambda>(package, graph, path, st). card (fst ` set graph - set path))", goal_cases)
  case 1
  then show ?case by simp
next
  case (2 package graph path st imps i st')
  then have "package \<in> fst ` set graph - set path"
    by (auto simp: bt_get_def dest: map_of_SomeD intro: rev_image_eqI)
  then have "card (fst ` set graph - set (path @ [package])) < card (fst ` set graph - set path)"
    by (intro psubset_card_mono) auto
  then show ?case by (simp only: in_measure case_prod_conv)
qed

definition add_cycle_diagnostics :: "DependencySpec list \<Rightarrow> PackageRegistry \<Rightarrow> ResolverDiagnostic list" where
  "add_cycle_diagnostics specs registry =
    (let graph = dependency_graph_for (diagnostic_package_scope specs registry) registry in
     snd (fold (\<lambda>root. visit_cycles root graph []) (map fst graph) ({}, [])))"

section \<open>Conflicting sources and the whole report\<close>

definition provenance_source_descriptor :: "PackageManifest \<Rightarrow> (string option \<times> string option) option" where
  "provenance_source_descriptor manifest =
    (case pm_provenance manifest of
       None \<Rightarrow> None
     | Some p \<Rightarrow>
         if pv_source_repository p = None \<and> pv_url p = None then None
         else Some (pv_source_repository p, pv_url p))"

definition add_conflicting_source_diagnostics :: "DependencySpec list \<Rightarrow> PackageRegistry \<Rightarrow> ResolverDiagnostic list" where
  "add_conflicting_source_diagnostics specs registry =
    (let scope = diagnostic_package_scope specs registry;
         sources = foldl (\<lambda>m manifest.
           (case provenance_source_descriptor manifest of
              Some source \<Rightarrow>
                if pm_name manifest \<in> set scope
                then (let key = (pm_name manifest, pm_version manifest) in
                  bt_modify key (insert source) (bt_or_insert key {} m))
                else m
            | None \<Rightarrow> m)) [] (pr_manifests registry) in
     [diagnostic ConflictingSource package (Some version) [] [version] []. ((package, version), s) \<leftarrow> sources, card s > 1])"

definition conflict_diagnostics ::
  "('ver::linorder, 'req) Semver \<Rightarrow> (string list \<Rightarrow> string list) \<Rightarrow> DependencySpec list \<Rightarrow> PackageRegistry \<Rightarrow> ResolverDiagnostic list" where
  "conflict_diagnostics sv mixed specs registry =
    (let groups = specs_by_package specs in
     sort_key diagnostic_sort_key
       (add_duplicate_package_diagnostics groups @
        add_missing_diagnostics sv mixed registry {} specs @
        add_incompatible_range_diagnostics sv mixed registry groups @
        add_cycle_diagnostics specs registry @
        add_conflicting_source_diagnostics specs registry))"

section \<open>The import graph\<close>

definition package_imports :: "PackageRegistry \<Rightarrow> string \<Rightarrow> string \<Rightarrow> bool" where
  "package_imports registry a b \<longleftrightarrow> b \<in> registry_packages registry \<and>
    (\<exists>m \<in> set (pr_manifests registry). pm_name m = a \<and> b \<in> id_source_package ` set (pm_imports m))"

lemma set_imports_of: "b \<in> set (imports_of registry a) \<longleftrightarrow> package_imports registry a b"
  by (auto simp: imports_of_def package_imports_def)

definition graph_of :: "PackageRegistry \<Rightarrow> string set \<Rightarrow> import_graph \<Rightarrow> bool" where
  "graph_of registry X graph \<longleftrightarrow> bt_inv graph \<and>
    (\<forall>p. bt_get graph p = (if p \<in> X then Some (imports_of registry p) else None))"

lemma graph_of_insert:
  "graph_of registry X graph \<Longrightarrow> graph_of registry (insert p X) (bt_insert p (imports_of registry p) graph)"
  by (auto simp: graph_of_def)

abbreviation reached :: "PackageRegistry \<Rightarrow> string set \<Rightarrow> string set" where
  "reached registry P \<equiv> {x. \<exists>p \<in> P. (package_imports registry)\<^sup>*\<^sup>* p x}"

lemma reached_closed:
  assumes "\<forall>p \<in> Y. \<forall>i. package_imports registry p i \<longrightarrow> i \<in> Y \<union> P"
    and "(package_imports registry)\<^sup>*\<^sup>* p x" "p \<in> Y"
  shows "x \<in> Y \<union> reached registry P"
  using assms(2,3)
proof (induction rule: rtranclp_induct)
  case (step y z)
  then consider "y \<in> Y" | q where "q \<in> P" "(package_imports registry)\<^sup>*\<^sup>* q y" by blast
  then show ?case
  proof cases
    case 1
    with assms(1)[rule_format, OF 1 step.hyps(2)] show ?thesis by auto
  next
    case 2
    with step.hyps(2) have "(package_imports registry)\<^sup>*\<^sup>* q z" by (simp add: rtranclp.rtrancl_into_rtrancl)
    with 2(1) show ?thesis by blast
  qed
qed simp

lemma dependency_loop_exact:
  assumes "graph_of registry X graph" "\<And>p i. p \<in> X \<Longrightarrow> package_imports registry p i \<Longrightarrow> i \<in> X \<union> set pending"
  shows "graph_of registry (X \<union> reached registry (set pending)) (dependency_loop registry pending graph)"
  using assms
proof (induction registry pending graph arbitrary: X rule: dependency_loop.induct)
  case (2 registry package pending graph)
  have key: "bt_contains_key graph p \<longleftrightarrow> p \<in> X" for p
    using 2(3) by (simp add: graph_of_def bt_contains_key_def)
  show ?case
  proof (cases "package \<in> X")
    case True
    have next_closed: "i \<in> X \<union> set pending" if "p \<in> X" "package_imports registry p i" for p i
      using 2(4)[OF that] True by auto
    have "reached registry (set (package # pending)) \<subseteq> X \<union> reached registry (set pending)"
    proof -
      have "\<forall>p \<in> X. \<forall>i. package_imports registry p i \<longrightarrow> i \<in> X \<union> set pending" using next_closed by blast
      from reached_closed[OF this _ True] show ?thesis by auto
    qed
    then have "X \<union> reached registry (set (package # pending)) = X \<union> reached registry (set pending)" by auto
    with 2(1)[of X] 2(3) next_closed True key show ?thesis by simp
  next
    case False
    let ?fresh = "filter (\<lambda>i. \<not> bt_contains_key graph i) (imports_of registry package)"
    let ?pending = "rev ?fresh @ pending"
    have next_closed: "i \<in> insert package X \<union> set ?pending" if "p \<in> insert package X" "package_imports registry p i" for p i
      using 2(4)[of p i] that by (auto simp: key set_imports_of)
    have "insert package X \<union> reached registry (set ?pending) = X \<union> reached registry (set (package # pending))"
    proof (intro set_eqI iffI)
      fix x assume "x \<in> insert package X \<union> reached registry (set ?pending)"
      then consider "x = package" | "x \<in> X" | q where "q \<in> set ?fresh" "(package_imports registry)\<^sup>*\<^sup>* q x"
        | q where "q \<in> set pending" "(package_imports registry)\<^sup>*\<^sup>* q x" by auto
      then show "x \<in> X \<union> reached registry (set (package # pending))"
      proof cases
        case 3
        then have "package_imports registry package q" by (simp add: set_imports_of)
        from converse_rtranclp_into_rtranclp[of "package_imports registry", OF this 3(2)]
        have "(package_imports registry)\<^sup>*\<^sup>* package x" .
        then show ?thesis by simp
      qed auto
    next
      fix x assume "x \<in> X \<union> reached registry (set (package # pending))"
      then consider "x \<in> X" | "(package_imports registry)\<^sup>*\<^sup>* package x" | "x \<in> reached registry (set pending)" by auto
      then show "x \<in> insert package X \<union> reached registry (set ?pending)"
      proof cases
        case 2
        have "\<forall>p \<in> insert package X. \<forall>i. package_imports registry p i \<longrightarrow> i \<in> insert package X \<union> set ?pending"
          using next_closed by blast
        from reached_closed[OF this 2] show ?thesis by blast
      qed auto
    qed
    with 2(2)[of "insert package X"] graph_of_insert[OF 2(3)] next_closed False key show ?thesis by simp
  qed
qed simp

section \<open>The cycles that are found\<close>

definition edge :: "import_graph \<Rightarrow> string \<Rightarrow> string \<Rightarrow> bool" where
  "edge graph a b \<longleftrightarrow> (\<exists>is. bt_get graph a = Some is \<and> b \<in> set is)"

definition simple_cycle :: "(string \<Rightarrow> string \<Rightarrow> bool) \<Rightarrow> string list \<Rightarrow> bool" where
  "simple_cycle E c \<longleftrightarrow> c \<noteq> [] \<and> distinct c \<and> successively E c \<and> E (last c) (hd c)"

inductive found :: "import_graph \<Rightarrow> string \<Rightarrow> string list \<Rightarrow> string list \<Rightarrow> bool" for graph where
  found_close: "p \<in> set path \<Longrightarrow> found graph p path (dropWhile (\<lambda>x. x \<noteq> p) path)"
| found_step: "p \<notin> set path \<Longrightarrow> edge graph p i \<Longrightarrow> found graph i (path @ [p]) c \<Longrightarrow> found graph p path c"

inductive_simps found_iff: "found graph p path c"

lemma fst_emit_cycle [simp]: "fst (emit_cycle n st) = insert n (fst st)"
  by (auto simp: emit_cycle_def)

lemma fst_fold_union:
  assumes "\<And>x st. x \<in> set xs \<Longrightarrow> fst (f x st) = fst st \<union> F x"
  shows "fst (fold f xs st) = fst st \<union> (\<Union>x \<in> set xs. F x)"
  using assms by (induction xs arbitrary: st) auto

lemma visit_cycles_found:
  "fst (visit_cycles p graph path st) = fst st \<union> normalized_cycle ` {c. found graph p path c}"
proof (induction p graph path st rule: visit_cycles.induct)
  case (1 p graph path st)
  show ?case
  proof (cases "p \<in> set path")
    case True
    then have "{c. found graph p path c} = {dropWhile (\<lambda>x. x \<noteq> p) path}" by (auto simp: found_iff[of graph p path])
    with True show ?thesis by (simp add: visit_cycles.simps[of p])
  next
    case False
    show ?thesis
    proof (cases "bt_get graph p")
      case None
      then have "{c. found graph p path c} = {}" using False by (auto simp: found_iff[of graph p path] edge_def)
      with False None show ?thesis by (simp add: visit_cycles.simps[of p])
    next
      case (Some imps)
      have eq: "{c. found graph p path c} = (\<Union>i \<in> set imps. {c. found graph i (path @ [p]) c})"
        using False Some by (auto simp: found_iff[of graph p path] edge_def)
      have "fst (fold (\<lambda>i. visit_cycles i graph (path @ [p])) imps st) =
          fst st \<union> (\<Union>i \<in> set imps. normalized_cycle ` {c. found graph i (path @ [p]) c})"
        using 1[OF False Some] by (intro fst_fold_union) simp
      with False Some show ?thesis by (simp add: visit_cycles.simps[of p] eq image_UN)
    qed
  qed
qed

lemma found_sound:
  assumes "found graph p path c" "distinct path" "successively (edge graph) path" "path \<noteq> [] \<longrightarrow> edge graph (last path) p"
  shows "simple_cycle (edge graph) c"
  using assms
proof (induction rule: found.induct)
  case (found_close p path)
  let ?c = "dropWhile (\<lambda>x. x \<noteq> p) path"
  have path: "path = takeWhile (\<lambda>x. x \<noteq> p) path @ ?c" by simp
  have ne: "?c \<noteq> []" using found_close(1) by (simp add: dropWhile_eq_Nil_conv)
  have "hd ?c = p" using hd_dropWhile[OF ne] by simp
  moreover have "last ?c = last path" using path ne by (metis last_appendR)
  moreover have "successively (edge graph) ?c" using path found_close(3) by (metis successively_append_iff)
  moreover have "distinct ?c" using found_close(2) by (rule distinct_dropWhile)
  ultimately show ?case using ne found_close by (auto simp: simple_cycle_def)
next
  case (found_step p path i c)
  then show ?case by (auto simp: successively_append_iff)
qed

lemma found_complete:
  assumes c: "simple_cycle (edge graph) c"
  shows "found graph (hd c) [] c"
proof -
  have "ys \<noteq> [] \<Longrightarrow> xs @ ys = c \<Longrightarrow> found graph (hd ys) xs c" for xs ys
  proof (induction ys arbitrary: xs)
    case (Cons y ys)
    have fresh: "y \<notin> set xs" using c Cons.prems(2) by (auto simp: simple_cycle_def)
    show ?case
    proof (cases ys)
      case Nil
      then have "edge graph y (hd c)" using c Cons.prems(2) by (auto simp: simple_cycle_def)
      moreover have "dropWhile (\<lambda>x. x \<noteq> hd c) c = c" using c by (cases c) (auto simp: simple_cycle_def)
      moreover have "hd c \<in> set c" using c by (simp add: simple_cycle_def)
      ultimately have "found graph (hd c) (xs @ [y]) c"
        using found_close[of "hd c" c graph] Cons.prems(2) Nil by simp
      with found_step[OF fresh \<open>edge graph y (hd c)\<close>] show ?thesis by simp
    next
      case (Cons z zs)
      then have "edge graph y z" using c Cons.prems(2) by (auto simp: simple_cycle_def successively_append_iff)
      moreover have "found graph z (xs @ [y]) c" using Cons.IH[of "xs @ [y]"] Cons Cons.prems(2) by simp
      ultimately show ?thesis using found_step[OF fresh] by simp
    qed
  qed simp
  from this[of c "[]"] c show ?thesis by (simp add: simple_cycle_def)
qed

definition reported :: "cycle_state \<Rightarrow> bool" where
  "reported st \<longleftrightarrow> distinct (snd st) \<and> set (snd st) = dependency_cycle ` fst st"

lemma dependency_cycle_inj: "dependency_cycle n = dependency_cycle n' \<longleftrightarrow> n = n'"
  by (auto simp: dependency_cycle_def diagnostic_def)

lemma reported_emit: "reported st \<Longrightarrow> reported (emit_cycle n st)"
  by (auto simp: reported_def emit_cycle_def dependency_cycle_inj)

lemma reported_visit: "reported st \<Longrightarrow> reported (visit_cycles p graph path st)"
proof (induction p graph path st rule: visit_cycles.induct)
  case (1 p graph path st)
  show ?case
  proof (cases "p \<in> set path")
    case True
    then show ?thesis using 1(2) by (simp add: visit_cycles.simps[of p] reported_emit)
  next
    case False
    have "reported (fold (\<lambda>i. visit_cycles i graph (path @ [p])) js st)" if "bt_get graph p = Some imps" "set js \<subseteq> set imps" for js imps
      using that(2) 1(2) 1(1)[OF False that(1)]
      by (induction js arbitrary: st) auto
    with False 1(2) show ?thesis by (auto simp: visit_cycles.simps[of p] split: option.splits)
  qed
qed

section \<open>The scope of the diagnostics\<close>

abbreviation scope :: "DependencySpec list \<Rightarrow> PackageRegistry \<Rightarrow> string set" where
  "scope specs registry \<equiv> reached registry (ds_name ` set specs \<inter> registry_packages registry)"

lemma keys_graph_of: "graph_of registry X graph \<Longrightarrow> set (map fst graph) = X"
proof -
  assume g: "graph_of registry X graph"
  have "k \<in> fst ` set graph \<longleftrightarrow> k \<in> X" for k
    using g map_of_eq_None_iff[of graph k] by (auto simp: graph_of_def bt_get_def split: if_splits)
  then show ?thesis by auto
qed

lemma dependency_graph_exact: "graph_of registry (reached registry (set roots)) (dependency_graph_for roots registry)"
  using dependency_loop_exact[of registry "{}" "[]" "rev roots"]
  by (simp add: dependency_graph_for_def graph_of_def)

lemma set_diagnostic_scope: "set (diagnostic_package_scope specs registry) = scope specs registry"
  unfolding diagnostic_package_scope_def keys_graph_of[OF dependency_graph_exact] by auto

lemma reached_idem: "reached registry (reached registry P) = reached registry P"
  by (auto intro: rtranclp_trans)

lemma fold_keeps_pred: "(\<And>x s. P s \<Longrightarrow> P (f x s)) \<Longrightarrow> P s \<Longrightarrow> P (fold f xs s)"
  by (induction xs arbitrary: s) auto

lemma successively_within:
  assumes "\<And>a b. F a b \<longleftrightarrow> a \<in> S \<and> E a b"
  shows "successively F c \<longleftrightarrow> successively E c \<and> set (butlast c) \<subseteq> S"
  by (induction c rule: induct_list012) (auto simp: assms)

lemma simple_cycle_within:
  assumes "\<And>a b. F a b \<longleftrightarrow> a \<in> S \<and> E a b"
  shows "simple_cycle F c \<longleftrightarrow> simple_cycle E c \<and> set c \<subseteq> S"
proof (cases "c = []")
  case False
  then have "set c \<subseteq> S \<longleftrightarrow> set (butlast c) \<subseteq> S \<and> last c \<in> S"
    using append_butlast_last_id[OF False] by (metis Un_subset_iff empty_set insert_subset list.simps(15) set_append empty_subsetI)
  then show ?thesis unfolding simple_cycle_def successively_within[of F S E, OF assms] assms by blast
qed (simp add: simple_cycle_def)

lemma cycle_diagnostics_set:
  "distinct (add_cycle_diagnostics specs registry)"
  "set (add_cycle_diagnostics specs registry) =
    {dependency_cycle (normalized_cycle c) | c. simple_cycle (package_imports registry) c \<and> set c \<subseteq> scope specs registry}"
proof -
  define graph where "graph = dependency_graph_for (diagnostic_package_scope specs registry) registry"
  define st where "st = fold (\<lambda>root. visit_cycles root graph []) (map fst graph) ({}, [])"
  have diags: "add_cycle_diagnostics specs registry = snd st"
    by (simp add: add_cycle_diagnostics_def graph_def st_def Let_def)
  have graph: "graph_of registry (scope specs registry) graph"
    using dependency_graph_exact[of registry "diagnostic_package_scope specs registry"]
    unfolding graph_def set_diagnostic_scope reached_idem .
  have edge: "edge graph a b \<longleftrightarrow> a \<in> scope specs registry \<and> package_imports registry a b" for a b
    using graph by (auto simp: edge_def graph_of_def set_imports_of)
  have "reported ({}, [])" by (simp add: reported_def)
  then have rep: "reported st" unfolding st_def by (rule fold_keeps_pred[where P = reported, rotated]) (rule reported_visit)
  have "fst st = (\<Union>root \<in> scope specs registry. normalized_cycle ` {c. found graph root [] c})"
    using fst_fold_union[of "map fst graph" "\<lambda>root. visit_cycles root graph []" _ "({}, [])", OF visit_cycles_found]
    unfolding st_def keys_graph_of[OF graph] by simp
  also have "\<dots> = normalized_cycle ` {c. simple_cycle (edge graph) c}"
  proof -
    have "hd c \<in> scope specs registry" if "simple_cycle (edge graph) c" for c
    proof (cases c)
      case (Cons x xs)
      then have "edge graph x (hd (xs @ [x]))" using that by (cases xs) (auto simp: simple_cycle_def)
      then show ?thesis using edge Cons by simp
    qed (use that in \<open>simp add: simple_cycle_def\<close>)
    note start = this
    have "(\<Union>root \<in> scope specs registry. {c. found graph root [] c}) = {c. simple_cycle (edge graph) c}"
    proof (intro set_eqI iffI)
      fix c assume "c \<in> (\<Union>root \<in> scope specs registry. {c. found graph root [] c})"
      then obtain root where "found graph root [] c" by blast
      from found_sound[OF this] show "c \<in> {c. simple_cycle (edge graph) c}" by simp
    next
      fix c assume "c \<in> {c. simple_cycle (edge graph) c}"
      then have c: "simple_cycle (edge graph) c" by simp
      from found_complete[OF c] start[OF c]
      show "c \<in> (\<Union>root \<in> scope specs registry. {c. found graph root [] c})" by blast
    qed
    then show ?thesis by (simp only: image_UN[symmetric])
  qed
  finally have fst_st: "fst st = normalized_cycle ` {c. simple_cycle (edge graph) c}" .
  have cyc: "simple_cycle (edge graph) c \<longleftrightarrow> simple_cycle (package_imports registry) c \<and> set c \<subseteq> scope specs registry" for c
    using edge by (intro simple_cycle_within)
  show "distinct (add_cycle_diagnostics specs registry)" using rep by (simp add: diags reported_def)
  show "set (add_cycle_diagnostics specs registry) =
    {dependency_cycle (normalized_cycle c) | c. simple_cycle (package_imports registry) c \<and> set c \<subseteq> scope specs registry}"
    using rep unfolding diags reported_def fst_st cyc by blast
qed

section \<open>Cycles up to rotation\<close>

lemma rotate_hd_unique:
  assumes "distinct c" "c \<noteq> []" "hd (rotate i c) = hd (rotate j c)"
  shows "rotate i c = rotate j c"
proof -
  have "c ! (i mod length c) = c ! (j mod length c)"
    using assms by (simp add: hd_rotate_conv_nth)
  then have "i mod length c = j mod length c"
    using assms(1,2) by (simp add: nth_eq_iff_index_eq)
  then show ?thesis by (metis rotate_conv_mod)
qed

lemma normalized_cycle_rotate:
  assumes "c \<noteq> []"
  obtains i where "normalized_cycle c = rotate i c @ [Min (set c)]" "hd (rotate i c) = Min (set c)"
proof -
  let ?p = "\<lambda>x. x \<noteq> Min (set c)" and ?i = "length (takeWhile (\<lambda>x. x \<noteq> Min (set c)) c)"
  have "Min (set c) \<in> set c" using assms by simp
  then have "dropWhile ?p c \<noteq> []" by (simp add: dropWhile_eq_Nil_conv)
  moreover have "length c = ?i + length (dropWhile ?p c)" by (metis length_append takeWhile_dropWhile_id)
  ultimately have less: "?i < length c" by simp
  then have at: "c ! ?i = Min (set c)" using nth_length_takeWhile[of ?p c] by blast
  have rot: "rotate ?i c = drop ?i c @ take ?i c" using less by (simp add: rotate_drop_take)
  have hd: "hd (rotate ?i c) = Min (set c)" using assms less at by (simp add: hd_rotate_conv_nth)
  with that[of ?i] rot assms show ?thesis by (simp add: normalized_cycle_def Let_def)
qed

lemma normalized_cycle_eq_iff:
  assumes "distinct c" "c \<noteq> []" "c' \<noteq> []"
  shows "normalized_cycle c = normalized_cycle c' \<longleftrightarrow> (\<exists>n. c' = rotate n c)"
proof -
  obtain i where i: "normalized_cycle c = rotate i c @ [Min (set c)]" "hd (rotate i c) = Min (set c)"
    using normalized_cycle_rotate[OF assms(2)] .
  obtain j where j: "normalized_cycle c' = rotate j c' @ [Min (set c')]" "hd (rotate j c') = Min (set c')"
    using normalized_cycle_rotate[OF assms(3)] .
  show ?thesis
  proof
    assume "normalized_cycle c = normalized_cycle c'"
    then have eq: "rotate j c' = rotate i c" using i j by simp
    then have len: "length c' = length c" by (metis length_rotate)
    have "j mod length c' < length c'" using assms(3) by simp
    then have "length c' - j mod length c' + j = length c' + length c' * (j div length c')"
      using mult_div_mod_eq[of "length c'" j] by linarith
    then have "(length c' - j mod length c' + j) mod length c' = 0" by simp
    then have "c' = rotate (length c' - j mod length c') (rotate j c')"
      by (simp only: rotate_rotate rotate_id)
    then show "\<exists>n. c' = rotate n c" using eq by (metis rotate_rotate)
  next
    assume "\<exists>n. c' = rotate n c"
    then obtain n where n: "c' = rotate n c" by blast
    then have "hd (rotate (j + n) c) = hd (rotate i c)" using i j by (simp add: rotate_rotate)
    from rotate_hd_unique[OF assms(1,2) this] show "normalized_cycle c = normalized_cycle c'"
      using i j n by (simp add: rotate_rotate)
  qed
qed

section \<open>What the report contains\<close>

lemma rd_diagnostic [simp]:
  "rd_kind (diagnostic k p v cs vs r) = k" "rd_package (diagnostic k p v cs vs r) = p"
  "rd_related_packages (diagnostic k p v cs vs r) = r"
  by (simp_all add: diagnostic_def)

lemma diagnostic_kinds:
  "d \<in> set (add_duplicate_package_diagnostics groups) \<Longrightarrow> rd_kind d = DuplicatePackage"
  "d \<in> set (add_missing_diagnostics sv mixed reg emitted specs) \<Longrightarrow> rd_kind d \<in> {InvalidRequirement, MissingPackage, MissingVersion}"
  "d \<in> set (add_incompatible_range_diagnostics sv mixed reg groups) \<Longrightarrow> rd_kind d = IncompatibleVersionRange"
  "d \<in> set (add_cycle_diagnostics specs reg) \<Longrightarrow> rd_kind d = DependencyCycle"
  "d \<in> set (add_conflicting_source_diagnostics specs reg) \<Longrightarrow> rd_kind d = ConflictingSource"
proof -
  show "d \<in> set (add_missing_diagnostics sv mixed reg emitted specs) \<Longrightarrow> rd_kind d \<in> {InvalidRequirement, MissingPackage, MissingVersion}"
    by (induction specs arbitrary: emitted) (auto simp: Let_def split: if_splits sum.splits)
  show "d \<in> set (add_cycle_diagnostics specs reg) \<Longrightarrow> rd_kind d = DependencyCycle"
    unfolding cycle_diagnostics_set(2) by (auto simp: dependency_cycle_def)
qed (auto simp: add_duplicate_package_diagnostics_def add_incompatible_range_diagnostics_def
    add_conflicting_source_diagnostics_def Let_def split: if_splits)

lemma no_cycle_kind:
  assumes "\<And>d. d \<in> set xs \<Longrightarrow> rd_kind d \<noteq> DependencyCycle"
  shows "filter (\<lambda>d. rd_kind d = DependencyCycle) xs = []"
  using assms by (simp add: filter_empty_conv)

lemma report_cycles:
  "filter (\<lambda>d. rd_kind d = DependencyCycle) (conflict_diagnostics sv mixed specs reg) =
    sort_key diagnostic_sort_key (add_cycle_diagnostics specs reg)"
proof -
  let ?f = "filter (\<lambda>d. rd_kind d = DependencyCycle)"
  have "?f (add_cycle_diagnostics specs reg) = add_cycle_diagnostics specs reg"
    using diagnostic_kinds(4)[of _ specs reg] by (simp add: filter_id_conv)
  moreover have "?f (add_duplicate_package_diagnostics groups) = []" for groups
    by (rule no_cycle_kind) (simp add: diagnostic_kinds(1))
  moreover have "?f (add_missing_diagnostics sv mixed reg {} specs) = []"
  proof (rule no_cycle_kind)
    fix d assume "d \<in> set (add_missing_diagnostics sv mixed reg {} specs)"
    from diagnostic_kinds(2)[OF this] show "rd_kind d \<noteq> DependencyCycle" by auto
  qed
  moreover have "?f (add_incompatible_range_diagnostics sv mixed reg groups) = []" for groups
    by (rule no_cycle_kind) (simp add: diagnostic_kinds(3))
  moreover have "?f (add_conflicting_source_diagnostics specs reg) = []"
    by (rule no_cycle_kind) (simp add: diagnostic_kinds(5))
  ultimately show ?thesis
    unfolding conflict_diagnostics_def Let_def filter_sort filter_append by simp
qed

definition import_cycles :: "DependencySpec list \<Rightarrow> PackageRegistry \<Rightarrow> string list set" where
  "import_cycles specs reg = {c. simple_cycle (package_imports reg) c \<and> set c \<subseteq> scope specs reg}"

text \<open>
  C4. The search for import cycles ends and is exact: the report holds one
  diagnostic for every simple cycle, up to rotation, among the packages the
  specifications reach through imports, each of them once, and nothing else.
\<close>

theorem cycle_diagnostics_exact:
  "distinct (filter (\<lambda>d. rd_kind d = DependencyCycle) (conflict_diagnostics sv mixed specs reg)) \<and>
    set (filter (\<lambda>d. rd_kind d = DependencyCycle) (conflict_diagnostics sv mixed specs reg)) =
      (\<lambda>c. dependency_cycle (normalized_cycle c)) ` import_cycles specs reg \<and>
    (\<forall>c \<in> import_cycles specs reg. \<forall>c' \<in> import_cycles specs reg.
      dependency_cycle (normalized_cycle c) = dependency_cycle (normalized_cycle c') \<longleftrightarrow> (\<exists>n. c' = rotate n c))"
proof (intro conjI ballI)
  show "distinct (filter (\<lambda>d. rd_kind d = DependencyCycle) (conflict_diagnostics sv mixed specs reg))"
    unfolding report_cycles using cycle_diagnostics_set(1) by (simp add: distinct_sort)
  show "set (filter (\<lambda>d. rd_kind d = DependencyCycle) (conflict_diagnostics sv mixed specs reg)) =
      (\<lambda>c. dependency_cycle (normalized_cycle c)) ` import_cycles specs reg"
    unfolding report_cycles set_sort cycle_diagnostics_set(2) import_cycles_def by blast
  fix c c' assume "c \<in> import_cycles specs reg" "c' \<in> import_cycles specs reg"
  then show "dependency_cycle (normalized_cycle c) = dependency_cycle (normalized_cycle c') \<longleftrightarrow> (\<exists>n. c' = rotate n c)"
    unfolding dependency_cycle_inj import_cycles_def by (intro normalized_cycle_eq_iff) (simp_all add: simple_cycle_def)
qed

definition cyclic_registry :: PackageRegistry where
  "cyclic_registry = \<lparr>pr_manifests =
     [(plain_manifest ''a'' ''1.0.0'' Assumed)\<lparr>pm_imports := [\<lparr>id_source_package = ''b'', id_items = [], id_version_constraint = None\<rparr>]\<rparr>,
      (plain_manifest ''b'' ''1.0.0'' Assumed)\<lparr>pm_imports := [\<lparr>id_source_package = ''a'', id_items = [], id_version_constraint = None\<rparr>]\<rparr>],
     pr_signed_packages = [], pr_yanked = []\<rparr>"

theorem cycle_diagnostics_exact_witness:
  "dependency_cycle [''a'', ''b'', ''a''] \<in> set (conflict_diagnostics triple_semver id [plain_spec ''b'' ''1.0.0''] cyclic_registry) \<and>
    (\<exists>n. [''a'', ''b''] = rotate n [''b'', ''a''])"
proof -
  let ?specs = "[plain_spec ''b'' ''1.0.0'']"
  have names: "registry_packages cyclic_registry = {''a'', ''b''}"
    by (auto simp: registry_packages_def cyclic_registry_def plain_manifest_def)
  have edges: "package_imports cyclic_registry ''a'' ''b''" "package_imports cyclic_registry ''b'' ''a''"
    unfolding package_imports_def names by (simp_all add: cyclic_registry_def plain_manifest_def)
  have "''b'' \<in> scope ?specs cyclic_registry"
    by (simp add: names plain_spec_def)
  moreover have "''a'' \<in> scope ?specs cyclic_registry"
    using r_into_rtranclp[of "package_imports cyclic_registry", OF edges(2)] by (simp add: names plain_spec_def)
  ultimately have mem: "[''a'', ''b''] \<in> import_cycles ?specs cyclic_registry" "[''b'', ''a''] \<in> import_cycles ?specs cyclic_registry"
    using edges by (simp_all add: import_cycles_def simple_cycle_def)
  have norm: "normalized_cycle [''a'', ''b''] = [''a'', ''b'', ''a'']" "normalized_cycle [''b'', ''a''] = [''a'', ''b'', ''a'']"
    by code_simp+
  note exact = cycle_diagnostics_exact[of triple_semver id ?specs cyclic_registry]
  have "dependency_cycle (normalized_cycle [''a'', ''b'']) \<in>
      (\<lambda>c. dependency_cycle (normalized_cycle c)) ` import_cycles ?specs cyclic_registry"
    using mem(1) by (rule imageI)
  then have "dependency_cycle [''a'', ''b'', ''a''] \<in> set (filter (\<lambda>d. rd_kind d = DependencyCycle)
      (conflict_diagnostics triple_semver id ?specs cyclic_registry))"
    unfolding norm using exact by blast
  moreover have "\<exists>n. [''a'', ''b''] = rotate n [''b'', ''a'']"
    using exact mem norm by metis
  ultimately show ?thesis by simp
qed

section \<open>Predicting failures\<close>

lemma set_registry_versions:
  assumes "\<And>xs. set (mixed xs) = set xs"
  shows "set (registry_versions_for sv mixed package reg) = {pm_version m | m. m \<in> set (pr_manifests reg) \<and> pm_name m = package}"
  using assms by (auto simp: registry_versions_for_def canonical_versions_def)

definition unresolvable :: "('ver::linorder, 'req) Semver \<Rightarrow> PackageRegistry \<Rightarrow> DependencySpec \<Rightarrow> bool" where
  "unresolvable sv reg spec \<longleftrightarrow>
    (case find_best_match sv (ds_name spec) (ds_version_constraint spec) reg of Inr (Some _) \<Rightarrow> False | _ \<Rightarrow> True)"

lemma unresolvable_iff:
  "unresolvable sv reg spec \<longleftrightarrow>
    (case parse_requirement sv (ds_version_constraint spec) of
       Inl _ \<Rightarrow> True
     | Inr req \<Rightarrow> \<forall>m \<in> set (pr_manifests reg). \<forall>v. \<not> candidate sv (ds_name spec) req m v)"
proof (cases "parse_requirement sv (ds_version_constraint spec)")
  case (Inr req)
  obtain r where r: "find_best_match sv (ds_name spec) (ds_version_constraint spec) reg = Ok r"
    using Inr by (simp add: find_best_match_def)
  with find_best_match_iff(2)[OF Inr, of "ds_name spec" reg] Inr show ?thesis
    by (cases r) (auto simp: unresolvable_def)
qed (simp add: unresolvable_def find_best_match_def)

lemma missing_entry:
  assumes "\<And>xs. set (mixed xs) = set xs"
  shows "(case parse_requirement sv (ds_version_constraint s) of Inl _ \<Rightarrow> True
      | Inr _ \<Rightarrow> registry_versions_for sv mixed (ds_name s) reg = [] \<or>
          \<not> list_ex (\<lambda>version. version_matches_constraint sv version (ds_version_constraint s))
              (registry_versions_for sv mixed (ds_name s) reg)) \<longleftrightarrow> unresolvable sv reg s"
proof (cases "parse_requirement sv (ds_version_constraint s)")
  case (Inr req)
  let ?versions = "registry_versions_for sv mixed (ds_name s) reg"
  let ?met = "\<lambda>version. version_matches_constraint sv version (ds_version_constraint s)"
  have "?met (pm_version m) \<longleftrightarrow> (\<exists>v. sv_parse sv (pm_version m) = Some v \<and> sv_req_matches sv req v)" for m :: PackageManifest
    by (simp add: version_matches_constraint_def Inr split: option.split)
  then have "list_ex ?met ?versions \<longleftrightarrow> (\<exists>m \<in> set (pr_manifests reg). \<exists>v. candidate sv (ds_name s) req m v)"
    unfolding list_ex_iff set_registry_versions[OF assms] candidate_def by auto
  moreover have "?versions = [] \<Longrightarrow> \<not> list_ex ?met ?versions" by simp
  ultimately have "(?versions = [] \<or> \<not> list_ex ?met ?versions) \<longleftrightarrow>
      (\<forall>m \<in> set (pr_manifests reg). \<forall>v. \<not> candidate sv (ds_name s) req m v)"
    by blast
  then show ?thesis by (simp only: unresolvable_iff Inr sum.case)
qed (simp add: unresolvable_iff)

lemma rd_package_missing_entry:
  "rd_package ` set (case r of
      Inl issue \<Rightarrow> [diagnostic InvalidRequirement n None [] [] [f issue]]
    | Inr _ \<Rightarrow> if none then [diagnostic MissingPackage n None cs [] []]
        else if \<not> met then [diagnostic MissingVersion n None cs vs []] else []) =
    (if case r of Inl _ \<Rightarrow> True | Inr _ \<Rightarrow> none \<or> \<not> met then {n} else {})"
  by (cases r) simp_all

lemma add_missing_Cons:
  assumes "\<And>xs. set (mixed xs) = set xs"
  shows "rd_package ` set (add_missing_diagnostics sv mixed reg emitted (s # specs)) =
    (if (ds_name s, ds_version_constraint s) \<in> emitted
     then rd_package ` set (add_missing_diagnostics sv mixed reg emitted specs)
     else (if unresolvable sv reg s then {ds_name s} else {}) \<union>
       rd_package ` set (add_missing_diagnostics sv mixed reg (insert (ds_name s, ds_version_constraint s) emitted) specs))"
  unfolding add_missing_diagnostics.simps Let_def if_distrib[of set] if_distrib[of "image rd_package"] set_append image_Un
    rd_package_missing_entry missing_entry[OF assms] ..

lemma add_missing_exact:
  assumes "\<And>xs. set (mixed xs) = set xs"
  shows "rd_package ` set (add_missing_diagnostics sv mixed reg emitted specs) =
    ds_name ` {s \<in> set specs. (ds_name s, ds_version_constraint s) \<notin> emitted \<and> unresolvable sv reg s}"
proof (induction specs arbitrary: emitted)
  case (Cons s specs)
  let ?key = "\<lambda>s. (ds_name s, ds_version_constraint s)"
  let ?left = "\<lambda>specs E. {t \<in> set specs. ?key t \<notin> E \<and> unresolvable sv reg t}"
  have same: "ds_name t = ds_name s" "unresolvable sv reg t \<longleftrightarrow> unresolvable sv reg s" if "?key t = ?key s" for t
    using that by (simp_all add: unresolvable_def)
  show ?case
  proof (cases "?key s \<in> emitted")
    case True
    then have "?left (s # specs) emitted = ?left specs emitted" by auto
    with True show ?thesis unfolding add_missing_Cons[OF assms] Cons.IH by simp
  next
    case False
    have "ds_name ` ?left (s # specs) emitted =
        (if unresolvable sv reg s then {ds_name s} else {}) \<union> ds_name ` ?left specs (insert (?key s) emitted)" (is "?l = ?r")
    proof
      show "?l \<subseteq> ?r"
      proof
        fix n assume "n \<in> ?l"
        then obtain t where t: "n = ds_name t" "t = s \<or> t \<in> set specs" "?key t \<notin> emitted" "unresolvable sv reg t" by auto
        show "n \<in> ?r"
        proof (cases "?key t = ?key s")
          case True
          with same[OF True] t show ?thesis by simp
        next
          case False
          with t have "t \<in> ?left specs (insert (?key s) emitted)" by auto
          with t(1) show ?thesis by blast
        qed
      qed
      show "?r \<subseteq> ?l" using False by (cases "unresolvable sv reg s") auto
    qed
    with False show ?thesis unfolding add_missing_Cons[OF assms] Cons.IH by simp
  qed
qed simp

text \<open>
  C21. The report names, as missing or with an invalid requirement, exactly the
  packages with a specification for which the resolver's own search finds no
  manifest, whatever order the sort gives version strings that do not parse.
\<close>

theorem missing_diagnostics_exact:
  assumes "\<And>xs. set (mixed xs) = set xs"
  shows "rd_package ` {d \<in> set (conflict_diagnostics sv mixed specs reg).
      rd_kind d \<in> {InvalidRequirement, MissingPackage, MissingVersion}} =
    {ds_name s | s. s \<in> set specs \<and>
      (\<forall>m. find_best_match sv (ds_name s) (ds_version_constraint s) reg \<noteq> Ok (Some m))}"
proof -
  have "{d \<in> set (conflict_diagnostics sv mixed specs reg). rd_kind d \<in> {InvalidRequirement, MissingPackage, MissingVersion}} =
      set (add_missing_diagnostics sv mixed reg {} specs)"
    using diagnostic_kinds(1,3) diagnostic_kinds(2)[of _ sv mixed reg "{}" specs]
      diagnostic_kinds(4)[of _ specs reg] diagnostic_kinds(5)[of _ specs reg]
    unfolding conflict_diagnostics_def Let_def set_sort set_append by fastforce
  moreover have "unresolvable sv reg s \<longleftrightarrow>
      (\<forall>m. find_best_match sv (ds_name s) (ds_version_constraint s) reg \<noteq> Ok (Some m))" for s
    by (simp add: unresolvable_def split: sum.split option.split)
  ultimately show ?thesis
    using add_missing_exact[OF assms, of sv reg "{}" specs] by auto
qed

theorem missing_diagnostics_exact_witness:
  "rd_package ` {d \<in> set (conflict_diagnostics triple_semver id [plain_spec ''b'' ''1.0.0'', plain_spec ''c'' ''1.0.0''] cyclic_registry).
      rd_kind d \<in> {InvalidRequirement, MissingPackage, MissingVersion}} = {''c''}"
proof -
  have found: "\<not> Option.is_none (case find_best_match triple_semver ''b'' ''1.0.0'' cyclic_registry of Inr r \<Rightarrow> r | _ \<Rightarrow> None)"
    and missed: "Option.is_none (case find_best_match triple_semver ''c'' ''1.0.0'' cyclic_registry of Inr r \<Rightarrow> r | _ \<Rightarrow> None)"
    by code_simp+
  have "\<exists>m. find_best_match triple_semver ''b'' ''1.0.0'' cyclic_registry = Ok (Some m)"
    using found by (auto split: sum.splits simp: Option.is_none_def)
  moreover have "\<forall>m. find_best_match triple_semver ''c'' ''1.0.0'' cyclic_registry \<noteq> Ok (Some m)"
    using missed by (auto split: sum.splits simp: Option.is_none_def)
  moreover have "ds_name (plain_spec n c) = n" "ds_version_constraint (plain_spec n c) = c" for n c
    by (simp_all add: plain_spec_def)
  ultimately have "{ds_name s | s. s \<in> set [plain_spec ''b'' ''1.0.0'', plain_spec ''c'' ''1.0.0''] \<and>
      (\<forall>m. find_best_match triple_semver (ds_name s) (ds_version_constraint s) cyclic_registry \<noteq> Ok (Some m))} = {''c''}"
    by (intro equalityI subsetI) (auto intro!: exI[of _ "plain_spec ''c'' ''1.0.0''"])
  then show ?thesis
    using missing_diagnostics_exact[of id triple_semver "[plain_spec ''b'' ''1.0.0'', plain_spec ''c'' ''1.0.0'']" cyclic_registry]
    by simp
qed

end
