(* ===== verification/Semantic_Graph.thy ===== *)
theory Semantic_Graph
  imports AIL_Prelude
begin

text \<open>
  The data model of \<^verbatim>\<open>ail-core\<close>
  (\<^verbatim>\<open>crates/ail-core/src/semantic_graph/types.rs\<close>): node and edge kinds,
  the value types attached to nodes, and the records \<open>GraphNode\<close>,
  \<open>GraphEdge\<close> and \<open>SemanticGraph\<close>. Enum variants keep the source's names and
  are referred to as \<open>NodeKind.Module\<close>; record fields carry a prefix for their
  struct, since the structs share field names. Text is a list of bytes.
\<close>

section \<open>Identities, node kinds, edge kinds\<close>

text \<open>\<^verbatim>\<open>NodeRef(u32)\<close>, a transparent newtype with the order of the number.\<close>

type_synonym NodeRef = u32

datatype NodeKind =
    Module | Function | Type | Effect | Capability | Contract | Invariant | Test
  | Boundary | Package | Interface | Impl | EffectAlias | Import | Export
  | VersionConstraint | CapabilityExport | ContractExport

datatype EdgeKind =
    Calls | DynCalls | Reads | Writes | Emits | DependsOn | Proves | BreaksIfChanged
  | Consumes | Releases | SpawnedBy | ChildOf | SafeCapability

section \<open>Storage identity and trust\<close>

record ContentHash = ch_hex :: string

record Provenance = pv_change_id :: string

record SchemaRef = sr_version :: string

datatype TrustLevel = Verified | Assumed | Unverified | Unsafe | Custom string

definition trust_as_str :: "TrustLevel \<Rightarrow> string" where
  "trust_as_str l =
     (case l of
        TrustLevel.Verified \<Rightarrow> ''verified''
      | TrustLevel.Assumed \<Rightarrow> ''assumed''
      | TrustLevel.Unverified \<Rightarrow> ''unverified''
      | TrustLevel.Unsafe \<Rightarrow> ''unsafe''
      | TrustLevel.Custom s \<Rightarrow> s)"

definition trust_from_str_compat :: "string \<Rightarrow> TrustLevel" where
  "trust_from_str_compat s =
     (if s = ''verified'' then TrustLevel.Verified
      else if s = ''assumed'' then TrustLevel.Assumed
      else if s = ''unverified'' then TrustLevel.Unverified
      else if s = ''unsafe'' then TrustLevel.Unsafe
      else TrustLevel.Custom s)"

record TrustMetadata =
  tm_level :: TrustLevel
  tm_tags :: "string list"

record Span =
  sp_source :: string
  sp_start :: u32
  sp_end :: u32

section \<open>Semantic facts\<close>

record ContractClauses =
  cc_requires :: "string list"
  cc_ensures :: "string list"

record RuntimeCheckMeta =
  rc_predicate :: string
  rc_hash :: string

record TypeFacts =
  tf_nominal :: string
  tf_generics :: "string list"

datatype GenericParamKind = TypeParam | EffectParam | CapabilityParam | ConstParam

record AssociatedTypeBinding =
  at_name :: string
  at_ty :: string

record WhereConstraint =
  wc_interface :: string
  wc_target_param :: "string option"
  wc_associated_types :: "AssociatedTypeBinding list"

record GenericParamDecl =
  gp_name :: string
  gp_kind :: GenericParamKind
  gp_required_constraints :: "WhereConstraint list"

record ParamDecl =
  pd_name :: string
  pd_ty :: string

record InterfaceImplMeta =
  ii_interface :: string
  ii_associated_types :: "AssociatedTypeBinding list"
  ii_is_adapter :: bool

datatype RefinementStatus = Proven | RuntimeChecked | Assumed | Unverified | Failed

record RefinementRef =
  rr_base_type :: string
  rr_predicate :: string
  rr_status :: RefinementStatus
  rr_erased :: bool

record ConstraintSet =
  cs_has_eq :: bool
  cs_has_ord :: bool
  cs_has_hash :: bool
  cs_has_partial_ord :: bool
  cs_extras :: "string list"

record TypeArgBinding =
  ta_param :: string
  ta_ty :: string

record EffectArgBinding =
  ea_param :: string
  ea_effects :: "string list"

record CapabilityArgBinding =
  ca_param :: string
  ca_caps :: "string list"

record EffectRow = er_effects :: "string list"

record CapabilityReqs = cr_caps :: "string list"

section \<open>Change-language metadata\<close>

datatype Visibility = Public | Private | Internal

record Binding =
  bi_name :: string
  bi_implementation :: string
  bi_profile :: "string option"

record InferredFact =
  if_kind :: string
  if_value :: string

record GeneratedArtifact =
  ga_kind :: string
  ga_source :: "string option"

record Assertion =
  as_kind :: string
  as_value :: string

datatype WorkflowState = Draft | Locked | Approved | Rejected | Verified | Migrating | Refactoring

record HandlerMeta =
  hm_handled_caps :: "string list"
  hm_internal_effects :: "string list"
  hm_satisfies_contract :: "string option"

section \<open>Nodes, edges, graphs\<close>

record GraphNode =
  gn_id :: NodeRef
  gn_kind :: NodeKind
  gn_name :: string
  gn_type_facts :: "TypeFacts option"
  gn_effect_row :: "EffectRow option"
  gn_capability_reqs :: "CapabilityReqs option"
  gn_contract_clauses :: "ContractClauses option"
  gn_runtime_checks :: "RuntimeCheckMeta list option"
  gn_content_hash :: "ContentHash option"
  gn_provenance :: "Provenance option"
  gn_schema :: "SchemaRef option"
  gn_trust_metadata :: "TrustMetadata option"
  gn_generic_params :: "GenericParamDecl list option"
  gn_params :: "ParamDecl list option"
  gn_return_type :: "string option"
  gn_body_expr :: "string option"
  gn_interface_impls :: "InterfaceImplMeta list option"
  gn_refinement_ref :: "RefinementRef option"
  gn_constraint_set :: "ConstraintSet option"
  gn_visibility :: "Visibility option"
  gn_bindings :: "Binding list"
  gn_inferred :: "InferredFact list"
  gn_derived_impls :: "string list"
  gn_generated_artifacts :: "GeneratedArtifact list"
  gn_assertions :: "Assertion list"
  gn_workflow_state :: "WorkflowState option"
  gn_handler_meta :: "HandlerMeta option"
  gn_span :: "Span option"
  gn_stable_id :: "string option"

definition new_node :: "NodeRef \<Rightarrow> NodeKind \<Rightarrow> string \<Rightarrow> GraphNode" where
  "new_node i k n =
     \<lparr>gn_id = i, gn_kind = k, gn_name = n, gn_type_facts = None, gn_effect_row = None,
      gn_capability_reqs = None, gn_contract_clauses = None, gn_runtime_checks = None,
      gn_content_hash = None, gn_provenance = None, gn_schema = None,
      gn_trust_metadata = None, gn_generic_params = None, gn_params = None,
      gn_return_type = None, gn_body_expr = None, gn_interface_impls = None,
      gn_refinement_ref = None, gn_constraint_set = None, gn_visibility = None,
      gn_bindings = [], gn_inferred = [], gn_derived_impls = [],
      gn_generated_artifacts = [], gn_assertions = [], gn_workflow_state = None,
      gn_handler_meta = None, gn_span = None, gn_stable_id = None\<rparr>"

record GraphEdge =
  ge_source :: NodeRef
  ge_target :: NodeRef
  ge_kind :: EdgeKind
  ge_call_args :: "string list option"
  ge_type_arg_bindings :: "TypeArgBinding list option"
  ge_effect_arg_bindings :: "EffectArgBinding list option"
  ge_capability_arg_bindings :: "CapabilityArgBinding list option"

definition new_edge :: "NodeRef \<Rightarrow> NodeRef \<Rightarrow> EdgeKind \<Rightarrow> GraphEdge" where
  "new_edge s t k =
     \<lparr>ge_source = s, ge_target = t, ge_kind = k, ge_call_args = None,
      ge_type_arg_bindings = None, ge_effect_arg_bindings = None,
      ge_capability_arg_bindings = None\<rparr>"

record SemanticGraph =
  sg_nodes :: "GraphNode list"
  sg_edges :: "GraphEdge list"

lemma new_node_sel [simp]:
  "gn_id (new_node i k n) = i" "gn_kind (new_node i k n) = k" "gn_name (new_node i k n) = n"
  "gn_effect_row (new_node i k n) = None" "gn_capability_reqs (new_node i k n) = None"
  "gn_return_type (new_node i k n) = None" "gn_body_expr (new_node i k n) = None"
  by (simp_all add: new_node_def)

lemma new_edge_sel [simp]:
  "ge_source (new_edge s t k) = s" "ge_target (new_edge s t k) = t" "ge_kind (new_edge s t k) = k"
  by (simp_all add: new_edge_def)

abbreviation node_ids :: "SemanticGraph \<Rightarrow> NodeRef list" where
  "node_ids g \<equiv> map gn_id (sg_nodes g)"

section \<open>Properties\<close>

text \<open>
  The textual form of a trust level determines it: reading back the text of
  any text yields that text, and a level survives the round trip exactly when it
  is not a custom tag that spells one of the four canonical levels.
\<close>

lemma trust_level_roundtrip:
  "trust_as_str (trust_from_str_compat s) = s \<and>
   (trust_from_str_compat (trust_as_str l) = l) =
     (l \<notin> TrustLevel.Custom ` {''verified'', ''assumed'', ''unverified'', ''unsafe''})"
  by (cases l) (auto simp: trust_as_str_def trust_from_str_compat_def)

end
