(* ===== verification/Graph_Validation.thy ===== *)
theory Graph_Validation
  imports Semantic_Graph
begin

text \<open>
  Structural and semantic validation of a graph
  (\<^verbatim>\<open>crates/ail-core/src/semantic_graph/validation.rs\<close>): \<open>validate\<close> stops at
  the first error, \<open>validate_full\<close> collects all of them. The abstract
  specification is \<open>graph_wf\<close>: node references are unique and no edge dangles.
\<close>

section \<open>Model\<close>

datatype DanglingRole = Source | Target

datatype GraphValidationError =
    DuplicateRef NodeRef
  | DanglingEdge NodeRef DanglingRole
  | EffectRowNoEmitsEdge NodeRef
  | CapabilityReqsMissingNode NodeRef string

text \<open>Pass 1 of \<open>validate\<close>: the set of known references, or the first duplicate.\<close>

fun validate_nodes ::
  "NodeRef set \<Rightarrow> GraphNode list \<Rightarrow> (GraphValidationError, NodeRef set) result" where
  "validate_nodes seen [] = Inr seen"
| "validate_nodes seen (n # ns) =
     (if gn_id n \<in> seen then Inl (DuplicateRef (gn_id n))
      else validate_nodes (insert (gn_id n) seen) ns)"

text \<open>Pass 2 of \<open>validate\<close>: every endpoint is known.\<close>

fun validate_edges ::
  "NodeRef set \<Rightarrow> GraphEdge list \<Rightarrow> (GraphValidationError, unit) result" where
  "validate_edges seen [] = Inr ()"
| "validate_edges seen (e # es) =
     (if ge_source e \<notin> seen then Inl (DanglingEdge (ge_source e) Source)
      else if ge_target e \<notin> seen then Inl (DanglingEdge (ge_target e) Target)
      else validate_edges seen es)"

definition validate :: "SemanticGraph \<Rightarrow> (GraphValidationError, unit) result" where
  "validate g = rbind (validate_nodes {} (sg_nodes g)) (\<lambda>seen. validate_edges seen (sg_edges g))"

text \<open>The four passes of \<open>validate_full\<close>.\<close>

fun full_nodes :: "NodeRef set \<Rightarrow> GraphNode list \<Rightarrow> GraphValidationError list \<times> NodeRef set" where
  "full_nodes seen [] = ([], seen)"
| "full_nodes seen (n # ns) =
     (let (errs, seen') = full_nodes (insert (gn_id n) seen) ns
      in ((if gn_id n \<in> seen then [DuplicateRef (gn_id n)] else []) @ errs, seen'))"

definition full_edges :: "NodeRef set \<Rightarrow> GraphEdge list \<Rightarrow> GraphValidationError list" where
  "full_edges seen es =
     concat (map (\<lambda>e.
       (if ge_source e \<notin> seen then [DanglingEdge (ge_source e) Source] else []) @
       (if ge_target e \<notin> seen then [DanglingEdge (ge_target e) Target] else [])) es)"

definition has_declared_effects :: "GraphNode \<Rightarrow> bool" where
  "has_declared_effects n =
     (case gn_effect_row n of None \<Rightarrow> False | Some r \<Rightarrow> er_effects r \<noteq> [])"

definition has_emits :: "SemanticGraph \<Rightarrow> GraphNode \<Rightarrow> bool" where
  "has_emits g n =
     list_ex (\<lambda>e. ge_source e = gn_id n \<and> ge_kind e = EdgeKind.Emits) (sg_edges g)"

definition full_effects :: "SemanticGraph \<Rightarrow> GraphValidationError list" where
  "full_effects g =
     concat (map (\<lambda>n. if has_declared_effects n \<and> \<not> has_emits g n
                      then [EffectRowNoEmitsEdge (gn_id n)] else []) (sg_nodes g))"

definition capability_names :: "SemanticGraph \<Rightarrow> string set" where
  "capability_names g =
     set (map gn_name (filter (\<lambda>n. gn_kind n = NodeKind.Capability) (sg_nodes g)))"

definition required_caps :: "GraphNode \<Rightarrow> string list" where
  "required_caps n = (case gn_capability_reqs n of None \<Rightarrow> [] | Some r \<Rightarrow> cr_caps r)"

definition full_caps :: "SemanticGraph \<Rightarrow> GraphValidationError list" where
  "full_caps g =
     concat (map (\<lambda>n. concat (map (\<lambda>c.
         if c \<notin> capability_names g then [CapabilityReqsMissingNode (gn_id n) c] else [])
       (required_caps n))) (sg_nodes g))"

definition validate_full :: "SemanticGraph \<Rightarrow> GraphValidationError list" where
  "validate_full g =
     (let (dups, seen) = full_nodes {} (sg_nodes g)
      in dups @ full_edges seen (sg_edges g) @ full_effects g @ full_caps g)"

section \<open>Specification\<close>

definition edge_closed :: "NodeRef set \<Rightarrow> GraphEdge \<Rightarrow> bool" where
  "edge_closed ids e = (ge_source e \<in> ids \<and> ge_target e \<in> ids)"

definition graph_wf :: "SemanticGraph \<Rightarrow> bool" where
  "graph_wf g = (distinct (node_ids g) \<and>
     list_all (edge_closed (set (node_ids g))) (sg_edges g))"

definition effects_coherent :: "SemanticGraph \<Rightarrow> bool" where
  "effects_coherent g =
     list_all (\<lambda>n. has_declared_effects n \<longrightarrow> has_emits g n) (sg_nodes g)"

definition caps_consistent :: "SemanticGraph \<Rightarrow> bool" where
  "caps_consistent g =
     list_all (\<lambda>n. set (required_caps n) \<subseteq> capability_names g) (sg_nodes g)"

lemmas graph_wf_unfold [graph_simps] = graph_wf_def edge_closed_def list_all_iff

section \<open>The passes against the specification\<close>

lemma validate_nodes_Ok_iff:
  "validate_nodes seen ns = Inr seen' \<longleftrightarrow>
     distinct (map gn_id ns) \<and> seen \<inter> set (map gn_id ns) = {} \<and>
     seen' = seen \<union> set (map gn_id ns)"
  by (induction seen ns rule: validate_nodes.induct) auto

lemma validate_edges_Ok_iff:
  "validate_edges seen es = Inr u \<longleftrightarrow> list_all (edge_closed seen) es"
  by (induction seen es rule: validate_edges.induct) (auto simp: edge_closed_def)

lemma validate_Ok_iff: "validate g = Inr u \<longleftrightarrow> graph_wf g"
  by (auto simp: validate_def rbind_Ok_iff validate_nodes_Ok_iff validate_edges_Ok_iff
      graph_wf_def)

lemma full_nodes_seen: "snd (full_nodes seen ns) = seen \<union> set (map gn_id ns)"
  by (induction seen ns rule: full_nodes.induct) (auto split: prod.splits)

lemma full_nodes_Nil_iff:
  "fst (full_nodes seen ns) = [] \<longleftrightarrow>
     distinct (map gn_id ns) \<and> seen \<inter> set (map gn_id ns) = {}"
  by (induction seen ns rule: full_nodes.induct) (auto split: prod.splits)

lemma full_nodes_first:
  "validate_nodes seen ns = Inl e \<Longrightarrow> \<exists>es. fst (full_nodes seen ns) = e # es"
  by (induction seen ns rule: validate_nodes.induct) (auto split: if_splits prod.splits)

lemma full_edges_Nil_iff: "full_edges seen es = [] \<longleftrightarrow> list_all (edge_closed seen) es"
  by (auto simp: full_edges_def edge_closed_def list_all_iff split: if_splits)

lemma full_edges_first:
  "validate_edges seen es = Inl e \<Longrightarrow> \<exists>es'. full_edges seen es = e # es'"
  by (induction seen es rule: validate_edges.induct) (auto simp: full_edges_def split: if_splits)

lemma full_effects_Nil_iff: "full_effects g = [] \<longleftrightarrow> effects_coherent g"
  by (auto simp: full_effects_def effects_coherent_def list_all_iff)

lemma full_caps_Nil_iff: "full_caps g = [] \<longleftrightarrow> caps_consistent g"
  by (auto simp: full_caps_def caps_consistent_def list_all_iff split: if_splits)

lemma validate_full_split:
  "validate_full g =
     fst (full_nodes {} (sg_nodes g)) @ full_edges (set (node_ids g)) (sg_edges g) @
     full_effects g @ full_caps g"
  by (simp add: validate_full_def full_nodes_seen[of "{}", simplified, symmetric] split: prod.splits)

section \<open>Properties\<close>

text \<open>
  C29. \<open>validate\<close> accepts a graph exactly when its node references are pairwise
  distinct and both endpoints of every edge are references of nodes of the graph.
\<close>

theorem validate_accepts_wf:
  "validate g = Inr () \<longleftrightarrow>
     distinct (map gn_id (sg_nodes g)) \<and>
     ge_source ` set (sg_edges g) \<union> ge_target ` set (sg_edges g) \<subseteq> gn_id ` set (sg_nodes g)"
  by (auto simp: validate_Ok_iff graph_simps)

text \<open>
  \<open>validate_full\<close> reports no error exactly when the graph is well formed,
  every node with a non-empty effect row has an outgoing \<open>Emits\<close> edge, and
  every required capability is the name of a \<open>Capability\<close> node.
\<close>

lemma validate_full_empty_iff:
  "validate_full g = [] \<longleftrightarrow> graph_wf g \<and> effects_coherent g \<and> caps_consistent g"
  by (auto simp: validate_full_split full_nodes_Nil_iff full_edges_Nil_iff full_effects_Nil_iff
      full_caps_Nil_iff graph_wf_def)

text \<open>
  The two validators agree on structural errors: an error returned by
  \<open>validate\<close> is the first entry of \<open>validate_full\<close>.
\<close>

lemma validate_error_is_first:
  assumes "validate g = Inl e"
  shows "\<exists>es. validate_full g = e # es"
proof (cases "validate_nodes {} (sg_nodes g)")
  case (Inl e')
  with assms have "e' = e" by (simp add: validate_def)
  with full_nodes_first[OF Inl] show ?thesis by (auto simp: validate_full_split)
next
  case (Inr seen)
  then have "fst (full_nodes {} (sg_nodes g)) = []" and seen: "seen = set (node_ids g)"
    by (auto simp: validate_nodes_Ok_iff full_nodes_Nil_iff)
  moreover have "validate_edges seen (sg_edges g) = Inl e"
    using assms Inr by (simp add: validate_def)
  ultimately show ?thesis using full_edges_first by (fastforce simp: validate_full_split)
qed

lemma validate_error_is_first_witness:
  "\<exists>es. validate_full \<lparr>sg_nodes = [new_node 0 NodeKind.Function ''f'', new_node 0 NodeKind.Type ''t''],
       sg_edges = []\<rparr> = DuplicateRef 0 # es"
  by (rule validate_error_is_first) (simp add: validate_def)

end
