(* ===== verification/Graph_Index.thy ===== *)
theory Graph_Index
  imports Graph_Validation
begin

text \<open>
  The adjacency index over a graph (\<^verbatim>\<open>crates/ail-core/src/graph_index.rs\<close>):
  one pass over the edges fills a forward and a backward ordered map.
\<close>

record GraphIndex =
  gi_forward :: "(NodeRef, NodeRef list) btree_map"
  gi_backward :: "(NodeRef, NodeRef list) btree_map"

text \<open>\<^verbatim>\<open>map.entry(k).or_default().push(v)\<close>\<close>

definition push_entry :: "NodeRef \<Rightarrow> NodeRef \<Rightarrow> (NodeRef, NodeRef list) btree_map
    \<Rightarrow> (NodeRef, NodeRef list) btree_map" where
  "push_entry k v m = bt_modify k (\<lambda>xs. xs @ [v]) (bt_or_insert k [] m)"

definition index_build :: "SemanticGraph \<Rightarrow> GraphIndex" where
  "index_build g =
     fold (\<lambda>e ix. \<lparr>gi_forward = push_entry (ge_source e) (ge_target e) (gi_forward ix),
                   gi_backward = push_entry (ge_target e) (ge_source e) (gi_backward ix)\<rparr>)
       (sg_edges g) \<lparr>gi_forward = [], gi_backward = []\<rparr>"

definition callees :: "GraphIndex \<Rightarrow> NodeRef \<Rightarrow> NodeRef list" where
  "callees ix r = (case bt_get (gi_forward ix) r of None \<Rightarrow> [] | Some xs \<Rightarrow> xs)"

definition callers :: "GraphIndex \<Rightarrow> NodeRef \<Rightarrow> NodeRef list" where
  "callers ix r = (case bt_get (gi_backward ix) r of None \<Rightarrow> [] | Some xs \<Rightarrow> xs)"

section \<open>The index holds exactly the edges\<close>

definition entry_list :: "(NodeRef, NodeRef list) btree_map \<Rightarrow> NodeRef \<Rightarrow> NodeRef list" where
  "entry_list m k = (case bt_get m k of None \<Rightarrow> [] | Some xs \<Rightarrow> xs)"

lemma entry_list_push [simp]:
  "entry_list (push_entry k v m) k' = entry_list m k' @ (if k' = k then [v] else [])"
  by (auto simp: entry_list_def push_entry_def split: option.splits)

lemma index_fold_lists:
  fixes ix :: GraphIndex
  defines "add \<equiv> \<lambda>e ix. \<lparr>gi_forward = push_entry (ge_source e) (ge_target e) (gi_forward ix),
                   gi_backward = push_entry (ge_target e) (ge_source e) (gi_backward ix)\<rparr>"
  shows "entry_list (gi_forward (fold add es ix)) r =
           entry_list (gi_forward ix) r @ map ge_target (filter (\<lambda>e. ge_source e = r) es)"
    and "entry_list (gi_backward (fold add es ix)) r =
           entry_list (gi_backward ix) r @ map ge_source (filter (\<lambda>e. ge_target e = r) es)"
  by (induction es arbitrary: ix) (auto simp: add_def)

lemma callees_build:
  "callees (index_build g) r = map ge_target (filter (\<lambda>e. ge_source e = r) (sg_edges g))"
  using index_fold_lists(1)[of "sg_edges g" "\<lparr>gi_forward = [], gi_backward = []\<rparr>" r]
  by (simp add: callees_def index_build_def entry_list_def)

lemma callers_build:
  "callers (index_build g) r = map ge_source (filter (\<lambda>e. ge_target e = r) (sg_edges g))"
  using index_fold_lists(2)[of "sg_edges g" "\<lparr>gi_forward = [], gi_backward = []\<rparr>" r]
  by (simp add: callers_def index_build_def entry_list_def)

lemma count_list_map_filter:
  "count_list (map f (filter p xs)) y = length (filter (\<lambda>x. p x \<and> f x = y) xs)"
  by (induction xs) auto

text \<open>
  The index built from a graph lists, for every reference, exactly the
  targets (sources) of its outgoing (incoming) edges, of every kind, in edge
  order and with multiplicity; an absent reference has no neighbours.
\<close>

lemma index_build_correct:
  "callees (index_build g) r = [ge_target e. e \<leftarrow> sg_edges g, ge_source e = r] \<and>
   callers (index_build g) r = [ge_source e. e \<leftarrow> sg_edges g, ge_target e = r]"
proof -
  have "concat (map (\<lambda>x. if p x then [f x] else []) xs) = map f (filter p xs)"
    for p :: "GraphEdge \<Rightarrow> bool" and f :: "GraphEdge \<Rightarrow> NodeRef" and xs
    by (induction xs) auto
  then show ?thesis by (simp add: callees_build callers_build)
qed

text \<open>
  Forward and backward adjacency are dual: a node occurs among the callees
  of another as often as that other occurs among its callers.
\<close>

lemma index_duality:
  "count_list (callees (index_build g) s) t = count_list (callers (index_build g) t) s"
  by (simp add: callees_build callers_build count_list_map_filter conj_commute)

end
