(* ===== verification/Change_Model.thy ===== *)
theory Change_Model
  imports Graph_Validation AIL_Strings
begin

text \<open>
  The value types of \<^verbatim>\<open>ail-change\<close>: operations and outcomes
  (\<^verbatim>\<open>model.rs\<close>), what the parser produces (\<^verbatim>\<open>parser_types.rs\<close>) and the
  canonical form (\<^verbatim>\<open>canonical/model.rs\<close>). Error texts are values of datatypes
  with one constructor per \<^verbatim>\<open>format!\<close> call. CBOR encoding and BLAKE3 are
  third-party code and parameters of the model, collected in \<open>Codec\<close>.
\<close>

section \<open>External functions\<close>

text \<open>\<^verbatim>\<open>SnapshotId(u64)\<close>, \<^verbatim>\<open>Timestamp(u64)\<close> and \<^verbatim>\<open>BlockHash([u8; 32])\<close>.\<close>

type_synonym SnapshotId = u64
type_synonym Timestamp = u64
type_synonym BlockHash = "u8 list"

section \<open>Operations and change sets\<close>

datatype ChangeSetOp =
    Create
  | Set | Add | Remove | Delete | Disconnect | Rename | Move | Replace
  | Connect | Bind | Expose | Hide | Grant | Revoke
  | Infer | Derive | Generate
  | Assert | Lock | Refactor | Migrate | Approve | Reject | Deprecate | Annotate | Verify

record Codec =
  cbor_node :: "GraphNode \<Rightarrow> u8 list"
  cbor_op :: "ChangeSetOp \<Rightarrow> u8 list"
  blake3 :: "u8 list \<Rightarrow> u8 list"

record ChangeSetMeta =
  me_author :: string
  me_description :: string
  me_timestamp :: Timestamp

record ChangeSet =
  ch_meta :: ChangeSetMeta
  ch_base_snapshot_id :: SnapshotId
  ch_ops :: "ChangeSetOp list"

section \<open>Outcomes\<close>

datatype ConflictReason =
    SameNodeModifiedIncompatibly
  | NodeDeletedWhileModified
  | PublicApiConflict
  | InvariantTouchedConcurrently
  | IncompatibleNodeModification

datatype FailReason =
    AssertExistsFailed NodeRef
  | AssertHashMissing NodeRef
  | AssertHashMismatch NodeRef
  | AssertExistsByNameFailed string
  | AssertHashByNameMissing string
  | AssertHashByNameMismatch string
  | AssertContextMissing string
  | AssertContextMismatch string
  | InvariantViolated GraphValidationError

datatype ChangeSetOutcome =
    Applied
  | RebaseRequired SnapshotId
  | Failed FailReason
  | ConflictIrresolvable ConflictReason

section \<open>Preconditions and payloads\<close>

datatype Precondition =
    AssertExists NodeRef
  | AssertHash NodeRef BlockHash
  | AssertExistsByName string
  | AssertHashByName string BlockHash
  | AssertContext string "string option"

datatype OpPayload =
    CreateNode GraphNode
  | AddEdge GraphEdge
  | RemoveNode NodeRef
  | SetNodeName NodeRef string
  | RemoveNodeByName string
  | RenameNodeByName string string
  | AddEdgeByName string string EdgeKind
  | RemoveEdgeByName string string EdgeKind
  | SetReturnByName string string
  | SetBodyByName string string
  | SetMetadataByName string string string
  | AddParamByName string string string
  | AddEffectByName string string
  | RemoveEffectByName string string
  | AddContractByName string string string
  | RemoveContractByName string string
  | AddCapabilityReqByName string string
  | RemoveCapabilityReqByName string string
  | SetVisibilityByName string Visibility
  | AddBindingByName string Binding
  | AddInferredFactByName string InferredFact
  | AddDerivedImplByName string string
  | AddGeneratedArtifactByName string GeneratedArtifact
  | AddAssertionByName string Assertion
  | SetWorkflowStateByName string WorkflowState
  | Noop

section \<open>Parsed and canonical change sets\<close>

type_synonym OpArgs = "(string, string) btree_map"

record ParsedOp =
  po_kind :: ChangeSetOp
  po_verb :: string
  po_args :: OpArgs

record ChangeComposition =
  co_depends_on :: "string list"
  co_supersedes :: "string list"
  co_conflicts_with :: "string list"
  co_part_of :: "string list"
  co_blocks :: "string list"

definition empty_composition :: ChangeComposition where
  "empty_composition =
     \<lparr>co_depends_on = [], co_supersedes = [], co_conflicts_with = [], co_part_of = [], co_blocks = []\<rparr>"

record ParsedBlock =
  pb_kind :: string
  pb_block_ref :: string
  pb_content :: string
  pb_hash :: "string option"

text \<open>\<^verbatim>\<open>ExpectClaims\<close> and \<^verbatim>\<open>ApprovalRequirements\<close> wrap a list of lines.\<close>

record ParsedChangeSet =
  pc_changeset :: ChangeSet
  pc_preconditions :: "Precondition list"
  pc_parsed_ops :: "ParsedOp list"
  pc_acl_version :: string
  pc_op_schema_version :: "string option"
  pc_graph_schema_version :: "string option"
  pc_core_ir_schema_version :: "string option"
  pc_diagnostics_schema_version :: "string option"
  pc_verification_schema_version :: "string option"
  pc_expect :: "string list option"
  pc_approval :: "string list option"
  pc_composition :: ChangeComposition
  pc_blocks :: "ParsedBlock list"
  pc_verify :: "string list"

definition default_parsed :: ParsedChangeSet where
  "default_parsed =
     \<lparr>pc_changeset = \<lparr>ch_meta = \<lparr>me_author = [], me_description = [], me_timestamp = 0\<rparr>,
                      ch_base_snapshot_id = 0, ch_ops = []\<rparr>,
      pc_preconditions = [], pc_parsed_ops = [], pc_acl_version = ''1.0'',
      pc_op_schema_version = None, pc_graph_schema_version = None,
      pc_core_ir_schema_version = None, pc_diagnostics_schema_version = None,
      pc_verification_schema_version = None, pc_expect = None, pc_approval = None,
      pc_composition = empty_composition, pc_blocks = [], pc_verify = []\<rparr>"

record CanonicalMeta =
  cm_author :: string
  cm_description :: string
  cm_timestamp :: Timestamp

record CanonicalOp =
  op_kind :: ChangeSetOp
  op_verb :: string
  op_args :: OpArgs
  op_payload :: OpPayload
  op_block_hash :: BlockHash

definition default_op :: CanonicalOp where
  "default_op = \<lparr>op_kind = ChangeSetOp.Infer, op_verb = [], op_args = [],
                 op_payload = Noop, op_block_hash = replicate 32 0\<rparr>"

record CanonicalChangeSet =
  cc_meta :: CanonicalMeta
  cc_base_snapshot_id :: SnapshotId
  cc_acl_version :: string
  cc_op_schema_version :: "string option"
  cc_graph_schema_version :: "string option"
  cc_core_ir_schema_version :: "string option"
  cc_diagnostics_schema_version :: "string option"
  cc_verification_schema_version :: "string option"
  cc_preconditions :: "Precondition list"
  cc_ops :: "CanonicalOp list"
  cc_expect :: "string list option"
  cc_approval :: "string list option"
  cc_composition :: ChangeComposition
  cc_blocks :: "ParsedBlock list"
  cc_verify :: "string list"

definition default_canonical :: CanonicalChangeSet where
  "default_canonical =
     \<lparr>cc_meta = \<lparr>cm_author = [], cm_description = [], cm_timestamp = 0\<rparr>,
      cc_base_snapshot_id = 0, cc_acl_version = ''1.0'', cc_op_schema_version = None,
      cc_graph_schema_version = None, cc_core_ir_schema_version = None,
      cc_diagnostics_schema_version = None, cc_verification_schema_version = None,
      cc_preconditions = [], cc_ops = [], cc_expect = None, cc_approval = None,
      cc_composition = empty_composition, cc_blocks = [], cc_verify = []\<rparr>"

section \<open>Phases\<close>

text \<open>\<^verbatim>\<open>phase_order\<close> of \<^verbatim>\<open>canonical.rs\<close>.\<close>

fun phase_order :: "ChangeSetOp \<Rightarrow> nat" where
  "phase_order Create = 0"
| "phase_order Set = 1"
| "phase_order Add = 1"
| "phase_order Remove = 1"
| "phase_order Delete = 1"
| "phase_order Disconnect = 1"
| "phase_order Rename = 1"
| "phase_order Move = 1"
| "phase_order Replace = 1"
| "phase_order Connect = 2"
| "phase_order Bind = 2"
| "phase_order Expose = 2"
| "phase_order Hide = 2"
| "phase_order Grant = 2"
| "phase_order Revoke = 2"
| "phase_order Infer = 3"
| "phase_order Derive = 3"
| "phase_order Generate = 3"
| "phase_order Assert = 4"
| "phase_order Lock = 4"
| "phase_order Refactor = 4"
| "phase_order Migrate = 4"
| "phase_order Approve = 4"
| "phase_order Reject = 4"
| "phase_order Deprecate = 4"
| "phase_order Annotate = 4"
| "phase_order Verify = 4"

lemma phase_order_less: "phase_order k < 5"
  by (cases k) auto

end
