(* ===== verification/Acl_Migrator.thy ===== *)
theory Acl_Migrator
  imports Change_Model
begin

text \<open>
  Version migration of parsed documents
  (\<^verbatim>\<open>crates/ail-change/src/acl_migrator.rs\<close>). The chain of migrators is the
  registered one; its driver is a loop with a termination proof. The lemmas give
  the outcome for every declared version and what a migrated operation is.
\<close>

section \<open>Model\<close>

datatype MigrateError =
    UnknownVersion string
  | MigrationFailed string string string

definition CURRENT_ACL_VERSION :: string where
  "CURRENT_ACL_VERSION = ''1.0''"

text \<open>Removing one key and keeping its value under another, unless that is taken.\<close>

definition rename_arg :: "string \<Rightarrow> string \<Rightarrow> OpArgs \<Rightarrow> OpArgs" where
  "rename_arg k k' args =
     (case bt_get args k of
        None \<Rightarrow> args
      | Some val \<Rightarrow> bt_or_insert k' val (bt_remove k args))"

definition migrate_op_v0_9 :: "ParsedOp \<Rightarrow> ParsedOp" where
  "migrate_op_v0_9 op =
     op\<lparr>po_verb := (if po_verb op = ''create_fn'' then ''create_function''
                    else if po_verb op = ''add_field'' then ''add_param''
                    else po_verb op),
        po_args := rename_arg ''typ'' ''type'' (po_args op)\<rparr>"

definition migrate_v0_9_to_v1_0 :: "ParsedChangeSet \<Rightarrow> (MigrateError, ParsedChangeSet) result" where
  "migrate_v0_9_to_v1_0 pcs = Ok (pcs\<lparr>pc_parsed_ops := map migrate_op_v0_9 (pc_parsed_ops pcs)\<rparr>)"

definition migrate_op_v1_0 :: "ParsedOp \<Rightarrow> ParsedOp" where
  "migrate_op_v1_0 op =
     op\<lparr>po_verb := (if po_verb op = ''set_field'' then ''set_return'' else po_verb op),
        po_args := rename_arg ''return_type'' ''type'' (po_args op)\<rparr>"

definition migrate_v1_0_to_v1_1 :: "ParsedChangeSet \<Rightarrow> (MigrateError, ParsedChangeSet) result" where
  "migrate_v1_0_to_v1_1 pcs = Ok (pcs\<lparr>pc_parsed_ops := map migrate_op_v1_0 (pc_parsed_ops pcs)\<rparr>)"

type_synonym MigratorEntry =
  "string \<times> string \<times> (ParsedChangeSet \<Rightarrow> (MigrateError, ParsedChangeSet) result)"

definition default_migrator_chain :: "MigratorEntry list" where
  "default_migrator_chain =
     [(''0.9'', ''1.0'', migrate_v0_9_to_v1_0),
      (''1.0'', ''1.1'', migrate_v1_0_to_v1_1)]"

text \<open>How many steps of the chain lie ahead of a version.\<close>

definition steps_ahead :: "string \<Rightarrow> nat" where
  "steps_ahead v = (if v = ''0.9'' then 2 else if v = ''1.0'' then 1 else 0)"

function migration_loop ::
  "string \<Rightarrow> string \<Rightarrow> ParsedChangeSet \<Rightarrow> (MigrateError, ParsedChangeSet) result" where
  "migration_loop target current pcs =
     (if current = target then Ok pcs
      else case find (\<lambda>e. fst e = current) default_migrator_chain of
             None \<Rightarrow> Err (UnknownVersion current)
           | Some (from, to, migrator) \<Rightarrow>
               rbind (migrator pcs) (\<lambda>pcs'. migration_loop target to (pcs'\<lparr>pc_acl_version := to\<rparr>)))"
  by pat_completeness auto

termination
  by (relation "measure (\<lambda>(_, current, _). steps_ahead current)")
    (auto simp: default_migrator_chain_def steps_ahead_def split: if_splits)

declare migration_loop.simps [simp del]

definition run_migration_chain ::
  "ParsedChangeSet \<Rightarrow> string \<Rightarrow> (MigrateError, ParsedChangeSet) result" where
  "run_migration_chain pcs target =
     (if pc_acl_version pcs = target then Ok pcs
      else migration_loop target (pc_acl_version pcs) pcs)"

section \<open>Facts\<close>

lemma rename_arg_inv [simp]: "bt_inv args \<Longrightarrow> bt_inv (rename_arg k k' args)"
  by (auto simp: rename_arg_def split: option.split)

lemma rename_arg_get:
  assumes "k \<noteq> k'"
  shows "bt_get (rename_arg k k' args) =
    (bt_get args)(k := None, k' := (case bt_get args k' of Some v \<Rightarrow> Some v | None \<Rightarrow> bt_get args k))"
  using assms by (auto simp: rename_arg_def fun_eq_iff split: option.split)

lemma rename_arg_idem: "k \<noteq> k' \<Longrightarrow> rename_arg k k' (rename_arg k k' args) = rename_arg k k' args"
  by (simp add: rename_arg_def[of k k' "rename_arg k k' args"] rename_arg_get)

lemma migrate_op_v0_9_idem: "migrate_op_v0_9 (migrate_op_v0_9 op) = migrate_op_v0_9 op"
  by (simp add: migrate_op_v0_9_def rename_arg_idem)

lemmas migration_loop_step =
  migration_loop.simps default_migrator_chain_def migrate_v0_9_to_v1_0_def migrate_v1_0_to_v1_1_def

text \<open>Migration changes verbs, arguments and the version, nothing else.\<close>

lemma migrated_parts:
  "run_migration_chain pcs CURRENT_ACL_VERSION = Inr pcs' \<Longrightarrow>
    pc_changeset pcs' = pc_changeset pcs \<and> pc_preconditions pcs' = pc_preconditions pcs \<and>
    length (pc_parsed_ops pcs') = length (pc_parsed_ops pcs)"
  by (auto simp: run_migration_chain_def CURRENT_ACL_VERSION_def migration_loop_step split: if_splits)

section \<open>Properties\<close>

text \<open>
  Bringing a document to the current version always returns: a document at
  the current version is unchanged, a 0.9 document has its operations rewritten
  one by one and its version updated, and every other version is reported as the
  unknown version it declares. No migrator failure occurs.
\<close>

lemma migration_to_current:
  "run_migration_chain pcs CURRENT_ACL_VERSION =
     (if pc_acl_version pcs = ''1.0'' then Ok pcs
      else if pc_acl_version pcs = ''0.9'' then
        Ok (pcs\<lparr>pc_parsed_ops := map migrate_op_v0_9 (pc_parsed_ops pcs), pc_acl_version := ''1.0''\<rparr>)
      else Err (UnknownVersion (pc_acl_version pcs)))"
  by (auto simp: run_migration_chain_def CURRENT_ACL_VERSION_def migration_loop_step)

text \<open>
  The 0.9 rewrite of an operation keeps its kind and every argument other
  than \<open>typ\<close>, whose value is kept under \<open>type\<close> unless \<open>type\<close> is present; it
  leaves neither a deprecated verb nor the key \<open>typ\<close>, keeps the arguments in
  key order, and rewriting twice is rewriting once.
\<close>

lemma migrate_op_spec:
  assumes "bt_inv (po_args op)"
  shows "po_kind (migrate_op_v0_9 op) = po_kind op \<and>
    po_verb (migrate_op_v0_9 op) \<notin> {''create_fn'', ''add_field''} \<and>
    bt_inv (po_args (migrate_op_v0_9 op)) \<and>
    bt_get (po_args (migrate_op_v0_9 op)) =
      (bt_get (po_args op))(''typ'' := None,
         ''type'' := (case bt_get (po_args op) ''type'' of
                        Some v \<Rightarrow> Some v | None \<Rightarrow> bt_get (po_args op) ''typ'')) \<and>
    migrate_op_v0_9 (migrate_op_v0_9 op) = migrate_op_v0_9 op"
  using assms by (simp add: migrate_op_v0_9_idem) (simp add: migrate_op_v0_9_def rename_arg_get)

lemma migrate_op_spec_witness:
  "po_verb (migrate_op_v0_9 \<lparr>po_kind = Create, po_verb = ''create_fn'',
      po_args = [(''id'', ''fn.f''), (''typ'', ''Int'')]\<rparr>) \<notin> {''create_fn'', ''add_field''}"
  using migrate_op_spec[of "\<lparr>po_kind = Create, po_verb = ''create_fn'',
      po_args = [(''id'', ''fn.f''), (''typ'', ''Int'')]\<rparr>"]
  by (simp add: bt_inv_def migrate_op_v0_9_def)

end
