(* ===== verification/Canonical.thy ===== *)
theory Canonical
  imports Acl_Migrator
begin

text \<open>
  Canonicalization of change sets (\<^verbatim>\<open>crates/ail-change/src/canonical.rs\<close>,
  \<^verbatim>\<open>canonical_ops.rs\<close> and the modules below \<^verbatim>\<open>canonical/\<close>): identifier
  normalization, defaults, block hashes, materialization of payloads, expansion
  of \<^verbatim>\<open>infer_boundary\<close> and the two entry points. A \<^verbatim>\<open>usize\<close> position is a
  natural number, narrowed where the source narrows it.
\<close>

section \<open>Identifiers and arguments\<close>

text \<open>\<^verbatim>\<open>char_indices\<close> with the index of the next character.\<close>

fun pascal_to_snake_from :: "nat \<Rightarrow> string \<Rightarrow> string" where
  "pascal_to_snake_from i [] = []"
| "pascal_to_snake_from i (ch # s) =
     (if is_uppercase ch \<and> i > 0 then [CHR ''_''] else []) @
     to_lower_char ch # pascal_to_snake_from (Suc i) s"

definition pascal_to_snake :: "string \<Rightarrow> string" where
  "pascal_to_snake s = pascal_to_snake_from 0 s"

definition normalize_id :: "string \<Rightarrow> string" where
  "normalize_id ident =
     (case find_char (CHR ''.'') ident of
        None \<Rightarrow> ident
      | Some dot \<Rightarrow>
          (let ns = take dot ident;
               loc = drop (dot + 1) ident;
               ns_lower = to_lowercase ns;
               loc_normalized =
                 (if ns_lower \<in> set [''type'', ''handler'', ''boundary'']
                  then replace_char (CHR ''-'') (CHR ''_'') loc
                  else replace_char (CHR ''-'') (CHR ''_'') (pascal_to_snake loc))
           in ns_lower @ ''.'' @ loc_normalized))"

definition ID_ARG_KEYS :: "string list" where
  "ID_ARG_KEYS = [''id'', ''target'', ''source'', ''to'', ''from'']"

definition normalize_op_args :: "OpArgs \<Rightarrow> OpArgs" where
  "normalize_op_args args = fold (\<lambda>key. bt_modify key normalize_id) ID_ARG_KEYS args"

definition materialize_defaults :: "ChangeSetOp \<Rightarrow> string \<Rightarrow> OpArgs \<Rightarrow> OpArgs" where
  "materialize_defaults kind verb args =
     (if kind = Create then
        (let args1 = (if verb = ''create_function'' \<or> verb = ''create_type''
                      then bt_or_insert ''visibility'' ''private'' args else args)
         in if verb = ''create_type'' then bt_or_insert ''derive'' ''none'' args1 else args1)
      else args)"

section \<open>Block hashes\<close>

definition u64_le_bytes :: "u64 \<Rightarrow> u8 list" where
  "u64_le_bytes w = map (\<lambda>i. ucast (drop_bit (8 * i) w)) [0..<8]"

definition block_preimage :: "Codec \<Rightarrow> ChangeSetOp \<Rightarrow> nat \<Rightarrow> u8 list" where
  "block_preimage c op idx = cbor_op c op @ [of_nat (phase_order op)] @ u64_le_bytes (of_nat idx)"

definition compute_block_hash :: "Codec \<Rightarrow> ChangeSetOp \<Rightarrow> nat \<Rightarrow> BlockHash" where
  "compute_block_hash c op idx = blake3 c (block_preimage c op idx)"

section \<open>Payloads\<close>

text \<open>\<^verbatim>\<open>Option::or_else\<close>.\<close>

definition or_else :: "'a option \<Rightarrow> 'a option \<Rightarrow> 'a option" where
  "or_else a b = (case a of None \<Rightarrow> b | Some x \<Rightarrow> Some x)"

definition unwrap_or :: "'a \<Rightarrow> 'a option \<Rightarrow> 'a" where
  "unwrap_or d a = (case a of None \<Rightarrow> d | Some x \<Rightarrow> x)"

definition verb_suffix :: "string \<Rightarrow> string \<Rightarrow> string" where
  "verb_suffix verb prefix =
     (case Option.bind (strip_prefix prefix verb) (strip_prefix ''_'') of
        Some rest \<Rightarrow> (if rest = [] then prefix else rest)
      | None \<Rightarrow> prefix)"

definition inferred_value :: "OpArgs \<Rightarrow> string" where
  "inferred_value args =
     unwrap_or ''pending''
       (or_else (or_else (bt_get args ''type'') (bt_get args ''effect'')) (bt_get args ''value''))"

definition generated_source :: "OpArgs \<Rightarrow> string option" where
  "generated_source args =
     or_else (or_else (bt_get args ''from'') (bt_get args ''language'')) (bt_get args ''audience'')"

definition assertion_value :: "OpArgs \<Rightarrow> string" where
  "assertion_value args = unwrap_or ''true'' (or_else (bt_get args ''hash'') (bt_get args ''value''))"

definition workflow_target :: "OpArgs \<Rightarrow> string option" where
  "workflow_target args =
     or_else (or_else (bt_get args ''target'') (bt_get args ''from'')) (bt_get args ''scope'')"

definition workflow_payload :: "OpArgs \<Rightarrow> WorkflowState \<Rightarrow> OpPayload" where
  "workflow_payload args state =
     (case workflow_target args of None \<Rightarrow> Noop | Some target \<Rightarrow> SetWorkflowStateByName target state)"

definition target_and :: "OpArgs \<Rightarrow> string \<Rightarrow> (string \<times> string) option" where
  "target_and args key =
     (case bt_get args ''target'' of
        None \<Rightarrow> None
      | Some target \<Rightarrow> (case bt_get args key of None \<Rightarrow> None | Some v \<Rightarrow> Some (target, v)))"

definition metadata_arg :: "OpArgs \<Rightarrow> (string \<times> string) option" where
  "metadata_arg args = find (\<lambda>(key, _). key \<notin> set [''target'', ''source'', ''id'']) args"

definition edge_kind :: "string \<Rightarrow> EdgeKind" where
  "edge_kind relation =
     (if relation = ''calls'' then EdgeKind.Calls
      else if relation = ''reads'' then EdgeKind.Reads
      else if relation = ''writes'' then EdgeKind.Writes
      else if relation = ''emits'' then EdgeKind.Emits
      else if relation = ''proves'' then EdgeKind.Proves
      else if relation = ''breaks_if_changed'' then EdgeKind.BreaksIfChanged
      else EdgeKind.DependsOn)"

definition edge_payload :: "OpArgs \<Rightarrow> bool \<Rightarrow> OpPayload" where
  "edge_payload args remove =
     (case (bt_get args ''source'', bt_get args ''target'') of
        (Some source, Some target) \<Rightarrow>
          (let kind = (case bt_get args ''relation'' of
                         None \<Rightarrow> EdgeKind.DependsOn | Some relation \<Rightarrow> edge_kind relation)
           in if remove then RemoveEdgeByName source target kind else AddEdgeByName source target kind)
      | _ \<Rightarrow> Noop)"

definition module_node :: "nat \<Rightarrow> string \<Rightarrow> GraphNode" where
  "module_node idx ident = new_node (of_nat idx) NodeKind.Module ident"

definition type_node :: "nat \<Rightarrow> string \<Rightarrow> GraphNode" where
  "type_node idx ident =
     (new_node (of_nat idx) NodeKind.Type ident)\<lparr>gn_type_facts :=
        Some \<lparr>tf_nominal = last_segment (CHR ''.'') ident, tf_generics = []\<rparr>\<rparr>"

definition function_node :: "Codec \<Rightarrow> nat \<Rightarrow> string \<Rightarrow> OpArgs \<Rightarrow> GraphNode" where
  "function_node c idx ident args =
     (let node = (new_node (of_nat idx) NodeKind.Function ident)
            \<lparr>gn_return_type := bt_get args ''return'', gn_body_expr := bt_get args ''body''\<rparr>
      in case bt_get args ''value'' of
           None \<Rightarrow> node
         | Some v \<Rightarrow>
             (let predicate = ''literal:i64='' @ v
              in node\<lparr>gn_runtime_checks :=
                   Some [\<lparr>rc_predicate = predicate, rc_hash = hex_encode (blake3 c (str_bytes predicate))\<rparr>]\<rparr>))"

definition test_node :: "nat \<Rightarrow> string \<Rightarrow> OpArgs \<Rightarrow> GraphNode" where
  "test_node idx ident args =
     (new_node (of_nat idx) NodeKind.Test ident)
       \<lparr>gn_return_type := Some (unwrap_or ''Bool'' (bt_get args ''return'')),
        gn_body_expr := bt_get args ''body''\<rparr>"

definition capability_node :: "nat \<Rightarrow> string \<Rightarrow> GraphNode" where
  "capability_node idx ident =
     (new_node (of_nat idx) NodeKind.Capability ident)\<lparr>gn_capability_reqs := Some \<lparr>cr_caps = [ident]\<rparr>\<rparr>"

text \<open>The match on kind and verb, by kind; \<open>map_payload\<close> is \<^verbatim>\<open>map(..).unwrap_or(Noop)\<close>.\<close>

definition map_payload :: "('a \<Rightarrow> OpPayload) \<Rightarrow> 'a option \<Rightarrow> OpPayload" where
  "map_payload f a = (case a of None \<Rightarrow> Noop | Some x \<Rightarrow> f x)"

definition create_payload :: "Codec \<Rightarrow> nat \<Rightarrow> string \<Rightarrow> OpArgs \<Rightarrow> OpPayload" where
  "create_payload c idx verb args =
     (if verb = ''create_module'' then
        map_payload (\<lambda>ident. CreateNode (module_node idx ident)) (bt_get args ''id'')
      else if verb = ''create_type'' then
        map_payload (\<lambda>ident. CreateNode (type_node idx ident)) (bt_get args ''id'')
      else if verb = ''create_function'' then
        map_payload (\<lambda>ident. CreateNode (function_node c idx ident args)) (bt_get args ''id'')
      else if verb = ''create_test'' then
        map_payload (\<lambda>ident. CreateNode (test_node idx ident args)) (bt_get args ''id'')
      else if verb = ''create_capability'' then
        map_payload (\<lambda>ident. CreateNode (capability_node idx ident)) (bt_get args ''id'')
      else Noop)"

definition metadata_payload :: "OpArgs \<Rightarrow> OpPayload" where
  "metadata_payload args =
     (case bt_get args ''target'' of
        None \<Rightarrow> Noop
      | Some target \<Rightarrow>
          map_payload (\<lambda>(key, val). SetMetadataByName target key val) (metadata_arg args))"

definition set_payload :: "string \<Rightarrow> OpArgs \<Rightarrow> OpPayload" where
  "set_payload verb args =
     (if verb = ''set_return'' then
        map_payload (\<lambda>(target, ty). SetReturnByName target ty) (target_and args ''type'')
      else if verb = ''set_body'' then
        map_payload (\<lambda>(target, body). SetBodyByName target body) (target_and args ''body'')
      else metadata_payload args)"

definition add_payload :: "string \<Rightarrow> OpArgs \<Rightarrow> OpPayload" where
  "add_payload verb args =
     (if verb = ''add_param'' then
        (case (bt_get args ''target'', bt_get args ''name'', bt_get args ''type'') of
           (Some target, Some name, Some ty) \<Rightarrow> AddParamByName target name ty
         | _ \<Rightarrow> Noop)
      else if verb = ''add_effect'' then
        map_payload (\<lambda>(target, effect). AddEffectByName target effect) (target_and args ''effect'')
      else if verb = ''add_contract'' then
        (case (bt_get args ''target'', bt_get args ''kind'', bt_get args ''rule'') of
           (Some target, Some kind, Some rule) \<Rightarrow> AddContractByName target kind rule
         | _ \<Rightarrow> Noop)
      else Noop)"

definition remove_payload :: "string \<Rightarrow> OpArgs \<Rightarrow> OpPayload" where
  "remove_payload verb args =
     (if verb = ''remove_effect'' then
        map_payload (\<lambda>(target, effect). RemoveEffectByName target effect) (target_and args ''effect'')
      else if verb = ''remove_contract'' then
        map_payload (\<lambda>(target, rule). RemoveContractByName target rule) (target_and args ''rule'')
      else if starts_with verb ''remove_'' then map_payload RemoveNodeByName (bt_get args ''target'')
      else Noop)"

fun materialize_payload ::
  "Codec \<Rightarrow> nat \<Rightarrow> ChangeSetOp \<Rightarrow> string \<Rightarrow> OpArgs \<Rightarrow> OpPayload" where
  "materialize_payload c idx Create verb args = create_payload c idx verb args"
| "materialize_payload c idx Set verb args = set_payload verb args"
| "materialize_payload c idx Replace verb args = metadata_payload args"
| "materialize_payload c idx Add verb args = add_payload verb args"
| "materialize_payload c idx Remove verb args = remove_payload verb args"
| "materialize_payload c idx Delete verb args = map_payload RemoveNodeByName (bt_get args ''target'')"
| "materialize_payload c idx Rename verb args =
     (case (bt_get args ''target'', bt_get args ''name'') of
        (Some target, Some name) \<Rightarrow> RenameNodeByName target name
      | _ \<Rightarrow> Noop)"
| "materialize_payload c idx Move verb args =
     map_payload (\<lambda>(target, val). SetMetadataByName target ''module'' val) (target_and args ''to'')"
| "materialize_payload c idx Connect verb args = edge_payload args False"
| "materialize_payload c idx Disconnect verb args = edge_payload args True"
| "materialize_payload c idx Grant verb args =
     map_payload (\<lambda>(target, capability). AddCapabilityReqByName target capability)
       (target_and args ''capability'')"
| "materialize_payload c idx Revoke verb args =
     map_payload (\<lambda>(target, capability). RemoveCapabilityReqByName target capability)
       (target_and args ''capability'')"
| "materialize_payload c idx Expose verb args =
     map_payload (\<lambda>target. SetVisibilityByName target Visibility.Public) (bt_get args ''target'')"
| "materialize_payload c idx Hide verb args =
     map_payload (\<lambda>target. SetVisibilityByName target Visibility.Private) (bt_get args ''target'')"
| "materialize_payload c idx Bind verb args =
     (case (bt_get args ''capability'', bt_get args ''handler'') of
        (Some capability, Some handler) \<Rightarrow>
          AddBindingByName capability
            \<lparr>bi_name = capability, bi_implementation = handler, bi_profile = bt_get args ''profile''\<rparr>
      | _ \<Rightarrow> Noop)"
| "materialize_payload c idx Infer verb args =
     map_payload (\<lambda>target. AddInferredFactByName target
         \<lparr>if_kind = verb_suffix verb ''infer'', if_value = inferred_value args\<rparr>) (bt_get args ''target'')"
| "materialize_payload c idx Derive verb args =
     map_payload (\<lambda>target. AddDerivedImplByName target (verb_suffix verb ''derive''))
       (bt_get args ''target'')"
| "materialize_payload c idx Generate verb args =
     map_payload (\<lambda>target. AddGeneratedArtifactByName target
         \<lparr>ga_kind = verb_suffix verb ''generate'', ga_source = generated_source args\<rparr>)
       (bt_get args ''target'')"
| "materialize_payload c idx Assert verb args =
     map_payload (\<lambda>target. AddAssertionByName target
         \<lparr>as_kind = verb_suffix verb ''assert'', as_value = assertion_value args\<rparr>)
       (bt_get args ''target'')"
| "materialize_payload c idx Lock verb args = workflow_payload args WorkflowState.Locked"
| "materialize_payload c idx Refactor verb args = workflow_payload args WorkflowState.Refactoring"
| "materialize_payload c idx Migrate verb args = workflow_payload args WorkflowState.Migrating"
| "materialize_payload c idx Approve verb args = workflow_payload args WorkflowState.Approved"
| "materialize_payload c idx Reject verb args = workflow_payload args WorkflowState.Rejected"
| "materialize_payload c idx Verify verb args = workflow_payload args WorkflowState.Verified"
| "materialize_payload c idx Deprecate verb args =
     map_payload (\<lambda>(target, val). SetMetadataByName target ''deprecated_replacement'' val)
       (target_and args ''replacement'')"
| "materialize_payload c idx Annotate verb args =
     (case (bt_get args ''target'', bt_get args ''key'', bt_get args ''value'') of
        (Some target, Some key, Some val) \<Rightarrow> SetMetadataByName target key val
      | _ \<Rightarrow> Noop)"

section \<open>Expansion of inferred boundaries\<close>

definition return_map :: "CanonicalOp list \<Rightarrow> (string, string) btree_map" where
  "return_map ops =
     bt_collect (List.map_filter (\<lambda>op.
       if op_kind op = Create \<and> op_verb op = ''create_function'' then
         (case bt_get (op_args op) ''id'' of
            None \<Rightarrow> None
          | Some target \<Rightarrow>
              (case bt_get (op_args op) ''return'' of None \<Rightarrow> None | Some ty \<Rightarrow> Some (target, ty)))
       else None) ops)"

definition explicit_return_targets :: "CanonicalOp list \<Rightarrow> string set" where
  "explicit_return_targets ops =
     set (List.map_filter (\<lambda>op.
       if op_kind op = Set \<and> op_verb op = ''set_return'' then bt_get (op_args op) ''target'' else None) ops)"

definition synth_set_return :: "Codec \<Rightarrow> string \<Rightarrow> string \<Rightarrow> nat \<Rightarrow> CanonicalOp" where
  "synth_set_return c target ty idx =
     \<lparr>op_kind = Set, op_verb = ''set_return'',
      op_args = bt_insert ''type'' ty (bt_insert ''target'' target []),
      op_payload = SetReturnByName target ty, op_block_hash = compute_block_hash c Set idx\<rparr>"

definition synth_add_effect :: "Codec \<Rightarrow> string \<Rightarrow> string \<Rightarrow> nat \<Rightarrow> CanonicalOp" where
  "synth_add_effect c target effect idx =
     \<lparr>op_kind = Add, op_verb = ''add_effect'',
      op_args = bt_insert ''effect'' effect (bt_insert ''target'' target []),
      op_payload = AddEffectByName target effect, op_block_hash = compute_block_hash c Add idx\<rparr>"

text \<open>One round of the loop: the operations appended for one \<^verbatim>\<open>infer_boundary\<close>.\<close>

definition expand_step ::
  "Codec \<Rightarrow> CanonicalOp list \<Rightarrow> CanonicalOp list \<Rightarrow> CanonicalOp \<Rightarrow> CanonicalOp list" where
  "expand_step c ops extra infer_op =
     (case bt_get (op_args infer_op) ''target'' of
        None \<Rightarrow> extra
      | Some target \<Rightarrow>
          (let base_idx = length ops + length extra;
               return_ty = (if target \<in> explicit_return_targets ops then None
                            else or_else (bt_get (op_args infer_op) ''type'')
                                   (bt_get (return_map ops) target));
               extra1 = extra @ (case return_ty of
                                   None \<Rightarrow> [] | Some ty \<Rightarrow> [synth_set_return c target ty base_idx])
           in extra1 @ (case bt_get (op_args infer_op) ''effect'' of
                          None \<Rightarrow> []
                        | Some effect \<Rightarrow> [synth_add_effect c target effect (base_idx + length extra1)])))"

definition is_infer_boundary :: "CanonicalOp \<Rightarrow> bool" where
  "is_infer_boundary op = (op_kind op = Infer \<and> op_verb op = ''infer_boundary'')"

definition expand_infer_boundary :: "Codec \<Rightarrow> CanonicalOp list \<Rightarrow> CanonicalOp list" where
  "expand_infer_boundary c ops =
     ops @ foldl (expand_step c ops) [] (filter is_infer_boundary ops)"

section \<open>Entry points\<close>

definition materialize_description :: "string \<Rightarrow> string" where
  "materialize_description d = (if d = [] then ''<no description>'' else d)"

definition canonicalize :: "Codec \<Rightarrow> ChangeSet \<Rightarrow> CanonicalChangeSet" where
  "canonicalize c cs =
     \<lparr>cc_meta = \<lparr>cm_author = me_author (ch_meta cs),
                 cm_description = materialize_description (me_description (ch_meta cs)),
                 cm_timestamp = me_timestamp (ch_meta cs)\<rparr>,
      cc_base_snapshot_id = ch_base_snapshot_id cs,
      cc_acl_version = ''1.0'', cc_op_schema_version = None, cc_graph_schema_version = None,
      cc_core_ir_schema_version = None, cc_diagnostics_schema_version = None,
      cc_verification_schema_version = None, cc_preconditions = [],
      cc_ops = map (\<lambda>(idx, op).
          \<lparr>op_kind = op, op_verb = [], op_args = [], op_payload = Noop,
           op_block_hash = compute_block_hash c op idx\<rparr>)
        (enumerate 0 (sort_key phase_order (ch_ops cs))),
      cc_expect = None, cc_approval = None, cc_composition = empty_composition,
      cc_blocks = [], cc_verify = []\<rparr>"

type_synonym op_triple = "ChangeSetOp \<times> string \<times> OpArgs"

definition op_pairs :: "ParsedChangeSet \<Rightarrow> op_triple list" where
  "op_pairs pcs =
     (if pc_parsed_ops pcs = [] then map (\<lambda>k. (k, [], [])) (ch_ops (pc_changeset pcs))
      else map (\<lambda>po. (po_kind po, po_verb po, po_args po)) (pc_parsed_ops pcs))"

definition canonical_args :: "ChangeSetOp \<Rightarrow> string \<Rightarrow> OpArgs \<Rightarrow> OpArgs" where
  "canonical_args kind verb args =
     (let args' = materialize_defaults kind verb (normalize_op_args args)
      in if kind = Infer \<and> starts_with verb ''infer_''
         then bt_or_insert ''infer_pending'' ''true'' args' else args')"

definition canonical_op :: "Codec \<Rightarrow> nat \<times> op_triple \<Rightarrow> CanonicalOp" where
  "canonical_op c p =
     (case p of (idx, kind, verb, args) \<Rightarrow>
        (let args' = canonical_args kind verb args
         in \<lparr>op_kind = kind, op_verb = verb, op_args = args',
             op_payload = materialize_payload c idx kind verb args',
             op_block_hash = compute_block_hash c kind idx\<rparr>))"

definition canonical_core :: "Codec \<Rightarrow> ParsedChangeSet \<Rightarrow> CanonicalOp list" where
  "canonical_core c pcs =
     map (canonical_op c) (enumerate 0 (sort_key (\<lambda>a. phase_order (fst a)) (op_pairs pcs)))"

definition canonicalize_parsed_inner :: "Codec \<Rightarrow> ParsedChangeSet \<Rightarrow> CanonicalChangeSet" where
  "canonicalize_parsed_inner c pcs =
     \<lparr>cc_meta = \<lparr>cm_author = me_author (ch_meta (pc_changeset pcs)),
                 cm_description = materialize_description (me_description (ch_meta (pc_changeset pcs))),
                 cm_timestamp = me_timestamp (ch_meta (pc_changeset pcs))\<rparr>,
      cc_base_snapshot_id = ch_base_snapshot_id (pc_changeset pcs),
      cc_acl_version = pc_acl_version pcs, cc_op_schema_version = pc_op_schema_version pcs,
      cc_graph_schema_version = pc_graph_schema_version pcs,
      cc_core_ir_schema_version = pc_core_ir_schema_version pcs,
      cc_diagnostics_schema_version = pc_diagnostics_schema_version pcs,
      cc_verification_schema_version = pc_verification_schema_version pcs,
      cc_preconditions = pc_preconditions pcs,
      cc_ops = expand_infer_boundary c (canonical_core c pcs),
      cc_expect = pc_expect pcs, cc_approval = pc_approval pcs, cc_composition = pc_composition pcs,
      cc_blocks = pc_blocks pcs, cc_verify = pc_verify pcs\<rparr>"

definition try_canonicalize_parsed ::
  "Codec \<Rightarrow> ParsedChangeSet \<Rightarrow> (MigrateError, CanonicalChangeSet) result" where
  "try_canonicalize_parsed c pcs =
     rbind (if pc_acl_version pcs \<noteq> CURRENT_ACL_VERSION
            then run_migration_chain pcs CURRENT_ACL_VERSION else Ok pcs)
       (\<lambda>pcs'. Ok (canonicalize_parsed_inner c pcs'))"

text \<open>\<^verbatim>\<open>canonicalize_parsed\<close> panics (here: None) where the fallible variant reports an error.\<close>

definition canonicalize_parsed :: "Codec \<Rightarrow> ParsedChangeSet \<Rightarrow> CanonicalChangeSet option" where
  "canonicalize_parsed c pcs =
     (case try_canonicalize_parsed c pcs of Inl _ \<Rightarrow> None | Inr cc \<Rightarrow> Some cc)"

section \<open>Normalized identifiers\<close>

lemma pascal_to_snake_from_lower: "\<not> list_ex is_uppercase s \<Longrightarrow> pascal_to_snake_from i s = s"
  by (induction i s rule: pascal_to_snake_from.induct) (auto simp: to_lower_char_id)

lemma pascal_to_snake_no_upper: "\<not> list_ex is_uppercase (pascal_to_snake_from i s)"
  by (induction i s rule: pascal_to_snake_from.induct) (auto simp: is_uppercase_def[of "CHR ''_''"])

lemma replace_no_upper: "\<not> list_ex is_uppercase s \<Longrightarrow>
    \<not> list_ex is_uppercase (replace_char (CHR ''-'') (CHR ''_'') s)"
  by (induction s) (auto simp: replace_char_def is_uppercase_def[of "CHR ''_''"])

lemma replace_char_idem [simp]:
  "replace_char (CHR ''-'') (CHR ''_'') (replace_char (CHR ''-'') (CHR ''_'') s) =
   replace_char (CHR ''-'') (CHR ''_'') s"
  by (simp add: replace_char_def)

lemma to_lower_char_eq_dot: "to_lower_char c = CHR ''.'' \<Longrightarrow> c = CHR ''.''"
proof (cases "is_uppercase c")
  case True
  assume "to_lower_char c = CHR ''.''"
  with True have "((of_char c :: nat) + 32) mod 256 = 46"
    by (auto simp: to_lower_char_def dest!: arg_cong[where f = "of_char :: char \<Rightarrow> nat"])
  with True show ?thesis by (auto simp: is_uppercase_def)
qed (simp add: to_lower_char_id)

lemma dot_not_in_lower: "CHR ''.'' \<notin> set s \<Longrightarrow> CHR ''.'' \<notin> set (to_lowercase s)"
  by (auto simp: to_lowercase_def dest!: to_lower_char_eq_dot[OF sym])

lemma to_lowercase_idem [simp]: "to_lowercase (to_lowercase s) = to_lowercase s"
  by (simp add: to_lowercase_def)

text \<open>What \<open>normalize_id\<close> does to an identifier with a given name space.\<close>

lemma normalize_id_dot:
  assumes "CHR ''.'' \<notin> set ns"
  shows "normalize_id (ns @ CHR ''.'' # loc) =
    to_lowercase ns @ CHR ''.'' # replace_char (CHR ''-'') (CHR ''_'')
      (if to_lowercase ns \<in> {''type'', ''handler'', ''boundary''} then loc else pascal_to_snake loc)"
  using assms by (simp add: normalize_id_def Let_def)

lemma normalize_id_idem [simp]: "normalize_id (normalize_id s) = normalize_id s"
proof (cases "find_char (CHR ''.'') s")
  case None
  then show ?thesis by (simp add: normalize_id_def)
next
  case (Some i)
  then obtain ns loc where s: "s = ns @ CHR ''.'' # loc" and ns: "CHR ''.'' \<notin> set ns"
    using find_char_Some_split by blast
  let ?rep = "replace_char (CHR ''-'') (CHR ''_'')"
  have "pascal_to_snake (?rep (pascal_to_snake loc)) = ?rep (pascal_to_snake loc)"
    unfolding pascal_to_snake_def
    by (intro pascal_to_snake_from_lower replace_no_upper pascal_to_snake_no_upper)
  with ns show ?thesis by (simp add: s normalize_id_dot dot_not_in_lower)
qed

section \<open>Canonical arguments\<close>

lemma bt_inv_normalize_op_args [simp]: "bt_inv args \<Longrightarrow> bt_inv (normalize_op_args args)"
  by (simp add: normalize_op_args_def ID_ARG_KEYS_def)

lemma bt_get_normalize_op_args:
  "bt_get (normalize_op_args args) k =
     (if k \<in> set ID_ARG_KEYS then map_option normalize_id (bt_get args k) else bt_get args k)"
  by (auto simp: normalize_op_args_def ID_ARG_KEYS_def)

text \<open>The default of a key, if the operation has one.\<close>

definition arg_default :: "ChangeSetOp \<Rightarrow> string \<Rightarrow> string \<Rightarrow> string option" where
  "arg_default kind verb key =
     (if kind = Create \<and> verb \<in> {''create_function'', ''create_type''} \<and> key = ''visibility''
        then Some ''private''
      else if kind = Create \<and> verb = ''create_type'' \<and> key = ''derive'' then Some ''none''
      else if kind = Infer \<and> starts_with verb ''infer_'' \<and> key = ''infer_pending'' then Some ''true''
      else None)"

lemma bt_inv_canonical_args [simp]: "bt_inv args \<Longrightarrow> bt_inv (canonical_args kind verb args)"
  by (simp add: canonical_args_def materialize_defaults_def Let_def)

lemma bt_get_canonical_args:
  "bt_get (canonical_args kind verb args) key =
     (if key \<in> set ID_ARG_KEYS then map_option normalize_id (bt_get args key)
      else or_else (bt_get args key) (arg_default kind verb key))"
  by (auto simp: canonical_args_def materialize_defaults_def Let_def bt_get_normalize_op_args
      ID_ARG_KEYS_def arg_default_def or_else_def split: option.splits)

lemma canonical_args_idem:
  assumes "bt_inv args"
  shows "canonical_args kind verb (canonical_args kind verb args) = canonical_args kind verb args"
proof (rule bt_ext)
  show "bt_get (canonical_args kind verb (canonical_args kind verb args)) k =
      bt_get (canonical_args kind verb args) k" for k
    by (auto simp: bt_get_canonical_args option.map_comp comp_def or_else_def split: option.splits)
qed (use assms in simp_all)

section \<open>Shape of canonical payloads\<close>

text \<open>Payloads that address nodes by name only, or do nothing.\<close>

fun by_name :: "OpPayload \<Rightarrow> bool" where
  "by_name (CreateNode _) = False"
| "by_name (AddEdge _) = False"
| "by_name (RemoveNode _) = False"
| "by_name (SetNodeName _ _) = False"
| "by_name _ = True"

lemma created_ids [simp]:
  "gn_id (module_node i s) = of_nat i" "gn_id (type_node i s) = of_nat i"
  "gn_id (function_node c i s a) = of_nat i" "gn_id (test_node i s a) = of_nat i"
  "gn_id (capability_node i s) = of_nat i"
  by (simp_all add: module_node_def type_node_def function_node_def test_node_def
      capability_node_def Let_def split: option.split)

lemmas payload_helper_defs =
  map_payload_def metadata_payload_def set_payload_def add_payload_def remove_payload_def
  edge_payload_def workflow_payload_def Let_def

lemma materialize_payload_other:
  "kind \<noteq> Create \<Longrightarrow> by_name (materialize_payload c idx kind verb args)"
  by (cases kind) (auto simp: payload_helper_defs split: option.split prod.split)

lemma materialize_payload_create:
  "materialize_payload c idx Create verb args = Noop \<or>
   (\<exists>n. materialize_payload c idx Create verb args = CreateNode n \<and> gn_id n = of_nat idx)"
  by (auto simp: create_payload_def map_payload_def split: option.split)

section \<open>Order of canonical operations\<close>

lemma canonical_op_sel [simp]:
  "op_kind (canonical_op c (i, k, v, a)) = k" "op_verb (canonical_op c (i, k, v, a)) = v"
  "op_args (canonical_op c (i, k, v, a)) = canonical_args k v a"
  "op_payload (canonical_op c (i, k, v, a)) = materialize_payload c i k v (canonical_args k v a)"
  "op_block_hash (canonical_op c (i, k, v, a)) = compute_block_hash c k i"
  by (simp_all add: canonical_op_def Let_def)

lemma map_canonical_op_enumerate:
  "(\<And>i t. f (canonical_op c (i, t)) = h t) \<Longrightarrow>
   map f (map (canonical_op c) (enumerate n ts)) = map h ts"
  by (induction ts arbitrary: n) auto

lemma canonical_core_kinds:
  "map op_kind (canonical_core c pcs) = map fst (sort_key (\<lambda>a. phase_order (fst a)) (op_pairs pcs))"
  unfolding canonical_core_def by (rule map_canonical_op_enumerate) (simp add: canonical_op_def Let_def split: prod.split)

lemma canonical_core_triples:
  "map (\<lambda>op. (op_kind op, op_verb op, op_args op)) (canonical_core c pcs) =
   map (\<lambda>(k, v, a). (k, v, canonical_args k v a)) (sort_key (\<lambda>a. phase_order (fst a)) (op_pairs pcs))"
  unfolding canonical_core_def
  by (rule map_canonical_op_enumerate) (simp add: canonical_op_def Let_def split: prod.split)

lemma canonical_core_sorted: "sorted (map (\<lambda>op. phase_order (op_kind op)) (canonical_core c pcs))"
proof -
  have "map (\<lambda>op. phase_order (op_kind op)) (canonical_core c pcs) =
      map (\<lambda>a. phase_order (fst a)) (sort_key (\<lambda>a. phase_order (fst a)) (op_pairs pcs))"
    using arg_cong[OF canonical_core_kinds[of c pcs], of "map phase_order"] by (simp add: comp_def)
  then show ?thesis by simp
qed

lemma length_canonical_core [simp]: "length (canonical_core c pcs) = length (op_pairs pcs)"
  by (simp add: canonical_core_def)

section \<open>The expansion\<close>

lemma expand_step_extends: "\<exists>ys. expand_step c ops extra x = extra @ ys \<and> length ys \<le> 2"
  by (auto simp: expand_step_def Let_def split: option.split)

lemma expand_step_length: "length (expand_step c ops extra x) \<le> length extra + 2"
  using expand_step_extends[of c ops extra x] by auto

lemma foldl_expand_keeps: "set extra \<subseteq> set (foldl (expand_step c ops) extra xs)"
proof (induction xs arbitrary: extra)
  case (Cons x xs)
  have "set extra \<subseteq> set (expand_step c ops extra x)" using expand_step_extends[of c ops extra x] by auto
  with Cons.IH[of "expand_step c ops extra x"] show ?case by auto
qed simp

lemma foldl_expand_length: "length (foldl (expand_step c ops) extra xs) \<le> length extra + 2 * length xs"
proof (induction xs arbitrary: extra)
  case (Cons x xs)
  show ?case using Cons.IH[of "expand_step c ops extra x"] expand_step_length[of c ops extra x] by simp
qed simp

lemma foldl_expand_member:
  assumes "x \<in> set xs" "\<And>extra. P (expand_step c ops extra x)"
    and "\<And>extra extra'. P extra \<Longrightarrow> set extra \<subseteq> set extra' \<Longrightarrow> P extra'"
  shows "P (foldl (expand_step c ops) extra xs)"
proof -
  obtain ys zs where "xs = ys @ x # zs" using assms(1) by (auto simp: in_set_conv_decomp)
  then have "foldl (expand_step c ops) extra xs =
      foldl (expand_step c ops) (expand_step c ops (foldl (expand_step c ops) extra ys) x) zs" by simp
  with assms(2,3) foldl_expand_keeps show ?thesis by metis
qed

lemma foldl_expand_by_name:
  "list_all (\<lambda>op. by_name (op_payload op)) extra \<Longrightarrow>
   list_all (\<lambda>op. by_name (op_payload op)) (foldl (expand_step c ops) extra xs)"
proof (induction xs arbitrary: extra)
  case (Cons x xs)
  then have "list_all (\<lambda>op. by_name (op_payload op)) (expand_step c ops extra x)"
    by (auto simp: expand_step_def Let_def synth_set_return_def synth_add_effect_def split: option.split)
  with Cons.IH show ?case by simp
qed simp

section \<open>Block hashes\<close>

text \<open>The pair of kind and index each operation is hashed with.\<close>

definition hash_of :: "Codec \<Rightarrow> ChangeSetOp \<times> nat \<Rightarrow> BlockHash" where
  "hash_of c t = compute_block_hash c (fst t) (snd t)"

lemma u64_le_bytes_inj: "u64_le_bytes a = u64_le_bytes b \<Longrightarrow> a = b"
proof (rule bit_word_eqI)
  fix n
  assume eq: "u64_le_bytes a = u64_le_bytes b" and "n < LENGTH(64)"
  then have n: "n < 64" by simp
  then have "n div 8 < 8" by auto
  have "u64_le_bytes a ! (n div 8) = u64_le_bytes b ! (n div 8)" using eq by simp
  then have "ucast (drop_bit (8 * (n div 8)) a) = (ucast (drop_bit (8 * (n div 8)) b) :: u8)"
    using \<open>n div 8 < 8\<close> by (simp add: u64_le_bytes_def)
  then have "bit (ucast (drop_bit (8 * (n div 8)) a) :: u8) (n mod 8) =
      bit (ucast (drop_bit (8 * (n div 8)) b) :: u8) (n mod 8)" by simp
  then show "bit a n = bit b n"
    by (simp add: bit_ucast_iff bit_drop_bit_eq)
qed

lemma length_u64_le_bytes [simp]: "length (u64_le_bytes w) = 8"
  by (simp add: u64_le_bytes_def)

lemma block_preimage_inj:
  assumes "inj (cbor_op c)" "block_preimage c k i = block_preimage c k' j" "i < 2 ^ 64" "j < 2 ^ 64"
  shows "k = k' \<and> i = j"
proof -
  from assms(2) have "cbor_op c k = cbor_op c k'" "u64_le_bytes (of_nat i) = u64_le_bytes (of_nat j)"
    by (auto simp: block_preimage_def)
  then have "k = k'" "(of_nat i :: u64) = of_nat j"
    using assms(1) by (auto simp: inj_def dest: u64_le_bytes_inj)
  then show ?thesis using assms(3,4) by (simp add: word_of_nat_eq_iff take_bit_nat_eq_self)
qed

text \<open>Invariant of the expansion: what the appended operations are hashed with.\<close>

definition tag_range :: "nat \<Rightarrow> nat \<Rightarrow> (ChangeSetOp \<times> nat) set" where
  "tag_range n e = {Set} \<times> {n..<n + e} \<union> {Add} \<times> {n..<n + 2 * e}"

definition expand_tags :: "nat \<Rightarrow> nat \<Rightarrow> (ChangeSetOp \<times> nat) list \<Rightarrow> bool" where
  "expand_tags n e tags = (distinct tags \<and> set tags \<subseteq> tag_range n e)"

lemma tag_range_iff [simp]:
  "(Set, i) \<in> tag_range n e \<longleftrightarrow> n \<le> i \<and> i < n + e"
  "(Add, i) \<in> tag_range n e \<longleftrightarrow> n \<le> i \<and> i < n + 2 * e"
  by (auto simp: tag_range_def)

lemma expand_tags_mono: "expand_tags n e tags \<Longrightarrow> e \<le> e' \<Longrightarrow> expand_tags n e' tags"
proof -
  assume "expand_tags n e tags" "e \<le> e'"
  moreover from this(2) have "tag_range n e \<subseteq> tag_range n e'" by (auto simp: tag_range_def)
  ultimately show ?thesis by (auto simp: expand_tags_def)
qed

lemma expand_tags_snoc:
  "expand_tags n e tags \<Longrightarrow> t \<notin> set tags \<Longrightarrow> t \<in> tag_range n e \<Longrightarrow> expand_tags n e (tags @ [t])"
  by (simp add: expand_tags_def)

lemma expand_tags_fresh: "expand_tags n e tags \<Longrightarrow> t \<notin> tag_range n e \<Longrightarrow> t \<notin> set tags"
  by (auto simp: expand_tags_def)

lemma expand_tags_set:
  "expand_tags n e tags \<Longrightarrow> expand_tags n (Suc e) (tags @ [(Set, n + e)])"
  by (rule expand_tags_snoc) (auto intro: expand_tags_mono dest: expand_tags_fresh[of _ _ _ "(Set, n + e)"])

lemma expand_tags_add:
  "expand_tags n e tags \<Longrightarrow> expand_tags n (Suc e) (tags @ [(Add, n + (e + e))])"
  by (rule expand_tags_snoc) (auto intro: expand_tags_mono dest: expand_tags_fresh[of _ _ _ "(Add, n + (e + e))"])

lemma expand_tags_set_add:
  assumes "expand_tags n e tags"
  shows "expand_tags n (Suc (Suc e)) ((tags @ [(Set, n + e)]) @ [(Add, n + (e + Suc e))])"
proof (rule expand_tags_snoc)
  show "expand_tags n (Suc (Suc e)) (tags @ [(Set, n + e)])"
    using expand_tags_set[OF assms] by (rule expand_tags_mono) simp
  show "(Add, n + (e + Suc e)) \<notin> set (tags @ [(Set, n + e)])"
    using expand_tags_fresh[OF assms, of "(Add, n + (e + Suc e))"] by simp
qed simp

lemma expand_step_tags:
  assumes "map op_block_hash extra = map (hash_of c) tags" "expand_tags (length ops) (length extra) tags"
  shows "\<exists>tags'. map op_block_hash (expand_step c ops extra x) = map (hash_of c) tags' \<and>
    expand_tags (length ops) (length (expand_step c ops extra x)) tags'"
proof (cases "bt_get (op_args x) ''target''")
  case None
  with assms show ?thesis by (auto simp: expand_step_def)
next
  case (Some t)
  define n e where ne: "n = length ops" "e = length extra"
  define ret where "ret = (if t \<in> explicit_return_targets ops then None
      else or_else (bt_get (op_args x) ''type'') (bt_get (return_map ops) t))"
  have step: "expand_step c ops extra x = (let extra1 = extra @
        (case ret of None \<Rightarrow> [] | Some ty \<Rightarrow> [synth_set_return c t ty (n + e)])
      in extra1 @ (case bt_get (op_args x) ''effect'' of None \<Rightarrow> []
        | Some f \<Rightarrow> [synth_add_effect c t f (n + e + length extra1)]))"
    using Some by (simp only: expand_step_def option.case Let_def ret_def ne)
  have tags: "expand_tags n e tags" using assms(2) by (simp add: ne)
  note defs = step Let_def ne[symmetric] hash_of_def synth_set_return_def synth_add_effect_def assms(1)
  consider (none) "ret = None" "bt_get (op_args x) ''effect'' = None"
    | (ret) ty where "ret = Some ty" "bt_get (op_args x) ''effect'' = None"
    | (eff) f where "ret = None" "bt_get (op_args x) ''effect'' = Some f"
    | (both) ty f where "ret = Some ty" "bt_get (op_args x) ''effect'' = Some f"
    by (cases ret; cases "bt_get (op_args x) ''effect''") auto
  then show ?thesis
  proof cases
    case none
    then show ?thesis using tags by (intro exI[of _ tags]) (simp add: defs)
  next
    case ret
    then show ?thesis using expand_tags_set[OF tags]
      by (intro exI[of _ "tags @ [(Set, n + e)]"]) (simp add: defs)
  next
    case eff
    then show ?thesis using expand_tags_add[OF tags]
      by (intro exI[of _ "tags @ [(Add, n + (e + e))]"]) (simp add: defs add.assoc)
  next
    case both
    then show ?thesis using expand_tags_set_add[OF tags]
      by (intro exI[of _ "(tags @ [(Set, n + e)]) @ [(Add, n + (e + Suc e))]"]) (simp add: defs add.assoc)
  qed
qed

lemma foldl_expand_tags:
  assumes "map op_block_hash extra = map (hash_of c) tags" "expand_tags (length ops) (length extra) tags"
  shows "\<exists>tags'. map op_block_hash (foldl (expand_step c ops) extra xs) = map (hash_of c) tags' \<and>
    expand_tags (length ops) (length (foldl (expand_step c ops) extra xs)) tags'"
  using assms
proof (induction xs arbitrary: extra tags)
  case (Cons x xs)
  from expand_step_tags[OF Cons.prems, of x] obtain tags' where
    "map op_block_hash (expand_step c ops extra x) = map (hash_of c) tags'"
    "expand_tags (length ops) (length (expand_step c ops extra x)) tags'" by blast
  from Cons.IH[OF this] show ?case by simp
qed auto

lemma canonical_core_tags:
  "map op_block_hash (canonical_core c pcs) =
   map (hash_of c) (map (\<lambda>(i, t). (fst t, i))
     (enumerate 0 (sort_key (\<lambda>a. phase_order (fst a)) (op_pairs pcs))))"
  by (simp add: canonical_core_def hash_of_def canonical_op_def Let_def case_prod_beta)

section \<open>Properties\<close>

text \<open>
  Normalizing an identifier is idempotent: a normalized identifier is a
  fixed point, so references in different change sets to one node agree.
\<close>

lemma normalize_id_idempotent:
  "normalize_id (normalize_id s) = normalize_id s"
  by simp

text \<open>
  The canonical arguments of an operation: identifier-valued keys hold the
  normalized identifier, the documented defaults fill in missing keys and never
  override a given value, every other argument is unchanged. Key order is kept,
  and canonicalizing the arguments again changes nothing.
\<close>

lemma canonical_args_spec:
  assumes "bt_inv args"
  shows "bt_inv (canonical_args kind verb args) \<and>
    bt_get (canonical_args kind verb args) key =
      (if key \<in> set ID_ARG_KEYS then map_option normalize_id (bt_get args key)
       else case bt_get args key of Some v \<Rightarrow> Some v | None \<Rightarrow> arg_default kind verb key) \<and>
    canonical_args kind verb (canonical_args kind verb args) = canonical_args kind verb args"
  using assms
  by (auto simp: bt_get_canonical_args canonical_args_idem or_else_def split: option.split)

lemma canonical_args_spec_witness:
  "bt_get (canonical_args Create ''create_function'' [(''id'', ''Fn.CartTotal'')]) ''id'' = Some ''fn.cart_total'' \<and>
   bt_get (canonical_args Create ''create_function'' [(''id'', ''Fn.CartTotal'')]) ''visibility'' = Some ''private''"
proof -
  have inv: "bt_inv [(''id'', ''Fn.CartTotal'')]" by (simp add: bt_inv_def)
  have "normalize_id ''Fn.CartTotal'' = ''fn.cart_total''" by code_simp
  then show ?thesis
    using canonical_args_spec[OF inv, of Create "''create_function''" "''id''"]
      canonical_args_spec[OF inv, of Create "''create_function''" "''visibility''"]
    by (simp add: bt_get_def ID_ARG_KEYS_def arg_default_def)
qed

text \<open>
  Canonicalizing a change set orders its operations by phase and, within a
  phase, keeps the order they were written in; the operations are the same.
\<close>

lemma canonicalize_stable_phases:
  "sorted (map (\<lambda>op. phase_order (op_kind op)) (cc_ops (canonicalize c cs))) \<and>
   filter (\<lambda>k. phase_order k = p) (map op_kind (cc_ops (canonicalize c cs))) =
     filter (\<lambda>k. phase_order k = p) (ch_ops cs) \<and>
   mset (map op_kind (cc_ops (canonicalize c cs))) = mset (ch_ops cs)"
proof -
  have "map op_kind (cc_ops (canonicalize c cs)) = sort_key phase_order (ch_ops cs)"
    by (simp add: canonicalize_def case_prod_beta comp_def)
  moreover from this have "map (\<lambda>op. phase_order (op_kind op)) (cc_ops (canonicalize c cs)) =
      map phase_order (sort_key phase_order (ch_ops cs))"
    by (metis (no_types, lifting) comp_apply map_eq_conv map_map)
  ultimately show ?thesis by (simp add: sort_key_stable)
qed

text \<open>
  C17. The canonical form of a parsed document is the phase-ordered list of its
  operations, each with its canonical arguments and in the written order within
  a phase, followed only by operations synthesized for inferred boundaries.
\<close>

theorem canonicalize_parsed_stable_phases:
  "\<exists>core extra. cc_ops (canonicalize_parsed_inner c pcs) = core @ extra \<and>
     sorted (map (\<lambda>op. phase_order (op_kind op)) core) \<and>
     filter (\<lambda>t. phase_order (fst t) = p) (map (\<lambda>op. (op_kind op, op_verb op, op_args op)) core) =
       filter (\<lambda>t. phase_order (fst t) = p)
         (map (\<lambda>(k, v, a). (k, v, canonical_args k v a)) (op_pairs pcs)) \<and>
     set (map op_verb extra) \<subseteq> {''set_return'', ''add_effect''}"
proof (intro exI conjI)
  let ?core = "canonical_core c pcs"
  let ?extra = "foldl (expand_step c ?core) [] (filter is_infer_boundary ?core)"
  show "cc_ops (canonicalize_parsed_inner c pcs) = ?core @ ?extra"
    by (simp add: canonicalize_parsed_inner_def expand_infer_boundary_def)
  show "sorted (map (\<lambda>op. phase_order (op_kind op)) ?core)" by (rule canonical_core_sorted)
  have filt: "filter (\<lambda>t. phase_order (fst t) = p) (map (\<lambda>(k, v, a). (k, v, canonical_args k v a)) ts) =
      map (\<lambda>(k, v, a). (k, v, canonical_args k v a)) (filter (\<lambda>t. phase_order (fst t) = p) ts)" for ts
    by (induction ts) auto
  show "filter (\<lambda>t. phase_order (fst t) = p) (map (\<lambda>op. (op_kind op, op_verb op, op_args op)) ?core) =
      filter (\<lambda>t. phase_order (fst t) = p) (map (\<lambda>(k, v, a). (k, v, canonical_args k v a)) (op_pairs pcs))"
    by (simp add: canonical_core_triples filt sort_key_stable)
  have "set (map op_verb extra) \<subseteq> {''set_return'', ''add_effect''} \<Longrightarrow>
      set (map op_verb (foldl (expand_step c ops) extra xs)) \<subseteq> {''set_return'', ''add_effect''}" for ops extra xs
  proof (induction xs arbitrary: extra)
    case (Cons x xs)
    then have "set (map op_verb (expand_step c ops extra x)) \<subseteq> {''set_return'', ''add_effect''}"
      by (auto simp: expand_step_def Let_def synth_set_return_def synth_add_effect_def
          split: option.splits if_splits)
    with Cons.IH show ?case by simp
  qed simp
  then show "set (map op_verb ?extra) \<subseteq> {''set_return'', ''add_effect''}" by simp
qed

text \<open>
  The phase order is not kept by the expansion: if a canonical operation is
  an \<^verbatim>\<open>infer_boundary\<close> with a target and an effect, a phase-1 operation follows
  that phase-3 operation, and the canonical operations are not ordered by phase.
\<close>

lemma infer_boundary_breaks_phase_order:
  assumes "op \<in> set (canonical_core c pcs)" "is_infer_boundary op"
    and "bt_get (op_args op) ''target'' = Some t" "bt_get (op_args op) ''effect'' = Some e"
  shows "\<not> sorted (map (\<lambda>op. phase_order (op_kind op)) (cc_ops (canonicalize_parsed_inner c pcs)))"
proof
  let ?core = "canonical_core c pcs"
  let ?extra = "foldl (expand_step c ?core) [] (filter is_infer_boundary ?core)"
  assume "sorted (map (\<lambda>op. phase_order (op_kind op)) (cc_ops (canonicalize_parsed_inner c pcs)))"
  then have le: "phase_order (op_kind a) \<le> phase_order (op_kind b)"
    if "a \<in> set ?core" "b \<in> set ?extra" for a b
    using that by (auto simp: canonicalize_parsed_inner_def expand_infer_boundary_def sorted_append)
  have "\<exists>x \<in> set ?extra. op_kind x = Add"
    by (rule foldl_expand_member[where x = op])
      (use assms in \<open>auto simp: expand_step_def Let_def synth_add_effect_def\<close>)
  then obtain x where "x \<in> set ?extra" "op_kind x = Add" by blast
  with le[OF assms(1)] assms(2) show False by (fastforce simp: is_infer_boundary_def)
qed

lemma infer_boundary_breaks_phase_order_witness:
  "\<not> sorted (map (\<lambda>op. phase_order (op_kind op)) (cc_ops (canonicalize_parsed_inner
      \<lparr>cbor_node = (\<lambda>_. []), cbor_op = (\<lambda>_. []), blake3 = (\<lambda>b. b)\<rparr>
      (default_parsed\<lparr>pc_parsed_ops := [\<lparr>po_kind = Infer, po_verb = ''infer_boundary'',
          po_args = [(''effect'', ''io''), (''target'', ''fn.f'')]\<rparr>]\<rparr>))))"
  by (rule infer_boundary_breaks_phase_order[where t = "normalize_id ''fn.f''" and e = "''io''" and
        op = "canonical_op \<lparr>cbor_node = (\<lambda>_. []), cbor_op = (\<lambda>_. []), blake3 = (\<lambda>b. b)\<rparr>
          (0, Infer, ''infer_boundary'', [(''effect'', ''io''), (''target'', ''fn.f'')])"])
    (simp_all add: canonical_core_def op_pairs_def default_parsed_def is_infer_boundary_def
      bt_get_canonical_args ID_ARG_KEYS_def arg_default_def or_else_def bt_get_Cons)

text \<open>
  The expansion makes inferred boundaries explicit: for every
  \<^verbatim>\<open>infer_boundary\<close> with a target, its effect and its declared return type
  become operations of the canonical form, the type unless a \<^verbatim>\<open>set_return\<close> for the
  target is already there; the original operations are kept in front.
\<close>

lemma infer_boundary_expanded:
  assumes "op \<in> set ops" "is_infer_boundary op" "bt_get (op_args op) ''target'' = Some t"
  shows "take (length ops) (expand_infer_boundary c ops) = ops \<and>
    (case bt_get (op_args op) ''effect'' of None \<Rightarrow> True
     | Some e \<Rightarrow> AddEffectByName t e \<in> op_payload ` set (expand_infer_boundary c ops)) \<and>
    (case bt_get (op_args op) ''type'' of None \<Rightarrow> True
     | Some ty \<Rightarrow> t \<in> explicit_return_targets ops \<or>
         SetReturnByName t ty \<in> op_payload ` set (expand_infer_boundary c ops))"
proof -
  let ?extra = "foldl (expand_step c ops) [] (filter is_infer_boundary ops)"
  have mem: "op \<in> set (filter is_infer_boundary ops)" using assms(1,2) by simp
  have "AddEffectByName t e \<in> op_payload ` set ?extra" if "bt_get (op_args op) ''effect'' = Some e" for e
    by (rule foldl_expand_member[OF mem])
      (use assms(3) that in \<open>auto simp: expand_step_def Let_def synth_add_effect_def\<close>)
  moreover have "SetReturnByName t ty \<in> op_payload ` set ?extra"
    if "bt_get (op_args op) ''type'' = Some ty" "t \<notin> explicit_return_targets ops" for ty
    by (rule foldl_expand_member[OF mem])
      (use assms(3) that in \<open>auto simp: expand_step_def Let_def synth_set_return_def or_else_def\<close>)
  ultimately show ?thesis
    by (auto simp: expand_infer_boundary_def image_Un split: option.split)
qed

lemma infer_boundary_expanded_witness:
  "AddEffectByName ''fn.f'' ''io'' \<in> op_payload ` set (expand_infer_boundary
      \<lparr>cbor_node = (\<lambda>_. []), cbor_op = (\<lambda>_. []), blake3 = (\<lambda>b. b)\<rparr>
      [default_op\<lparr>op_verb := ''infer_boundary'', op_args := [(''effect'', ''io''), (''target'', ''fn.f'')]\<rparr>])"
  using infer_boundary_expanded[of
      "default_op\<lparr>op_verb := ''infer_boundary'', op_args := [(''effect'', ''io''), (''target'', ''fn.f'')]\<rparr>"
      "[default_op\<lparr>op_verb := ''infer_boundary'', op_args := [(''effect'', ''io''), (''target'', ''fn.f'')]\<rparr>]"
      "''fn.f''" "\<lparr>cbor_node = (\<lambda>_. []), cbor_op = (\<lambda>_. []), blake3 = (\<lambda>b. b)\<rparr>"]
  by (simp add: default_op_def is_infer_boundary_def bt_get_def)


lemma hash_of_inj:
  assumes "inj (cbor_op c)" "inj_on (blake3 c) {block_preimage c k i | k i. i < 2 ^ 64}"
  shows "inj_on (hash_of c) {t. snd t < 2 ^ 64}"
proof (rule inj_onI, unfold mem_Collect_eq)
  fix s t :: "ChangeSetOp \<times> nat"
  assume st: "snd s < 2 ^ 64" "snd t < 2 ^ 64" "hash_of c s = hash_of c t"
  then have "blake3 c (block_preimage c (fst s) (snd s)) = blake3 c (block_preimage c (fst t) (snd t))"
    by (simp only: hash_of_def compute_block_hash_def)
  from inj_onD[OF assms(2) this]
  have "block_preimage c (fst s) (snd s) = block_preimage c (fst t) (snd t)" using st(1,2) by blast
  from block_preimage_inj[OF assms(1) this st(1,2)] show "s = t" by (simp only: prod_eq_iff)
qed

lemma core_tags_snd:
  "map snd (map (\<lambda>(i, t). (fst t, i)) (enumerate n xs)) = [n..<n + length xs]"
  by (simp add: comp_def case_prod_beta map_fst_enumerate)

lemma distinct_tags:
  assumes "map snd tags = [0..<n]" "distinct tags'" "set tags' \<subseteq> tag_range n e" "e \<le> 2 * n"
  shows "distinct (tags @ tags')" "snd ` set (tags @ tags') \<subseteq> {..<5 * n}"
proof -
  have low: "snd t < n" if "t \<in> set tags" for t
    using arg_cong[OF assms(1), of set] that by (metis atLeastLessThan_iff image_eqI list.set_map set_upt)
  have up: "n \<le> snd t \<and> snd t < 5 * n" if "t \<in> set tags'" for t
  proof -
    have "t \<in> tag_range n e" using assms(3) that by blast
    then show ?thesis using assms(4) by (cases t) (auto simp: tag_range_def)
  qed
  have "distinct (map snd tags)" unfolding assms(1) by simp
  then have "distinct tags" by (simp only: distinct_map)
  moreover have "t \<notin> set tags'" if "t \<in> set tags" for t using low[OF that] up[of t] by linarith
  ultimately show "distinct (tags @ tags')" using assms(2) by (auto simp only: distinct_append)
  show "snd ` set (tags @ tags') \<subseteq> {..<5 * n}"
  proof
    fix i assume "i \<in> snd ` set (tags @ tags')"
    then obtain t where "i = snd t" "t \<in> set tags \<or> t \<in> set tags'" by auto
    with low[of t] up[of t] show "i \<in> {..<5 * n}" by auto
  qed
qed

lemma foldl_expand_hashes:
  "\<exists>tags. map op_block_hash (foldl (expand_step c ops) [] xs) = map (hash_of c) tags \<and>
     distinct tags \<and> set tags \<subseteq> tag_range (length ops) (length (foldl (expand_step c ops) [] xs))"
  using foldl_expand_tags[of "[]" c "[]" ops xs] by (simp only: expand_tags_def) simp

text \<open>
  Block hashes identify operations: with a collision-free hash and an
  encoding that separates operation kinds, no two operations of a canonical
  change set, synthesized ones included, carry the same block hash.
\<close>

lemma block_hashes_distinct:
  assumes "inj (cbor_op c)" "inj_on (blake3 c) {block_preimage c k i | k i. i < 2 ^ 64}"
    and "length (op_pairs pcs) < 2 ^ 32"
  shows "distinct (map op_block_hash (cc_ops (canonicalize_parsed_inner c pcs)))"
proof -
  let ?core = "canonical_core c pcs" and ?n = "length (op_pairs pcs)"
  let ?extra = "foldl (expand_step c ?core) [] (filter is_infer_boundary ?core)"
  let ?tags = "map (\<lambda>(i, t). (fst t, i)) (enumerate 0 (sort_key (\<lambda>a. phase_order (fst a)) (op_pairs pcs)))"
  obtain tags' where tags': "map op_block_hash ?extra = map (hash_of c) tags'"
    "distinct tags'" "set tags' \<subseteq> tag_range ?n (length ?extra)"
    using foldl_expand_hashes[of c ?core "filter is_infer_boundary ?core"]
    unfolding length_canonical_core by blast
  have "length ?extra \<le> 2 * ?n"
    using foldl_expand_length[of c ?core "[]" "filter is_infer_boundary ?core"]
      length_filter_le[of is_infer_boundary ?core] by simp
  moreover have "map snd ?tags = [0..<?n]" unfolding core_tags_snd by simp
  ultimately have tags: "distinct (?tags @ tags')" "snd ` set (?tags @ tags') \<subseteq> {..<5 * ?n}"
    using distinct_tags[OF _ tags'(2,3)] by blast+
  have bound: "5 * ?n \<le> 2 ^ 64" using assms(3) by simp
  have "set (?tags @ tags') \<subseteq> {t. snd t < 2 ^ 64}"
  proof (rule subsetI, unfold mem_Collect_eq)
    fix t assume "t \<in> set (?tags @ tags')"
    then have "snd t < 5 * ?n" using subsetD[OF tags(2) imageI, of t] by (simp only: lessThan_iff)
    then show "snd t < 2 ^ 64" using bound by (rule less_le_trans)
  qed
  then have "inj_on (hash_of c) (set (?tags @ tags'))"
    by (rule inj_on_subset[OF hash_of_inj[OF assms(1,2)]])
  then have "distinct (map (hash_of c) (?tags @ tags'))" using tags(1) by (simp only: distinct_map)
  then show ?thesis
    by (simp only: canonicalize_parsed_inner_def CanonicalChangeSet.select_convs
        expand_infer_boundary_def map_append canonical_core_tags tags'(1))
qed

fun variant_name :: "ChangeSetOp \<Rightarrow> string" where
  "variant_name Create = ''Create''" | "variant_name Set = ''Set''" | "variant_name Add = ''Add''"
| "variant_name Remove = ''Remove''" | "variant_name Delete = ''Delete''"
| "variant_name Disconnect = ''Disconnect''" | "variant_name Rename = ''Rename''"
| "variant_name Move = ''Move''" | "variant_name Replace = ''Replace''"
| "variant_name Connect = ''Connect''" | "variant_name Bind = ''Bind''"
| "variant_name Expose = ''Expose''" | "variant_name Hide = ''Hide''" | "variant_name Grant = ''Grant''"
| "variant_name Revoke = ''Revoke''" | "variant_name Infer = ''Infer''" | "variant_name Derive = ''Derive''"
| "variant_name Generate = ''Generate''" | "variant_name Assert = ''Assert''" | "variant_name Lock = ''Lock''"
| "variant_name Refactor = ''Refactor''" | "variant_name Migrate = ''Migrate''"
| "variant_name Approve = ''Approve''" | "variant_name Reject = ''Reject''"
| "variant_name Deprecate = ''Deprecate''" | "variant_name Annotate = ''Annotate''"
| "variant_name Verify = ''Verify''"

lemma inj_variant_name: "inj variant_name"
proof (rule injI)
  show "variant_name a = variant_name b \<Longrightarrow> a = b" for a b by (cases a; cases b) simp_all
qed

lemma inj_str_bytes: "inj str_bytes"
proof (rule injI)
  have "c = d" if "(of_nat (of_char c) :: u8) = of_nat (of_char d)" for c d
    using that by (simp add: word_of_nat_eq_iff take_bit_nat_eq_self)
  then show "str_bytes s = str_bytes t \<Longrightarrow> s = t" for s t
    by (auto simp: str_bytes_def inj_on_def intro: map_inj_on)
qed

lemma block_hashes_distinct_witness:
  "distinct (map op_block_hash (cc_ops (canonicalize_parsed_inner
      \<lparr>cbor_node = (\<lambda>_. []), cbor_op = (\<lambda>k. str_bytes (variant_name k)), blake3 = (\<lambda>b. b)\<rparr>
      (default_parsed\<lparr>pc_parsed_ops := replicate 3 \<lparr>po_kind = Infer, po_verb = ''infer_boundary'',
          po_args = [(''effect'', ''io''), (''target'', ''fn.f'')]\<rparr>\<rparr>))))"
  by (rule block_hashes_distinct)
    (simp_all add: inj_compose[OF inj_str_bytes inj_variant_name, unfolded comp_def]
      op_pairs_def default_parsed_def)

end
