(* ===== verification/Op_Schema.thy ===== *)
theory Op_Schema
  imports Change_Model
begin

text \<open>
  Validation of parsed operations against the registry of required arguments
  (\<^verbatim>\<open>crates/ail-change/src/op_schema.rs\<close>).
\<close>

section \<open>Model\<close>

datatype OpSchemaError = MissingRequiredArg string string

record OpSchemaEntry =
  os_verb_prefix :: string
  os_required :: "string list"

definition schema_entry :: "string \<Rightarrow> string list \<Rightarrow> OpSchemaEntry" where
  "schema_entry v req = \<lparr>os_verb_prefix = v, os_required = req\<rparr>"

definition OP_SCHEMAS :: "OpSchemaEntry list" where
  "OP_SCHEMAS =
     [schema_entry ''create_function'' [''id''],
      schema_entry ''create_test'' [''id''],
      schema_entry ''create_type'' [''id''],
      schema_entry ''create_module'' [''id''],
      schema_entry ''create_capability'' [''id''],
      schema_entry ''add_param'' [''target'', ''name'', ''type''],
      schema_entry ''set_return'' [''target'', ''type''],
      schema_entry ''add_effect'' [''target'', ''effect''],
      schema_entry ''remove_effect'' [''target'', ''effect''],
      schema_entry ''add_contract'' [''target'', ''kind'', ''rule''],
      schema_entry ''connect'' [''source'', ''target''],
      schema_entry ''disconnect'' [''source'', ''target''],
      schema_entry ''expose'' [''target''],
      schema_entry ''hide'' [''target''],
      schema_entry ''rename'' [''target'', ''name''],
      schema_entry ''grant'' [''target'', ''capability''],
      schema_entry ''revoke'' [''target'', ''capability''],
      schema_entry ''deprecate'' [''target''],
      schema_entry ''annotate'' [''target'', ''key'', ''value''],
      schema_entry ''bind_handler'' [''capability'', ''handler''],
      schema_entry ''infer_boundary'' [''target'']]"

definition check_op :: "ParsedOp \<Rightarrow> OpSchemaError list" where
  "check_op op =
     (case find (\<lambda>s. os_verb_prefix s = po_verb op) OP_SCHEMAS of
        None \<Rightarrow> []
      | Some schema \<Rightarrow>
          map (\<lambda>arg. MissingRequiredArg (po_verb op) arg)
            (filter (\<lambda>arg. \<not> bt_contains_key (po_args op) arg) (os_required schema)))"

definition validate_op_schemas :: "ParsedChangeSet \<Rightarrow> OpSchemaError list" where
  "validate_op_schemas pcs = concat (map check_op (pc_parsed_ops pcs))"

section \<open>Facts\<close>

definition schema_required :: "string \<Rightarrow> string list" where
  "schema_required v =
     (case find (\<lambda>s. os_verb_prefix s = v) OP_SCHEMAS of None \<Rightarrow> [] | Some s \<Rightarrow> os_required s)"

lemma op_schemas_distinct: "distinct (map os_verb_prefix OP_SCHEMAS)"
  by (simp add: OP_SCHEMAS_def schema_entry_def)

lemma check_op_Nil_iff:
  "check_op op = [] \<longleftrightarrow> set (schema_required (po_verb op)) \<subseteq> {k. bt_get (po_args op) k \<noteq> None}"
  by (auto simp: check_op_def schema_required_def bt_contains_key_def filter_empty_conv
      split: option.splits)

lemma schema_required_entry:
  "s \<in> set OP_SCHEMAS \<Longrightarrow> schema_required (os_verb_prefix s) = os_required s"
  using find_unique_key[OF op_schemas_distinct] by (simp add: schema_required_def)

section \<open>Properties\<close>

text \<open>
  A document has no schema error exactly when, for every registered verb,
  each operation with that verb carries all arguments its entry requires. The
  reported errors are exactly the pairs of an operation's verb and a required
  argument it lacks.
\<close>

lemma op_schema_errors_exact:
  "set (validate_op_schemas pcs) =
     {MissingRequiredArg (po_verb op) arg | op arg s.
        op \<in> set (pc_parsed_ops pcs) \<and> s \<in> set OP_SCHEMAS \<and> os_verb_prefix s = po_verb op \<and>
        arg \<in> set (os_required s) \<and> bt_get (po_args op) arg = None}"
proof -
  have "set (check_op op) = {MissingRequiredArg (po_verb op) arg | arg s.
      s \<in> set OP_SCHEMAS \<and> os_verb_prefix s = po_verb op \<and>
      arg \<in> set (os_required s) \<and> bt_get (po_args op) arg = None}" for op
  proof (cases "find (\<lambda>s. os_verb_prefix s = po_verb op) OP_SCHEMAS")
    case None
    then have "\<forall>s \<in> set OP_SCHEMAS. os_verb_prefix s \<noteq> po_verb op" by (simp add: find_None)
    moreover from None have "check_op op = []" by (simp add: check_op_def)
    ultimately show ?thesis by auto
  next
    case (Some s)
    then have s: "s \<in> set OP_SCHEMAS" "os_verb_prefix s = po_verb op" by (auto dest: find_Some_mem)
    have "t = s" if "t \<in> set OP_SCHEMAS" "os_verb_prefix t = po_verb op" for t
      using find_unique_key[OF op_schemas_distinct that(1)] that Some by simp
    moreover from Some have "set (check_op op) = MissingRequiredArg (po_verb op) `
        {arg \<in> set (os_required s). bt_get (po_args op) arg = None}"
      by (auto simp: check_op_def bt_contains_key_def)
    ultimately show ?thesis using s by blast
  qed
  then show ?thesis by (auto simp: validate_op_schemas_def)
qed

end
