(* ===== verification/Change_Apply.thy ===== *)
theory Change_Apply
  imports Change_Model
begin

text \<open>
  Atomic application of a canonical change set
  (\<^verbatim>\<open>crates/ail-change/src/apply.rs\<close>, \<^verbatim>\<open>storage_bridge.rs\<close>). A function that
  takes \<^verbatim>\<open>&mut SemanticGraph\<close> returns the new graph; a \<^verbatim>\<open>&dyn SnapshotBridge\<close>
  is a value together with its \<open>current_snapshot_id\<close> operation. The lemmas show
  that a change set is applied completely or not at all, and exactly which
  payloads can violate the invariant of the graph.
\<close>

section \<open>Snapshot bridges\<close>

text \<open>
  \<^verbatim>\<open>MemorySnapshotBridge\<close>: the counter; its object store belongs to the storage
  crate and does not take part in the snapshot guard.
\<close>

record MemorySnapshotBridge =
  mb_current_id :: u64

definition memory_bridge_new :: "SnapshotId \<Rightarrow> MemorySnapshotBridge" where
  "memory_bridge_new initial = \<lparr>mb_current_id = initial\<rparr>"

definition memory_current_snapshot_id :: "MemorySnapshotBridge \<Rightarrow> SnapshotId" where
  "memory_current_snapshot_id b = mb_current_id b"

text \<open>\<^verbatim>\<open>AtomicU64::fetch_add\<close> wraps around.\<close>

definition advance_snapshot_id :: "MemorySnapshotBridge \<Rightarrow> MemorySnapshotBridge" where
  "advance_snapshot_id b = b\<lparr>mb_current_id := mb_current_id b + 1\<rparr>"

text \<open>What a client of a snapshot counter relies on.\<close>

locale snapshot_counter =
  fixes current :: "'b \<Rightarrow> u64"
    and advance :: "'b \<Rightarrow> 'b"
  assumes current_advance: "current (advance b) = current b + 1"
begin

lemma current_advances: "current ((advance ^^ n) b) = current b + of_nat n"
  by (induction n) (simp_all add: current_advance)

lemma current_advance_neq: "current (advance b) \<noteq> current b"
  by (simp add: current_advance)

text \<open>An identifier is not reused before the counter has wrapped around.\<close>

lemma current_no_reuse:
  assumes "0 < n" "n < 2 ^ 64"
  shows "current ((advance ^^ n) b) \<noteq> current b"
proof
  assume "current ((advance ^^ n) b) = current b"
  then have "(of_nat n :: u64) = 0" by (simp add: current_advances)
  then have "2 ^ 64 dvd n" by (simp add: word_of_nat_eq_0_iff)
  with assms show False by (auto dest: dvd_imp_le)
qed

end

interpretation mb: snapshot_counter memory_current_snapshot_id advance_snapshot_id
  by unfold_locales (simp add: memory_current_snapshot_id_def advance_snapshot_id_def)

lemma memory_bridge_current [simp]:
  "memory_current_snapshot_id (memory_bridge_new i) = i"
  by (simp add: memory_current_snapshot_id_def memory_bridge_new_def)

section \<open>Preconditions\<close>

definition compute_node_hash :: "Codec \<Rightarrow> GraphNode \<Rightarrow> BlockHash" where
  "compute_node_hash c n = blake3 c (cbor_node c n)"

fun evaluate_precondition :: "Codec \<Rightarrow> Precondition \<Rightarrow> SemanticGraph \<Rightarrow> FailReason option" where
  "evaluate_precondition c (AssertExists i) g =
     (if list_ex (\<lambda>n. gn_id n = i) (sg_nodes g) then None else Some (AssertExistsFailed i))"
| "evaluate_precondition c (AssertHash i h) g =
     (case find (\<lambda>n. gn_id n = i) (sg_nodes g) of
        None \<Rightarrow> Some (AssertHashMissing i)
      | Some n \<Rightarrow> (if compute_node_hash c n = h then None else Some (AssertHashMismatch i)))"
| "evaluate_precondition c (AssertExistsByName s) g =
     (if list_ex (\<lambda>n. gn_name n = s) (sg_nodes g) then None else Some (AssertExistsByNameFailed s))"
| "evaluate_precondition c (AssertHashByName s h) g =
     (case find (\<lambda>n. gn_name n = s) (sg_nodes g) of
        None \<Rightarrow> Some (AssertHashByNameMissing s)
      | Some n \<Rightarrow> (if compute_node_hash c n = h then None else Some (AssertHashByNameMismatch s)))"
| "evaluate_precondition c (AssertContext s ctx) g =
     (case find (\<lambda>n. gn_name n = s) (sg_nodes g) of
        None \<Rightarrow> Some (AssertContextMissing s)
      | Some n \<Rightarrow>
          (case ctx of
             None \<Rightarrow> None
           | Some expected \<Rightarrow>
               (let computed_hex = hex_encode (compute_node_hash c n)
                in if \<not> starts_with computed_hex expected \<and> computed_hex \<noteq> expected
                   then Some (AssertContextMismatch s) else None)))"

fun check_preconditions :: "Codec \<Rightarrow> Precondition list \<Rightarrow> SemanticGraph \<Rightarrow> FailReason option" where
  "check_preconditions c [] g = None"
| "check_preconditions c (p # ps) g =
     (case evaluate_precondition c p g of
        Some reason \<Rightarrow> Some reason
      | None \<Rightarrow> check_preconditions c ps g)"

section \<open>Payloads\<close>

definition node_id_by_name :: "SemanticGraph \<Rightarrow> string \<Rightarrow> NodeRef option" where
  "node_id_by_name g name = map_option gn_id (find (\<lambda>n. gn_name n = name) (sg_nodes g))"

text \<open>An update through \<^verbatim>\<open>node_by_name_mut\<close>: the first node of that name, if any.\<close>

definition update_node_by_name ::
  "SemanticGraph \<Rightarrow> string \<Rightarrow> (GraphNode \<Rightarrow> GraphNode) \<Rightarrow> SemanticGraph" where
  "update_node_by_name g name f =
     g\<lparr>sg_nodes := update_first (\<lambda>n. gn_name n = name) f (sg_nodes g)\<rparr>"

definition get_or_insert :: "'a \<Rightarrow> 'a option \<Rightarrow> 'a" where
  "get_or_insert d opt = (case opt of None \<Rightarrow> d | Some a \<Rightarrow> a)"

definition set_node_metadata :: "string \<Rightarrow> string \<Rightarrow> GraphNode \<Rightarrow> GraphNode" where
  "set_node_metadata key val n =
     (if key = ''return'' \<or> key = ''type'' then n\<lparr>gn_return_type := Some val\<rparr>
      else if key = ''body'' then n\<lparr>gn_body_expr := Some val\<rparr>
      else (let trust = get_or_insert
                  \<lparr>tm_level = TrustLevel.Custom ''metadata'', tm_tags = []\<rparr> (gn_trust_metadata n)
            in n\<lparr>gn_trust_metadata :=
                  Some (trust\<lparr>tm_tags := push_new (key @ ''='' @ val) (tm_tags trust)\<rparr>)\<rparr>))"

definition remove_node :: "NodeRef \<Rightarrow> SemanticGraph \<Rightarrow> SemanticGraph" where
  "remove_node i g =
     g\<lparr>sg_nodes := filter (\<lambda>n. gn_id n \<noteq> i) (sg_nodes g),
       sg_edges := filter (\<lambda>e. ge_source e \<noteq> i \<and> ge_target e \<noteq> i) (sg_edges g)\<rparr>"

definition add_param :: "string \<Rightarrow> string \<Rightarrow> GraphNode \<Rightarrow> GraphNode" where
  "add_param name ty n =
     (let params = get_or_insert [] (gn_params n)
      in n\<lparr>gn_params := Some (if list_ex (\<lambda>p. pd_name p = name) params then params
                              else params @ [\<lparr>pd_name = name, pd_ty = ty\<rparr>])\<rparr>)"

definition add_effect :: "string \<Rightarrow> GraphNode \<Rightarrow> GraphNode" where
  "add_effect effect n =
     (let row = get_or_insert \<lparr>er_effects = []\<rparr> (gn_effect_row n)
      in n\<lparr>gn_effect_row := Some (row\<lparr>er_effects := push_new effect (er_effects row)\<rparr>)\<rparr>)"

definition remove_effect :: "string \<Rightarrow> GraphNode \<Rightarrow> GraphNode" where
  "remove_effect effect n =
     n\<lparr>gn_effect_row := map_option
        (\<lambda>row. row\<lparr>er_effects := filter (\<lambda>x. x \<noteq> effect) (er_effects row)\<rparr>) (gn_effect_row n)\<rparr>"

definition add_contract :: "string \<Rightarrow> string \<Rightarrow> GraphNode \<Rightarrow> GraphNode" where
  "add_contract kind rule n =
     (let cl = get_or_insert \<lparr>cc_requires = [], cc_ensures = []\<rparr> (gn_contract_clauses n)
      in n\<lparr>gn_contract_clauses := Some
           (if kind = ''requires'' then cl\<lparr>cc_requires := push_new rule (cc_requires cl)\<rparr>
            else cl\<lparr>cc_ensures := push_new rule (cc_ensures cl)\<rparr>)\<rparr>)"

definition remove_contract :: "string \<Rightarrow> GraphNode \<Rightarrow> GraphNode" where
  "remove_contract rule n =
     n\<lparr>gn_contract_clauses := map_option
        (\<lambda>cl. cl\<lparr>cc_requires := filter (\<lambda>x. x \<noteq> rule) (cc_requires cl),
                 cc_ensures := filter (\<lambda>x. x \<noteq> rule) (cc_ensures cl)\<rparr>) (gn_contract_clauses n)\<rparr>"

definition add_capability :: "string \<Rightarrow> GraphNode \<Rightarrow> GraphNode" where
  "add_capability capability n =
     (let reqs = get_or_insert \<lparr>cr_caps = []\<rparr> (gn_capability_reqs n)
      in n\<lparr>gn_capability_reqs := Some (reqs\<lparr>cr_caps := push_new capability (cr_caps reqs)\<rparr>)\<rparr>)"

definition remove_capability :: "string \<Rightarrow> GraphNode \<Rightarrow> GraphNode" where
  "remove_capability capability n =
     n\<lparr>gn_capability_reqs := map_option
        (\<lambda>reqs. reqs\<lparr>cr_caps := filter (\<lambda>x. x \<noteq> capability) (cr_caps reqs)\<rparr>) (gn_capability_reqs n)\<rparr>"

fun apply_payload :: "OpPayload \<Rightarrow> SemanticGraph \<Rightarrow> SemanticGraph" where
  "apply_payload (CreateNode n) g = g\<lparr>sg_nodes := sg_nodes g @ [n]\<rparr>"
| "apply_payload (AddEdge e) g = g\<lparr>sg_edges := sg_edges g @ [e]\<rparr>"
| "apply_payload (RemoveNode i) g = remove_node i g"
| "apply_payload (SetNodeName i name) g =
     g\<lparr>sg_nodes := update_first (\<lambda>n. gn_id n = i) (\<lambda>n. n\<lparr>gn_name := name\<rparr>) (sg_nodes g)\<rparr>"
| "apply_payload (RemoveNodeByName name) g =
     (case node_id_by_name g name of None \<Rightarrow> g | Some i \<Rightarrow> remove_node i g)"
| "apply_payload (RenameNodeByName target name) g =
     update_node_by_name g target (\<lambda>n. n\<lparr>gn_name := name\<rparr>)"
| "apply_payload (AddEdgeByName source target kind) g =
     (case (node_id_by_name g source, node_id_by_name g target) of
        (Some s, Some t) \<Rightarrow> g\<lparr>sg_edges := sg_edges g @ [new_edge s t kind]\<rparr>
      | _ \<Rightarrow> g)"
| "apply_payload (RemoveEdgeByName source target kind) g =
     (case (node_id_by_name g source, node_id_by_name g target) of
        (Some s, Some t) \<Rightarrow>
          g\<lparr>sg_edges := filter (\<lambda>e. ge_source e \<noteq> s \<or> ge_target e \<noteq> t \<or> ge_kind e \<noteq> kind) (sg_edges g)\<rparr>
      | _ \<Rightarrow> g)"
| "apply_payload (SetReturnByName target ty) g =
     update_node_by_name g target (\<lambda>n. n\<lparr>gn_return_type := Some ty\<rparr>)"
| "apply_payload (SetBodyByName target body) g =
     update_node_by_name g target (\<lambda>n. n\<lparr>gn_body_expr := Some body\<rparr>)"
| "apply_payload (SetMetadataByName target key val) g =
     update_node_by_name g target (set_node_metadata key val)"
| "apply_payload (AddParamByName target name ty) g =
     update_node_by_name g target (add_param name ty)"
| "apply_payload (AddEffectByName target effect) g =
     update_node_by_name g target (add_effect effect)"
| "apply_payload (RemoveEffectByName target effect) g =
     update_node_by_name g target (remove_effect effect)"
| "apply_payload (AddContractByName target kind rule) g =
     update_node_by_name g target (add_contract kind rule)"
| "apply_payload (RemoveContractByName target rule) g =
     update_node_by_name g target (remove_contract rule)"
| "apply_payload (AddCapabilityReqByName target capability) g =
     update_node_by_name g target (add_capability capability)"
| "apply_payload (RemoveCapabilityReqByName target capability) g =
     update_node_by_name g target (remove_capability capability)"
| "apply_payload (SetVisibilityByName target visibility) g =
     update_node_by_name g target (\<lambda>n. n\<lparr>gn_visibility := Some visibility\<rparr>)"
| "apply_payload (AddBindingByName target binding) g =
     update_node_by_name g target (\<lambda>n. n\<lparr>gn_bindings := push_new binding (gn_bindings n)\<rparr>)"
| "apply_payload (AddInferredFactByName target inferred) g =
     update_node_by_name g target (\<lambda>n. n\<lparr>gn_inferred := push_new inferred (gn_inferred n)\<rparr>)"
| "apply_payload (AddDerivedImplByName target impl_name) g =
     update_node_by_name g target (\<lambda>n. n\<lparr>gn_derived_impls := push_new impl_name (gn_derived_impls n)\<rparr>)"
| "apply_payload (AddGeneratedArtifactByName target artifact) g =
     update_node_by_name g target
       (\<lambda>n. n\<lparr>gn_generated_artifacts := push_new artifact (gn_generated_artifacts n)\<rparr>)"
| "apply_payload (AddAssertionByName target assertion) g =
     update_node_by_name g target (\<lambda>n. n\<lparr>gn_assertions := push_new assertion (gn_assertions n)\<rparr>)"
| "apply_payload (SetWorkflowStateByName target state) g =
     update_node_by_name g target (\<lambda>n. n\<lparr>gn_workflow_state := Some state\<rparr>)"
| "apply_payload Noop g = g"

section \<open>Application\<close>

text \<open>The loop over the operations; \<open>rollback\<close> is the clone taken before it.\<close>

fun apply_ops ::
  "SemanticGraph \<Rightarrow> CanonicalOp list \<Rightarrow> SemanticGraph \<Rightarrow> ChangeSetOutcome \<times> SemanticGraph" where
  "apply_ops rollback [] g = (Applied, g)"
| "apply_ops rollback (op # ops) g =
     (let g' = apply_payload (op_payload op) g
      in case validate g' of
           Inl err \<Rightarrow> (Failed (InvariantViolated err), rollback)
         | Inr _ \<Rightarrow> apply_ops rollback ops g')"

definition apply_cs ::
  "Codec \<Rightarrow> ('b \<Rightarrow> SnapshotId) \<Rightarrow> CanonicalChangeSet \<Rightarrow> SemanticGraph \<Rightarrow> 'b
    \<Rightarrow> ChangeSetOutcome \<times> SemanticGraph" where
  "apply_cs c current_snapshot_id cs g bridge =
     (let live_id = current_snapshot_id bridge
      in if cc_base_snapshot_id cs \<noteq> live_id then (RebaseRequired live_id, g)
         else case check_preconditions c (cc_preconditions cs) g of
                Some reason \<Rightarrow> (Failed reason, g)
              | None \<Rightarrow> apply_ops g (cc_ops cs) g)"

section \<open>Transactions\<close>

text \<open>The states a sequence of steps passes through.\<close>

fun trail :: "('op \<Rightarrow> 's \<Rightarrow> 's) \<Rightarrow> 'op list \<Rightarrow> 's \<Rightarrow> 's list" where
  "trail step [] s = []"
| "trail step (x # xs) s = step x s # trail step xs (step x s)"

lemma last_trail: "last (s # trail step xs s) = fold step xs s"
  by (induction xs arbitrary: s) auto

text \<open>A loop that checks the state after each step and hands back a saved state on failure.\<close>

locale transaction =
  fixes step :: "'op \<Rightarrow> 's \<Rightarrow> 's"
    and check :: "'s \<Rightarrow> ('e, unit) result"
    and run :: "'s \<Rightarrow> 'op list \<Rightarrow> 's \<Rightarrow> 'r \<times> 's"
    and success :: 'r
    and failure :: "'e \<Rightarrow> 'r"
  assumes run_Nil: "run rb [] s = (success, s)"
    and run_Cons: "run rb (x # xs) s =
      (case check (step x s) of Inl e \<Rightarrow> (failure e, rb) | Inr _ \<Rightarrow> run rb xs (step x s))"
    and failure_neq: "failure e \<noteq> success"
begin

lemma run_success_iff:
  "run rb xs s = (success, t) \<longleftrightarrow>
     list_all (\<lambda>u. check u = Inr ()) (trail step xs s) \<and> t = fold step xs s"
  by (induction xs arbitrary: s) (auto simp: run_Nil run_Cons failure_neq split: sum.splits)

lemma run_rollback: "run rb xs s = (r, t) \<Longrightarrow> r \<noteq> success \<Longrightarrow> t = rb"
  by (induction xs arbitrary: s) (auto simp: run_Nil run_Cons split: sum.splits)

lemma run_failure:
  assumes "run rb xs s = (r, t)" "r \<noteq> success"
  shows "\<exists>e ys x zs. r = failure e \<and> xs = ys @ x # zs \<and>
    list_all (\<lambda>u. check u = Inr ()) (trail step ys s) \<and> check (step x (fold step ys s)) = Inl e"
  using assms
proof (induction xs arbitrary: s)
  case (Cons x xs)
  show ?case
  proof (cases "check (step x s)")
    case (Inl e)
    with Cons.prems have "r = failure e" by (simp add: run_Cons)
    with Inl show ?thesis by (intro exI[of _ e] exI[of _ "[]"] exI[of _ x] exI[of _ xs]) simp
  next
    case (Inr u)
    with Cons.prems have "run rb xs (step x s) = (r, t)" by (simp add: run_Cons)
    from Cons.IH[OF this Cons.prems(2)] obtain e ys y zs where
      "r = failure e" "xs = ys @ y # zs"
      "list_all (\<lambda>u. check u = Inr ()) (trail step ys (step x s))"
      "check (step y (fold step ys (step x s))) = Inl e" by blast
    with Inr show ?thesis
      by (intro exI[of _ e] exI[of _ "x # ys"] exI[of _ y] exI[of _ zs]) simp
  qed
qed (simp add: run_Nil)

end

abbreviation apply_op :: "CanonicalOp \<Rightarrow> SemanticGraph \<Rightarrow> SemanticGraph" where
  "apply_op op \<equiv> apply_payload (op_payload op)"

interpretation tx: transaction apply_op validate apply_ops Applied "\<lambda>e. Failed (InvariantViolated e)"
  by unfold_locales (simp_all add: Let_def)

section \<open>The invariant of the graph\<close>

text \<open>When a payload keeps a well-formed graph well formed.\<close>

fun payload_admissible :: "OpPayload \<Rightarrow> SemanticGraph \<Rightarrow> bool" where
  "payload_admissible (CreateNode n) g = (gn_id n \<notin> set (node_ids g))"
| "payload_admissible (AddEdge e) g = edge_closed (set (node_ids g)) e"
| "payload_admissible _ g = True"

fun ops_admissible :: "CanonicalOp list \<Rightarrow> SemanticGraph \<Rightarrow> bool" where
  "ops_admissible [] g = True"
| "ops_admissible (op # ops) g =
     (payload_admissible (op_payload op) g \<and> ops_admissible ops (apply_op op g))"

lemma node_update_id [simp]:
  "gn_id (set_node_metadata k v n) = gn_id n" "gn_id (add_param p t n) = gn_id n"
  "gn_id (add_effect e n) = gn_id n" "gn_id (remove_effect e n) = gn_id n"
  "gn_id (add_contract k r n) = gn_id n" "gn_id (remove_contract r n) = gn_id n"
  "gn_id (add_capability q n) = gn_id n" "gn_id (remove_capability q n) = gn_id n"
  by (simp_all add: set_node_metadata_def add_param_def add_effect_def remove_effect_def
      add_contract_def remove_contract_def add_capability_def remove_capability_def Let_def)

lemma node_update_name [simp]:
  "gn_name (set_node_metadata k v n) = gn_name n" "gn_name (add_param p t n) = gn_name n"
  "gn_name (add_effect e n) = gn_name n" "gn_name (remove_effect e n) = gn_name n"
  "gn_name (add_contract k r n) = gn_name n" "gn_name (remove_contract r n) = gn_name n"
  "gn_name (add_capability q n) = gn_name n" "gn_name (remove_capability q n) = gn_name n"
  by (simp_all add: set_node_metadata_def add_param_def add_effect_def remove_effect_def
      add_contract_def remove_contract_def add_capability_def remove_capability_def Let_def)

lemma update_node_by_name_sel [simp]:
  "sg_edges (update_node_by_name g t f) = sg_edges g"
  "(\<And>n. gn_id (f n) = gn_id n) \<Longrightarrow> node_ids (update_node_by_name g t f) = node_ids g"
  by (simp_all add: update_node_by_name_def)

lemma graph_wf_cong: "node_ids g = node_ids h \<Longrightarrow> sg_edges g = sg_edges h \<Longrightarrow> graph_wf g = graph_wf h"
  by (simp add: graph_wf_def)

lemma graph_wf_update_node_by_name [simp]:
  "(\<And>n. gn_id (f n) = gn_id n) \<Longrightarrow> graph_wf (update_node_by_name g t f) = graph_wf g"
  by (rule graph_wf_cong) auto

lemma graph_wf_remove_node: "graph_wf g \<Longrightarrow> graph_wf (remove_node i g)"
  by (auto simp: graph_simps remove_node_def distinct_map inj_on_def)

lemma node_id_by_name_mem: "node_id_by_name g s = Some i \<Longrightarrow> i \<in> set (node_ids g)"
  by (auto simp: node_id_by_name_def dest: find_Some_mem)

lemma graph_wf_apply_payload:
  assumes "graph_wf g"
  shows "graph_wf (apply_payload p g) \<longleftrightarrow> payload_admissible p g"
proof (cases p)
  case (CreateNode n)
  with assms show ?thesis by (auto simp: graph_simps)
next
  case (AddEdge e)
  with assms show ?thesis by (auto simp: graph_simps)
next
  case (SetNodeName i s)
  have "graph_wf (apply_payload p g) = graph_wf g"
    unfolding SetNodeName by (rule graph_wf_cong) auto
  with assms show ?thesis by (simp add: SetNodeName)
next
  case (AddEdgeByName s t k)
  with assms show ?thesis
    by (auto simp: graph_simps dest: node_id_by_name_mem split: option.splits)
next
  case (RemoveEdgeByName s t k)
  with assms show ?thesis by (auto simp: graph_simps split: option.splits)
qed (use assms in \<open>auto simp: graph_wf_remove_node split: option.splits\<close>)

text \<open>The states of a run against the admissibility of its operations.\<close>

lemma trail_wf_iff:
  "graph_wf g \<Longrightarrow> list_all graph_wf (trail apply_op ops g) \<longleftrightarrow> ops_admissible ops g"
  by (induction ops arbitrary: g) (auto simp: graph_wf_apply_payload)

lemma fold_wf:
  assumes "graph_wf g" "list_all graph_wf (trail apply_op ops g)"
  shows "graph_wf (fold apply_op ops g)"
proof -
  have "fold apply_op ops g \<in> set (g # trail apply_op ops g)"
    by (metis last_trail last_in_set list.distinct(1))
  with assms show ?thesis by (auto simp: list_all_iff)
qed

lemma check_preconditions_None_iff:
  "check_preconditions c ps g = None \<longleftrightarrow> list_all (\<lambda>p. evaluate_precondition c p g = None) ps"
  by (induction ps) (auto split: option.splits)

lemma apply_ops_Applied_iff:
  "apply_ops rb ops g = (Applied, g') \<longleftrightarrow>
     list_all graph_wf (trail apply_op ops g) \<and> g' = fold apply_op ops g"
  by (simp add: tx.run_success_iff validate_Ok_iff)

lemma apply_cs_Applied_iff:
  "apply_cs c cur cs g b = (Applied, g') \<longleftrightarrow>
     cc_base_snapshot_id cs = cur b \<and>
     list_all (\<lambda>p. evaluate_precondition c p g = None) (cc_preconditions cs) \<and>
     list_all graph_wf (trail apply_op (cc_ops cs) g) \<and> g' = fold apply_op (cc_ops cs) g"
  by (auto simp: apply_cs_def Let_def apply_ops_Applied_iff
      check_preconditions_None_iff[symmetric] split: option.splits)

lemma apply_cs_not_Applied:
  "fst (apply_cs c cur cs g b) \<noteq> Applied \<Longrightarrow> snd (apply_cs c cur cs g b) = g"
  using tx.run_rollback[of g "cc_ops cs" g]
  by (auto simp: apply_cs_def Let_def split: option.splits prod.splits) (metis prod.collapse)

lemma apply_cs_wf: "graph_wf g \<Longrightarrow> graph_wf (snd (apply_cs c cur cs g b))"
proof (cases "fst (apply_cs c cur cs g b) = Applied")
  case True
  assume wf: "graph_wf g"
  from True have "apply_cs c cur cs g b = (Applied, snd (apply_cs c cur cs g b))"
    by (metis prod.collapse)
  then show ?thesis using wf by (auto simp: apply_cs_Applied_iff intro: fold_wf)
qed (simp add: apply_cs_not_Applied)

section \<open>Field updates\<close>

text \<open>The name a payload addresses when it changes fields of one node only.\<close>

fun field_target :: "OpPayload \<Rightarrow> string option" where
  "field_target (SetReturnByName t _) = Some t"
| "field_target (SetBodyByName t _) = Some t"
| "field_target (SetMetadataByName t _ _) = Some t"
| "field_target (AddParamByName t _ _) = Some t"
| "field_target (AddEffectByName t _) = Some t"
| "field_target (RemoveEffectByName t _) = Some t"
| "field_target (AddContractByName t _ _) = Some t"
| "field_target (RemoveContractByName t _) = Some t"
| "field_target (AddCapabilityReqByName t _) = Some t"
| "field_target (RemoveCapabilityReqByName t _) = Some t"
| "field_target (SetVisibilityByName t _) = Some t"
| "field_target (AddBindingByName t _) = Some t"
| "field_target (AddInferredFactByName t _) = Some t"
| "field_target (AddDerivedImplByName t _) = Some t"
| "field_target (AddGeneratedArtifactByName t _) = Some t"
| "field_target (AddAssertionByName t _) = Some t"
| "field_target (SetWorkflowStateByName t _) = Some t"
| "field_target _ = None"

text \<open>The update of the addressed node.\<close>

fun field_update :: "OpPayload \<Rightarrow> GraphNode \<Rightarrow> GraphNode" where
  "field_update (SetReturnByName _ ty) n = n\<lparr>gn_return_type := Some ty\<rparr>"
| "field_update (SetBodyByName _ body) n = n\<lparr>gn_body_expr := Some body\<rparr>"
| "field_update (SetMetadataByName _ k v) n = set_node_metadata k v n"
| "field_update (AddParamByName _ p t) n = add_param p t n"
| "field_update (AddEffectByName _ e) n = add_effect e n"
| "field_update (RemoveEffectByName _ e) n = remove_effect e n"
| "field_update (AddContractByName _ k r) n = add_contract k r n"
| "field_update (RemoveContractByName _ r) n = remove_contract r n"
| "field_update (AddCapabilityReqByName _ q) n = add_capability q n"
| "field_update (RemoveCapabilityReqByName _ q) n = remove_capability q n"
| "field_update (SetVisibilityByName _ v) n = n\<lparr>gn_visibility := Some v\<rparr>"
| "field_update (AddBindingByName _ b) n = n\<lparr>gn_bindings := push_new b (gn_bindings n)\<rparr>"
| "field_update (AddInferredFactByName _ f) n = n\<lparr>gn_inferred := push_new f (gn_inferred n)\<rparr>"
| "field_update (AddDerivedImplByName _ d) n = n\<lparr>gn_derived_impls := push_new d (gn_derived_impls n)\<rparr>"
| "field_update (AddGeneratedArtifactByName _ a) n =
     n\<lparr>gn_generated_artifacts := push_new a (gn_generated_artifacts n)\<rparr>"
| "field_update (AddAssertionByName _ a) n = n\<lparr>gn_assertions := push_new a (gn_assertions n)\<rparr>"
| "field_update (SetWorkflowStateByName _ s) n = n\<lparr>gn_workflow_state := Some s\<rparr>"
| "field_update _ n = n"

lemma update_node_by_name_ext:
  "(\<And>n. f n = h n) \<Longrightarrow> update_node_by_name g t f = update_node_by_name g t h"
  by (simp add: update_node_by_name_def cong: update_first_cong)

lemma apply_field_payload:
  "field_target p = Some t \<Longrightarrow> apply_payload p g = update_node_by_name g t (field_update p)"
  by (cases p) (auto intro!: update_node_by_name_ext)

lemma field_update_name [simp]: "gn_name (field_update p n) = gn_name n"
  by (cases p) auto

lemma get_or_insert_simps [simp]: "get_or_insert d None = d" "get_or_insert d (Some a) = a"
  by (simp_all add: get_or_insert_def)

lemma push_new_mem [simp]: "x \<in> set xs \<Longrightarrow> push_new x xs = xs"
  by (simp add: push_new_def)

lemma add_idem [simp]:
  "add_param p t (add_param p t n) = add_param p t n"
  "add_effect e (add_effect e n) = add_effect e n"
  "add_contract k r (add_contract k r n) = add_contract k r n"
  "add_capability q (add_capability q n) = add_capability q n"
  "set_node_metadata k v (set_node_metadata k v n) = set_node_metadata k v n"
  by (auto simp: add_param_def add_effect_def add_contract_def add_capability_def
      set_node_metadata_def Let_def)

lemma remove_idem [simp]:
  "remove_effect e (remove_effect e n) = remove_effect e n"
  "remove_contract r (remove_contract r n) = remove_contract r n"
  "remove_capability q (remove_capability q n) = remove_capability q n"
  by (auto simp: remove_effect_def remove_contract_def remove_capability_def
      option.map_comp comp_def)

lemma field_update_idem [simp]: "field_update p (field_update p n) = field_update p n"
  by (cases p) auto

lemma update_first_commute:
  assumes "\<And>x. p x \<Longrightarrow> \<not> q x"
    and "\<And>x. p x \<Longrightarrow> p (f x)" "\<And>x. q x \<Longrightarrow> q (h x)"
  shows "update_first p f (update_first q h xs) = update_first q h (update_first p f xs)"
  using assms by (induction xs) auto

section \<open>Properties\<close>

text \<open>
  C6. A change set is applied completely or not at all: either the outcome is
  \<open>Applied\<close> and the graph is the result of all payloads in order, or the outcome
  names the live snapshot or a failure and the graph is the one that was passed in.
\<close>

theorem apply_all_or_nothing:
  "apply_cs c cur cs g b = (Applied, fold (\<lambda>op. apply_payload (op_payload op)) (cc_ops cs) g) \<or>
   apply_cs c cur cs g b = (RebaseRequired (cur b), g) \<or>
   (\<exists>reason. apply_cs c cur cs g b = (Failed reason, g))"
proof (cases "fst (apply_cs c cur cs g b) = Applied")
  case True
  then show ?thesis by (metis apply_cs_Applied_iff prod.collapse)
next
  case False
  obtain r t where rt: "apply_ops g (cc_ops cs) g = (r, t)" by fastforce
  have "r = Applied \<or> (\<exists>e. r = Failed (InvariantViolated e)) \<and> t = g"
    using tx.run_failure[OF rt] tx.run_rollback[OF rt] by auto
  with False rt show ?thesis by (auto simp: apply_cs_def Let_def split: option.splits if_splits)
qed

text \<open>
  C2. On a well-formed graph a change set is applied exactly when its base is
  the live snapshot, every precondition holds of the graph before the first
  operation, and each operation is admissible where it runs: a created node has
  a fresh reference and an added edge has known endpoints. The resulting graph
  passes validation.
\<close>

theorem apply_succeeds_iff:
  assumes "validate g = Inr ()"
  shows "(fst (apply_cs c cur cs g b) = Applied \<longleftrightarrow>
       cc_base_snapshot_id cs = cur b \<and>
       list_all (\<lambda>p. evaluate_precondition c p g = None) (cc_preconditions cs) \<and>
       ops_admissible (cc_ops cs) g) \<and>
     validate (snd (apply_cs c cur cs g b)) = Inr ()"
proof -
  from assms have wf: "graph_wf g" by (simp add: validate_Ok_iff)
  have "fst (apply_cs c cur cs g b) = Applied \<longleftrightarrow> (\<exists>g'. apply_cs c cur cs g b = (Applied, g'))"
    by (metis fst_conv prod.collapse)
  with wf show ?thesis by (simp add: apply_cs_Applied_iff trail_wf_iff validate_Ok_iff apply_cs_wf)
qed

definition sample_graph :: SemanticGraph where
  "sample_graph = \<lparr>sg_nodes = [new_node 0 NodeKind.Module ''m'', new_node 1 NodeKind.Function ''f''],
                   sg_edges = [new_edge 0 1 EdgeKind.DependsOn]\<rparr>"

definition sample_codec :: Codec where
  "sample_codec = \<lparr>cbor_node = (\<lambda>n. str_bytes (gn_name n)), cbor_op = (\<lambda>k. [of_nat (phase_order k)]),
                   blake3 = (\<lambda>bs. bs)\<rparr>"

lemma sample_graph_valid: "validate sample_graph = Inr ()"
  by (simp add: validate_Ok_iff sample_graph_def graph_simps)

theorem apply_succeeds_iff_witness:
  "fst (apply_cs sample_codec (\<lambda>i. i)
     (default_canonical\<lparr>cc_ops := [default_op\<lparr>op_payload := RemoveNode 1\<rparr>],
        cc_preconditions := [AssertExistsByName ''f'']\<rparr>) sample_graph 0) = Applied"
  using apply_succeeds_iff[OF sample_graph_valid, of sample_codec "\<lambda>i. i"
     "default_canonical\<lparr>cc_ops := [default_op\<lparr>op_payload := RemoveNode 1\<rparr>],
        cc_preconditions := [AssertExistsByName ''f'']\<rparr>" 0]
  by (simp add: default_canonical_def default_op_def sample_graph_def)

text \<open>The first error of \<open>validate\<close> after a step from a well-formed graph.\<close>

lemma validate_nodes_snoc:
  assumes "distinct (map gn_id ns)" "set (map gn_id ns) \<inter> seen = {}"
  shows "validate_nodes seen (ns @ [n]) =
    (if gn_id n \<in> seen \<union> set (map gn_id ns) then Inl (DuplicateRef (gn_id n))
     else Inr (insert (gn_id n) (seen \<union> set (map gn_id ns))))"
  using assms by (induction ns arbitrary: seen) auto

lemma validate_edges_snoc:
  "list_all (edge_closed seen) es \<Longrightarrow> validate_edges seen (es @ [e]) = validate_edges seen [e]"
  by (induction es) (auto simp: edge_closed_def)

lemma validate_nodes_distinct:
  "distinct (node_ids g) \<Longrightarrow> validate_nodes {} (sg_nodes g) = Inr (set (node_ids g))"
  by (simp add: validate_nodes_Ok_iff)

lemma validate_step_error:
  assumes "graph_wf g" "validate (apply_payload p g) = Inl e"
  shows "(\<exists>n. p = CreateNode n \<and> gn_id n \<in> set (node_ids g) \<and> e = DuplicateRef (gn_id n)) \<or>
    (\<exists>ed. p = AddEdge ed \<and> validate_edges (set (node_ids g)) [ed] = Inl e)"
proof -
  have "\<not> payload_admissible p g"
    using assms graph_wf_apply_payload[OF assms(1), of p] validate_Ok_iff[of "apply_payload p g"]
    by auto
  then consider (node) n where "p = CreateNode n" "gn_id n \<in> set (node_ids g)"
    | (edge) ed where "p = AddEdge ed"
    by (cases p) auto
  then show ?thesis
  proof cases
    case node
    with assms have "e = DuplicateRef (gn_id n)"
      by (auto simp: validate_def validate_nodes_snoc graph_wf_def)
    with node show ?thesis by blast
  next
    case edge
    with assms have "validate_edges (set (node_ids g)) [ed] = Inl e"
      by (simp add: validate_def validate_nodes_distinct validate_edges_snoc graph_wf_def)
    with edge show ?thesis by blast
  qed
qed

text \<open>
  A reported invariant violation names its cause: from a well-formed graph,
  the operations before the failing one were admissible and the failing one
  either creates a node whose reference is already present, which is the
  reported reference, or adds an edge whose first unknown endpoint is reported.
\<close>

lemma apply_violation_cause:
  assumes "validate g = Inr ()"
    and "apply_cs c cur cs g b = (Failed (InvariantViolated e), g')"
  shows "\<exists>ys op zs h. cc_ops cs = ys @ op # zs \<and> ops_admissible ys g \<and>
    h = fold (\<lambda>x. apply_payload (op_payload x)) ys g \<and>
    ((\<exists>n. op_payload op = CreateNode n \<and> gn_id n \<in> set (node_ids h) \<and> e = DuplicateRef (gn_id n)) \<or>
     (\<exists>ed. op_payload op = AddEdge ed \<and> validate_edges (set (node_ids h)) [ed] = Inl e))"
proof -
  from assms(1) have wf: "graph_wf g" by (simp add: validate_Ok_iff)
  have no_pre: "check_preconditions c ps g \<noteq> Some (InvariantViolated e)" for ps
  proof (induction ps)
    case (Cons p ps)
    then show ?case by (cases p) (auto simp: Let_def split: option.splits if_splits)
  qed simp
  with assms(2) have run: "apply_ops g (cc_ops cs) g = (Failed (InvariantViolated e), g')"
    by (auto simp: apply_cs_def Let_def split: if_splits option.splits)
  from tx.run_failure[OF run] obtain ys op zs where
    ops: "cc_ops cs = ys @ op # zs" "list_all graph_wf (trail apply_op ys g)"
    "validate (apply_op op (fold apply_op ys g)) = Inl e"
    by (auto simp: validate_Ok_iff)
  with wf have "graph_wf (fold apply_op ys g)" "ops_admissible ys g"
    by (auto simp: fold_wf trail_wf_iff)
  with ops validate_step_error[OF _ ops(3)] show ?thesis by blast
qed

lemma apply_violation_cause_witness:
  "\<exists>ys op zs h. [default_op\<lparr>op_payload := CreateNode (new_node 1 NodeKind.Type ''t'')\<rparr>] = ys @ op # zs \<and>
    ops_admissible ys sample_graph \<and> h = fold (\<lambda>x. apply_payload (op_payload x)) ys sample_graph \<and>
    ((\<exists>n. op_payload op = CreateNode n \<and> gn_id n \<in> set (node_ids h) \<and> DuplicateRef 1 = DuplicateRef (gn_id n)) \<or>
     (\<exists>ed. op_payload op = AddEdge ed \<and> validate_edges (set (node_ids h)) [ed] = Inl (DuplicateRef 1)))"
  using apply_violation_cause[OF sample_graph_valid, of sample_codec "\<lambda>i. i"
     "default_canonical\<lparr>cc_ops := [default_op\<lparr>op_payload := CreateNode (new_node 1 NodeKind.Type ''t'')\<rparr>]\<rparr>"
     0 "DuplicateRef 1" sample_graph]
  by (simp add: apply_cs_def default_canonical_def default_op_def sample_graph_def validate_def)

text \<open>
  Field updates are idempotent, and updates of nodes addressed by different
  names commute, so their relative order does not matter.
\<close>

lemma field_payloads_idempotent_commute:
  assumes "field_target p = Some t" "field_target q = Some u" "t \<noteq> u"
  shows "apply_payload p (apply_payload p g) = apply_payload p g \<and>
    apply_payload p (apply_payload q g) = apply_payload q (apply_payload p g)"
proof
  show "apply_payload p (apply_payload p g) = apply_payload p g"
    by (simp add: apply_field_payload[OF assms(1)] update_node_by_name_def update_first_comp comp_def)
  show "apply_payload p (apply_payload q g) = apply_payload q (apply_payload p g)"
    using assms(3) update_first_commute[of "\<lambda>n. gn_name n = t" "\<lambda>n. gn_name n = u"
        "field_update p" "field_update q" "sg_nodes g"]
    by (simp add: apply_field_payload[OF assms(1)] apply_field_payload[OF assms(2)]
        update_node_by_name_def)
qed

lemma field_payloads_idempotent_commute_witness:
  "apply_payload (AddEffectByName ''f'' ''io'') (apply_payload (SetReturnByName ''m'' ''Int'') sample_graph)
   = apply_payload (SetReturnByName ''m'' ''Int'') (apply_payload (AddEffectByName ''f'' ''io'') sample_graph)"
  using field_payloads_idempotent_commute[of "AddEffectByName ''f'' ''io''" "''f''"
     "SetReturnByName ''m'' ''Int''" "''m''" sample_graph] by simp

text \<open>
  C28. Removing a node removes it together with exactly its incident edges: the
  remaining nodes and edges keep their order, no remaining edge mentions the
  reference, and a well-formed graph stays well formed.
\<close>

theorem remove_node_exact:
  assumes "validate g = Inr ()"
  shows "validate (apply_payload (RemoveNode i) g) = Inr () \<and>
    i \<notin> set (node_ids (apply_payload (RemoveNode i) g)) \<and>
    sg_nodes (apply_payload (RemoveNode i) g) = filter (\<lambda>n. gn_id n \<noteq> i) (sg_nodes g) \<and>
    sg_edges (apply_payload (RemoveNode i) g) =
      filter (edge_closed (set (node_ids g) - {i})) (sg_edges g)"
proof -
  from assms have wf: "graph_wf g" by (simp add: validate_Ok_iff)
  then have "filter (\<lambda>e. ge_source e \<noteq> i \<and> ge_target e \<noteq> i) (sg_edges g) =
      filter (edge_closed (set (node_ids g) - {i})) (sg_edges g)"
    by (intro filter_cong) (auto simp: graph_simps)
  with wf show ?thesis
    by (auto simp: validate_Ok_iff graph_wf_remove_node) (auto simp: remove_node_def)
qed

theorem remove_node_exact_witness:
  "sg_edges (apply_payload (RemoveNode 1) sample_graph) = []"
  using remove_node_exact[OF sample_graph_valid, of 1]
  by (simp add: sample_graph_def edge_closed_def)

text \<open>
  Hash preconditions detect tampering: if the hash of the encoding separates
  the nodes involved, a precondition recorded from a node holds of a graph
  exactly when the first node found under that reference, or under that name,
  is the recorded one, field by field.
\<close>

lemma assert_hash_sound:
  assumes "inj_on (\<lambda>n. blake3 c (cbor_node c n)) (insert n (set (sg_nodes g)))"
  shows "(evaluate_precondition c (AssertHash i (compute_node_hash c n)) g = None \<longleftrightarrow>
      find (\<lambda>m. gn_id m = i) (sg_nodes g) = Some n) \<and>
    (evaluate_precondition c (AssertHashByName s (compute_node_hash c n)) g = None \<longleftrightarrow>
      find (\<lambda>m. gn_name m = s) (sg_nodes g) = Some n)"
proof -
  have "compute_node_hash c m = compute_node_hash c n \<longleftrightarrow> m = n" if "m \<in> set (sg_nodes g)" for m
    using assms that by (auto simp: compute_node_hash_def inj_on_def)
  then show ?thesis by (auto split: option.splits dest: find_Some_mem)
qed

lemma assert_hash_sound_witness:
  "evaluate_precondition sample_codec
     (AssertHash 1 (compute_node_hash sample_codec (new_node 1 NodeKind.Function ''f''))) sample_graph = None"
proof -
  have "inj_on (\<lambda>n. blake3 sample_codec (cbor_node sample_codec n))
      (insert (new_node 1 NodeKind.Function ''f'') (set (sg_nodes sample_graph)))"
    by (auto simp: sample_codec_def sample_graph_def inj_on_def str_bytes_def)
  from assert_hash_sound[OF this, of 1 "[]"] show ?thesis by (simp add: sample_graph_def)
qed

end
