(* ===== verification/Rebase.thy ===== *)
theory Rebase
  imports Change_Apply
begin

text \<open>
  Semantic rebase and semantic merge
  (\<^verbatim>\<open>crates/ail-coordinator/src/rebase.rs\<close>). A \<^verbatim>\<open>BTreeSet\<close> that is only
  queried is a set. The lemmas show what a successful rebase means for the graph:
  change sets whose references are disjoint can be exchanged.
\<close>

section \<open>Model\<close>

record StructuralDiff =
  sd_touched_nodes :: "NodeRef set"

text \<open>\<^verbatim>\<open>extract_node_refs\<close> adds to \<open>out\<close>; name-based payloads add nothing.\<close>

fun extract_node_refs :: "OpPayload \<Rightarrow> NodeRef set \<Rightarrow> NodeRef set" where
  "extract_node_refs (CreateNode n) out = insert (gn_id n) out"
| "extract_node_refs (RemoveNode i) out = insert i out"
| "extract_node_refs (SetNodeName i _) out = insert i out"
| "extract_node_refs (AddEdge e) out = insert (ge_target e) (insert (ge_source e) out)"
| "extract_node_refs _ out = out"

definition collect_refs :: "CanonicalOp list \<Rightarrow> NodeRef set" where
  "collect_refs ops = fold (\<lambda>op. extract_node_refs (op_payload op)) ops {}"

definition from_ops :: "CanonicalOp list \<Rightarrow> StructuralDiff" where
  "from_ops ops = \<lparr>sd_touched_nodes = collect_refs ops\<rparr>"

datatype RebaseResult =
    Rebased CanonicalChangeSet
  | Conflict ConflictReason

definition rebase :: "CanonicalChangeSet \<Rightarrow> StructuralDiff \<Rightarrow> SnapshotId \<Rightarrow> RebaseResult" where
  "rebase pending diff live_snapshot_id =
     (let pending_nodes = collect_refs (cc_ops pending);
          conflicts = pending_nodes \<inter> sd_touched_nodes diff
      in if conflicts = {} then Rebased (pending\<lparr>cc_base_snapshot_id := live_snapshot_id\<rparr>)
         else Conflict SameNodeModifiedIncompatibly)"

definition classify_conflict :: "NodeRef set \<Rightarrow> NodeRef set \<Rightarrow> ConflictReason" where
  "classify_conflict conflicts removed_in_diff =
     (if conflicts \<inter> removed_in_diff \<noteq> {} then NodeDeletedWhileModified
      else SameNodeModifiedIncompatibly)"

datatype MergeResult =
    Merged SemanticGraph
  | MergeConflict ConflictReason NodeRef

definition node_has_semantic_conflict :: "GraphNode \<Rightarrow> GraphNode \<Rightarrow> bool" where
  "node_has_semantic_conflict l r =
     (gn_return_type l \<noteq> gn_return_type r \<or> gn_body_expr l \<noteq> gn_body_expr r \<or>
      gn_effect_row l \<noteq> gn_effect_row r)"

text \<open>Step 2: the nodes to append, or the first conflicting reference.\<close>

fun merge_nodes ::
  "(NodeRef, GraphNode) btree_map \<Rightarrow> GraphNode list \<Rightarrow> (NodeRef, GraphNode list) result" where
  "merge_nodes left_by_ref [] = Ok []"
| "merge_nodes left_by_ref (r # rs) =
     (case bt_get left_by_ref (gn_id r) of
        None \<Rightarrow> rbind (merge_nodes left_by_ref rs) (\<lambda>ns. Ok (r # ns))
      | Some l \<Rightarrow> (if node_has_semantic_conflict l r then Err (gn_id r)
                  else merge_nodes left_by_ref rs))"

text \<open>The key of an edge; the source writes the kind as its debug text.\<close>

definition edge_key :: "GraphEdge \<Rightarrow> NodeRef \<times> NodeRef \<times> EdgeKind" where
  "edge_key e = (ge_source e, ge_target e, ge_kind e)"

definition semantic_merge :: "SemanticGraph \<Rightarrow> SemanticGraph \<Rightarrow> MergeResult" where
  "semantic_merge l r =
     (let left_by_ref = bt_collect (map (\<lambda>n. (gn_id n, n)) (sg_nodes l))
      in case merge_nodes left_by_ref (sg_nodes r) of
           Inl i \<Rightarrow> MergeConflict IncompatibleNodeModification i
         | Inr ns \<Rightarrow>
             (let left_edges = edge_key ` set (sg_edges l)
              in Merged \<lparr>sg_nodes = sg_nodes l @ ns,
                         sg_edges = sg_edges l @ filter (\<lambda>e. edge_key e \<notin> left_edges) (sg_edges r)\<rparr>))"

section \<open>References of operations\<close>

abbreviation payload_refs :: "OpPayload \<Rightarrow> NodeRef set" where
  "payload_refs p \<equiv> extract_node_refs p {}"

lemma extract_node_refs_out: "extract_node_refs p out = payload_refs p \<union> out"
  by (cases p) auto

lemma collect_refs_eq: "collect_refs ops = (\<Union>op \<in> set ops. payload_refs (op_payload op))"
proof -
  have "fold (\<lambda>op. extract_node_refs (op_payload op)) ops out =
      (\<Union>op \<in> set ops. payload_refs (op_payload op)) \<union> out" for out
  proof (induction ops arbitrary: out)
    case (Cons op ops)
    show ?case
      using Cons[of "extract_node_refs (op_payload op) out"]
        extract_node_refs_out[of "op_payload op" out] by auto
  qed simp
  then show ?thesis by (simp add: collect_refs_def)
qed

text \<open>Payloads the analysis sees completely.\<close>

fun ref_based :: "OpPayload \<Rightarrow> bool" where
  "ref_based (CreateNode _) = True"
| "ref_based (AddEdge _) = True"
| "ref_based (RemoveNode _) = True"
| "ref_based (SetNodeName _ _) = True"
| "ref_based Noop = True"
| "ref_based _ = False"

section \<open>Graphs up to the order of their lists\<close>

definition graph_equiv :: "SemanticGraph \<Rightarrow> SemanticGraph \<Rightarrow> bool" where
  "graph_equiv g h = (mset (sg_nodes g) = mset (sg_nodes h) \<and> mset (sg_edges g) = mset (sg_edges h))"

lemma graph_equiv_refl [simp, intro]: "graph_equiv g g"
  by (simp add: graph_equiv_def)

lemma graph_equiv_trans: "graph_equiv f g \<Longrightarrow> graph_equiv g h \<Longrightarrow> graph_equiv f h"
  by (simp add: graph_equiv_def)

lemma graph_equiv_sym: "graph_equiv g h \<Longrightarrow> graph_equiv h g"
  by (simp add: graph_equiv_def)

lemma graph_equiv_ids: "graph_equiv g h \<Longrightarrow> mset (node_ids g) = mset (node_ids h)"
  by (simp add: graph_equiv_def)

lemma graph_equiv_set_ids: "graph_equiv g h \<Longrightarrow> set (node_ids g) = set (node_ids h)"
  using graph_equiv_ids mset_eq_setD by blast

lemma graph_equiv_wf: "graph_equiv g h \<Longrightarrow> graph_wf g = graph_wf h"
proof -
  assume eq: "graph_equiv g h"
  then have "set (sg_edges g) = set (sg_edges h)" by (auto simp: graph_equiv_def dest: mset_eq_setD)
  moreover have "distinct (node_ids g) = distinct (node_ids h)"
    using graph_equiv_ids[OF eq] mset_eq_imp_distinct_iff by blast
  ultimately show ?thesis using graph_equiv_set_ids[OF eq] by (simp add: graph_wf_def list_all_iff)
qed

text \<open>With unique references, renaming by reference is a map.\<close>

lemma update_first_distinct:
  "distinct (map gn_id ns) \<Longrightarrow>
   update_first (\<lambda>n. gn_id n = i) f ns = map (\<lambda>n. if gn_id n = i then f n else n) ns"
proof (induction ns)
  case (Cons n ns)
  show ?case
  proof (cases "gn_id n = i")
    case True
    with Cons.prems have "\<forall>m \<in> set ns. gn_id m \<noteq> i" by (auto simp: image_iff)
    then have "map (\<lambda>n. if gn_id n = i then f n else n) ns = ns" by (simp add: map_idI)
    with True show ?thesis by simp
  next
    case False
    with Cons show ?thesis by simp
  qed
qed simp

lemma admissible_equiv:
  "graph_equiv g h \<Longrightarrow> payload_admissible p g = payload_admissible p h"
  using graph_equiv_set_ids[of g h] by (cases p) auto

lemma apply_payload_equiv:
  assumes "graph_equiv g h" "graph_wf g" "ref_based p"
  shows "graph_equiv (apply_payload p g) (apply_payload p h)"
proof -
  have wf: "graph_wf h" using assms(1,2) graph_equiv_wf by blast
  show ?thesis
  proof (cases p)
    case (SetNodeName i s)
    with assms(1,2) wf show ?thesis by (simp add: graph_equiv_def graph_wf_def update_first_distinct)
  qed (use assms in \<open>auto simp: graph_equiv_def remove_node_def\<close>)
qed

section \<open>Exchanging operations with disjoint references\<close>

lemma apply_payload_ids:
  assumes "ref_based p"
  shows "set (node_ids (apply_payload p g)) - payload_refs p = set (node_ids g) - payload_refs p"
proof (cases p)
  case (SetNodeName i s)
  have "node_ids (apply_payload p g) = node_ids g" by (simp add: SetNodeName)
  then show ?thesis by simp
qed (use assms in \<open>auto simp: remove_node_def\<close>)

lemma admissible_ids:
  assumes "set (node_ids g) \<inter> payload_refs p = set (node_ids h) \<inter> payload_refs p"
  shows "payload_admissible p g = payload_admissible p h"
  using assms by (cases p) (auto simp: edge_closed_def)

lemma admissible_disjoint:
  assumes "ref_based a" "payload_refs a \<inter> payload_refs b = {}"
  shows "payload_admissible b (apply_payload a g) = payload_admissible b g"
  by (rule admissible_ids) (use apply_payload_ids[OF assms(1), of g] assms(2) in blast)

lemma update_first_filter:
  assumes "\<And>x. p x \<Longrightarrow> q x" "\<And>x. p x \<Longrightarrow> q (f x)"
  shows "update_first p f (filter q xs) = filter q (update_first p f xs)"
  using assms by (induction xs) auto

lemma update_first_snoc:
  "\<not> p y \<Longrightarrow> update_first p f (xs @ [y]) = update_first p f xs @ [y]"
  by (induction xs) auto

lemma apply_payload_commute:
  assumes "ref_based a" "ref_based b" "payload_refs a \<inter> payload_refs b = {}"
  shows "graph_equiv (apply_payload b (apply_payload a g)) (apply_payload a (apply_payload b g))"
  using assms
  by (cases a; cases b)
    (auto simp: graph_equiv_def remove_node_def update_first_snoc update_first_filter
      update_first_commute conj_commute conj_left_commute)

lemma fold_equiv:
  assumes "graph_equiv g h" "graph_wf g" "ops_admissible ops g"
    and "list_all (\<lambda>op. ref_based (op_payload op)) ops"
  shows "ops_admissible ops h \<and> graph_equiv (fold apply_op ops g) (fold apply_op ops h)"
  using assms
proof (induction ops arbitrary: g h)
  case (Cons op ops)
  then have "graph_equiv (apply_op op g) (apply_op op h)" "payload_admissible (op_payload op) h"
    "graph_wf (apply_op op g)"
    using apply_payload_equiv admissible_equiv graph_wf_apply_payload by auto
  with Cons.IH[of "apply_op op g" "apply_op op h"] Cons.prems show ?case by simp
qed simp

lemma exchange_one:
  assumes "graph_wf g" "payload_admissible a g" "ops_admissible ops (apply_payload a g)" "ref_based a"
    and "list_all (\<lambda>op. ref_based (op_payload op)) ops" "payload_refs a \<inter> collect_refs ops = {}"
  shows "ops_admissible ops g \<and> payload_admissible a (fold apply_op ops g) \<and>
    graph_equiv (fold apply_op ops (apply_payload a g)) (apply_payload a (fold apply_op ops g))"
  using assms
proof (induction ops arbitrary: g)
  case (Cons op ops)
  let ?b = "op_payload op"
  have disj: "payload_refs a \<inter> payload_refs ?b = {}" "payload_refs a \<inter> collect_refs ops = {}"
    using Cons.prems(6) by (auto simp: collect_refs_eq)
  have b: "payload_admissible ?b g" "payload_admissible a (apply_payload ?b g)"
    using Cons.prems admissible_disjoint[of a ?b g] admissible_disjoint[of ?b a g] disj by auto
  have wf: "graph_wf (apply_payload ?b g)" "graph_wf (apply_payload a g)"
    using Cons.prems(1,2) b(1) by (simp_all add: graph_wf_apply_payload)
  then have wf_ba: "graph_wf (apply_payload ?b (apply_payload a g))"
    using Cons.prems(3) by (simp add: graph_wf_apply_payload)
  have eq: "graph_equiv (apply_payload ?b (apply_payload a g)) (apply_payload a (apply_payload ?b g))"
    using Cons.prems disj by (intro apply_payload_commute) auto
  have rest: "ops_admissible ops (apply_payload a (apply_payload ?b g))"
    "graph_equiv (fold apply_op ops (apply_payload ?b (apply_payload a g)))
       (fold apply_op ops (apply_payload a (apply_payload ?b g)))"
    using fold_equiv[OF eq wf_ba] Cons.prems by auto
  from Cons.IH[OF wf(1) b(2) rest(1)] Cons.prems disj b(1) rest(2) show ?case
    by (auto intro: graph_equiv_trans)
qed auto

lemma exchange_lists:
  assumes "graph_wf g" "ops_admissible as g" "ops_admissible bs (fold apply_op as g)"
    and "list_all (\<lambda>op. ref_based (op_payload op)) as" "list_all (\<lambda>op. ref_based (op_payload op)) bs"
    and "collect_refs as \<inter> collect_refs bs = {}"
  shows "ops_admissible bs g \<and> ops_admissible as (fold apply_op bs g) \<and>
    graph_equiv (fold apply_op bs (fold apply_op as g)) (fold apply_op as (fold apply_op bs g))"
  using assms
proof (induction as arbitrary: g)
  case (Cons op as)
  let ?a = "op_payload op"
  have disj: "payload_refs ?a \<inter> collect_refs bs = {}" "collect_refs as \<inter> collect_refs bs = {}"
    using Cons.prems(6) by (auto simp: collect_refs_eq)
  have a: "payload_admissible ?a g" "ref_based ?a" "list_all (\<lambda>op. ref_based (op_payload op)) as"
    using Cons.prems by auto
  then have wf: "graph_wf (apply_op op g)" using Cons.prems(1) by (simp add: graph_wf_apply_payload)
  from Cons.IH[OF wf] Cons.prems disj a have ih: "ops_admissible bs (apply_op op g)"
    "ops_admissible as (fold apply_op bs (apply_op op g))"
    "graph_equiv (fold apply_op bs (fold apply_op as (apply_op op g)))
       (fold apply_op as (fold apply_op bs (apply_op op g)))" by auto
  from exchange_one[OF Cons.prems(1) a(1) ih(1) a(2) Cons.prems(5) disj(1)]
  have ex: "ops_admissible bs g" "payload_admissible ?a (fold apply_op bs g)"
    "graph_equiv (fold apply_op bs (apply_op op g)) (apply_op op (fold apply_op bs g))" by auto
  have "graph_wf (fold apply_op bs (apply_op op g))"
    using fold_wf[OF wf] ih(1) trail_wf_iff[OF wf] by blast
  from fold_equiv[OF ex(3) this ih(2) a(3)] ih(3) ex show ?case by (auto intro: graph_equiv_trans)
qed auto

section \<open>Merging\<close>

lemma left_by_ref_get:
  "distinct (map gn_id ns) \<Longrightarrow>
   bt_get (bt_collect (map (\<lambda>n. (gn_id n, n)) ns)) i = find (\<lambda>n. gn_id n = i) ns"
proof -
  assume "distinct (map gn_id ns)"
  then have "map_of (rev (map (\<lambda>n. (gn_id n, n)) ns)) = map_of (map (\<lambda>n. (gn_id n, n)) ns)"
    by (subst map_of_inject_set) (simp_all add: comp_def flip: rev_map)
  then show ?thesis by (simp add: bt_get_collect map_of_map_pair option.map_ident)
qed

lemma merge_nodes_Ok_iff:
  "merge_nodes m rs = Inr ns \<longleftrightarrow>
     ns = filter (\<lambda>r. bt_get m (gn_id r) = None) rs \<and>
     list_all (\<lambda>r. case bt_get m (gn_id r) of None \<Rightarrow> True
                    | Some l \<Rightarrow> \<not> node_has_semantic_conflict l r) rs"
proof (induction rs arbitrary: ns)
  case (Cons r rs)
  show ?case
    by (cases "bt_get m (gn_id r)") (auto simp: rbind_Ok_iff Cons)
qed auto

lemma merge_nodes_Err:
  "merge_nodes m rs = Inl i \<Longrightarrow>
     \<exists>r \<in> set rs. gn_id r = i \<and> (\<exists>l. bt_get m i = Some l \<and> node_has_semantic_conflict l r)"
proof (induction rs)
  case (Cons r rs)
  then show ?case
    by (cases "bt_get m (gn_id r)") (auto simp: rbind_Err_iff split: if_splits)
qed simp

lemma merge_wf:
  assumes "graph_wf l" "graph_wf r" "set es \<subseteq> set (sg_edges r)"
  shows "graph_wf \<lparr>sg_nodes = sg_nodes l @ filter (\<lambda>n. gn_id n \<notin> set (node_ids l)) (sg_nodes r),
    sg_edges = sg_edges l @ es\<rparr>"
proof -
  let ?ns = "filter (\<lambda>n. gn_id n \<notin> set (node_ids l)) (sg_nodes r)"
  have ids: "set (node_ids l) \<union> set (map gn_id ?ns) = set (node_ids l) \<union> set (node_ids r)" by auto
  have "distinct (map gn_id ?ns)" using assms(2) by (simp add: graph_wf_def distinct_map_filter)
  moreover have "set (node_ids l) \<inter> set (map gn_id ?ns) = {}" by (auto simp: image_iff)
  ultimately have "distinct (node_ids l @ map gn_id ?ns)" using assms(1) by (simp add: graph_wf_def)
  moreover have "edge_closed (set (node_ids l) \<union> set (node_ids r)) e"
    if "e \<in> set (sg_edges l) \<union> set es" for e
    using that assms by (auto simp: graph_simps)
  ultimately show ?thesis using ids by (auto simp: graph_wf_def list_all_iff)
qed

section \<open>Properties\<close>


text \<open>
  C14. A successful rebase is sound for operations that address nodes by
  reference: if the committed operations succeed on a valid graph and the rebased
  ones succeed after them, then the two change sets also succeed in the other
  order, and both orders give the same nodes and the same edges.
\<close>

theorem rebase_order_independent:
  assumes "validate g = Inr ()" "rebase pending (from_ops committed) live = Rebased rebased"
    and "ops_admissible committed g"
    and "ops_admissible (cc_ops rebased) (fold (\<lambda>op. apply_payload (op_payload op)) committed g)"
    and "list_all (\<lambda>op. ref_based (op_payload op)) (committed @ cc_ops pending)"
  shows "ops_admissible (cc_ops pending) g \<and>
    ops_admissible committed (fold (\<lambda>op. apply_payload (op_payload op)) (cc_ops pending) g) \<and>
    graph_equiv
      (fold (\<lambda>op. apply_payload (op_payload op)) (cc_ops rebased)
         (fold (\<lambda>op. apply_payload (op_payload op)) committed g))
      (fold (\<lambda>op. apply_payload (op_payload op)) committed
         (fold (\<lambda>op. apply_payload (op_payload op)) (cc_ops pending) g))"
proof -
  have "collect_refs committed \<inter> collect_refs (cc_ops pending) = {}" "cc_ops rebased = cc_ops pending"
    using assms(2) by (auto simp: rebase_def from_ops_def Let_def split: if_splits)
  with exchange_lists[of g committed "cc_ops pending"] assms show ?thesis
    by (simp add: validate_Ok_iff)
qed

definition sample_commit :: "CanonicalOp list" where
  "sample_commit = [default_op\<lparr>op_payload := SetNodeName 1 ''h''\<rparr>]"

definition sample_pending :: CanonicalChangeSet where
  "sample_pending = default_canonical\<lparr>cc_ops :=
     [default_op\<lparr>op_payload := CreateNode (new_node 2 NodeKind.Type ''t'')\<rparr>,
      default_op\<lparr>op_payload := AddEdge (new_edge 2 0 EdgeKind.Reads)\<rparr>]\<rparr>"

theorem rebase_order_independent_witness:
  "graph_equiv
      (fold (\<lambda>op. apply_payload (op_payload op)) (cc_ops (sample_pending\<lparr>cc_base_snapshot_id := 7\<rparr>))
         (fold (\<lambda>op. apply_payload (op_payload op)) sample_commit sample_graph))
      (fold (\<lambda>op. apply_payload (op_payload op)) sample_commit
         (fold (\<lambda>op. apply_payload (op_payload op)) (cc_ops sample_pending) sample_graph))"
  using rebase_order_independent[of sample_graph sample_pending sample_commit 7
      "sample_pending\<lparr>cc_base_snapshot_id := 7\<rparr>"] sample_graph_valid
  by (simp add: sample_pending_def sample_commit_def default_canonical_def default_op_def
      sample_graph_def rebase_def from_ops_def collect_refs_def edge_closed_def)

text \<open>
  A merge of valid graphs keeps the left graph in front, appends exactly the
  nodes with new references and the edges with new keys, in their order, and
  yields a valid graph; it fails exactly when a common reference has a different
  return type, body or effect row on the two sides.
\<close>

lemma semantic_merge_spec:
  assumes "validate l = Inr ()" "validate r = Inr ()"
  shows "(case semantic_merge l r of
       Merged m \<Rightarrow>
         m = \<lparr>sg_nodes = sg_nodes l @ filter (\<lambda>n. gn_id n \<notin> set (node_ids l)) (sg_nodes r),
              sg_edges = sg_edges l @ filter (\<lambda>e. edge_key e \<notin> edge_key ` set (sg_edges l)) (sg_edges r)\<rparr> \<and>
         validate m = Inr () \<and>
         list_all (\<lambda>(a, b). gn_id a \<noteq> gn_id b \<or> \<not> node_has_semantic_conflict a b)
           (List.product (sg_nodes l) (sg_nodes r))
     | MergeConflict reason i \<Rightarrow>
         reason = IncompatibleNodeModification \<and>
         (\<exists>a \<in> set (sg_nodes l). \<exists>b \<in> set (sg_nodes r).
            gn_id a = i \<and> gn_id b = i \<and> node_has_semantic_conflict a b))"
proof -
  let ?m = "bt_collect (map (\<lambda>n. (gn_id n, n)) (sg_nodes l))"
  from assms have wf: "graph_wf l" "graph_wf r" by (simp_all add: validate_Ok_iff)
  then have get: "bt_get ?m i = find (\<lambda>n. gn_id n = i) (sg_nodes l)" for i
    by (intro left_by_ref_get) (simp add: graph_wf_def)
  have none: "bt_get ?m i = None \<longleftrightarrow> i \<notin> set (node_ids l)" for i
    by (auto simp: get find_None)
  have some: "bt_get ?m (gn_id a) = Some a" if "a \<in> set (sg_nodes l)" for a
    using wf(1) that by (simp add: get graph_wf_def find_unique_key)
  show ?thesis
  proof (cases "merge_nodes ?m (sg_nodes r)")
    case (Inl i)
    from merge_nodes_Err[OF Inl] obtain a b where "b \<in> set (sg_nodes r)" "gn_id b = i"
      "bt_get ?m i = Some a" "node_has_semantic_conflict a b" by blast
    with Inl show ?thesis by (auto simp: semantic_merge_def get dest: find_Some_mem)
  next
    case (Inr ns)
    then have ns: "ns = filter (\<lambda>n. gn_id n \<notin> set (node_ids l)) (sg_nodes r)"
      and ok: "\<forall>b \<in> set (sg_nodes r). case bt_get ?m (gn_id b) of None \<Rightarrow> True
        | Some a \<Rightarrow> \<not> node_has_semantic_conflict a b"
      by (auto simp: merge_nodes_Ok_iff none list_all_iff)
    have "\<not> node_has_semantic_conflict a b"
      if "a \<in> set (sg_nodes l)" "b \<in> set (sg_nodes r)" "gn_id a = gn_id b" for a b
      using ok that some[OF that(1)] by fastforce
    moreover have "graph_wf \<lparr>sg_nodes = sg_nodes l @ ns, sg_edges = sg_edges l @ es\<rparr>"
      if "set es \<subseteq> set (sg_edges r)" for es
      using merge_wf[OF wf that] by (simp add: ns)
    ultimately show ?thesis
      using Inr by (auto simp: semantic_merge_def validate_Ok_iff ns list_all_iff)
  qed
qed

lemma semantic_merge_spec_witness:
  "semantic_merge sample_graph \<lparr>sg_nodes = [new_node 1 NodeKind.Function ''f'', new_node 2 NodeKind.Type ''t''],
       sg_edges = [new_edge 1 2 EdgeKind.Reads]\<rparr> =
     Merged \<lparr>sg_nodes = sg_nodes sample_graph @ [new_node 2 NodeKind.Type ''t''],
            sg_edges = sg_edges sample_graph @ [new_edge 1 2 EdgeKind.Reads]\<rparr>"
proof -
  let ?r = "\<lparr>sg_nodes = [new_node 1 NodeKind.Function ''f'', new_node 2 NodeKind.Type ''t''],
       sg_edges = [new_edge 1 2 EdgeKind.Reads]\<rparr>"
  have "validate ?r = Inr ()" by (simp add: validate_Ok_iff graph_simps)
  from semantic_merge_spec[OF sample_graph_valid this] show ?thesis
    by (cases "semantic_merge sample_graph ?r")
      (auto simp: sample_graph_def edge_key_def node_has_semantic_conflict_def)
qed

end
