(* ===== verification/Object_Store.thy ===== *)
theory Object_Store
  imports Change_Model
begin

text \<open>
  Content-addressed objects (\<^verbatim>\<open>crates/ail-storage/src/object.rs\<close>,
  \<^verbatim>\<open>backends/memory.rs\<close>, \<^verbatim>\<open>error.rs\<close>) and the snapshot envelope of
  \<^verbatim>\<open>graph.rs\<close>. The in-memory store implements the interface that the clients
  of an object store rely on.
\<close>

section \<open>Model\<close>

type_synonym ObjectId = "u8 list"

definition object_id_from_bytes :: "Codec \<Rightarrow> u8 list \<Rightarrow> ObjectId" where
  "object_id_from_bytes c bytes = blake3 c bytes"

definition object_id_to_hex :: "ObjectId \<Rightarrow> string" where
  "object_id_to_hex i = hex_encode i"

datatype StorageError = Codec string | NotFound | Io string | Postgres string

record SnapshotEnvelope =
  se_id :: ObjectId
  se_graph_root_hash :: ObjectId
  se_parent_id :: "ObjectId option"
  se_applied_change_id :: "ObjectId option"
  se_created_at :: u64
  se_verification_report_hash :: "u8 list option"
  se_audit_record_ids :: "ObjectId list"
  se_migration_metadata_ids :: "ObjectId list"

text \<open>The map behind the mutex. Its keys are listed in an order that is a parameter of the listing.\<close>

record MemoryObjectStore =
  mo_map :: "(ObjectId, u8 list) btree_map"

definition memory_store_new :: MemoryObjectStore where
  "memory_store_new = \<lparr>mo_map = []\<rparr>"

definition memory_put ::
  "Codec \<Rightarrow> MemoryObjectStore \<Rightarrow> u8 list \<Rightarrow> (StorageError, ObjectId) result \<times> MemoryObjectStore" where
  "memory_put c s obj =
     (let i = object_id_from_bytes c obj in (Ok i, s\<lparr>mo_map := bt_or_insert i obj (mo_map s)\<rparr>))"

definition memory_get :: "MemoryObjectStore \<Rightarrow> ObjectId \<Rightarrow> (StorageError, u8 list option) result" where
  "memory_get s i = Ok (bt_get (mo_map s) i)"

definition memory_exists :: "MemoryObjectStore \<Rightarrow> ObjectId \<Rightarrow> (StorageError, bool) result" where
  "memory_exists s i = Ok (bt_contains_key (mo_map s) i)"

text \<open>\<^verbatim>\<open>delete_object\<close>: the length of the removed object, if there was one.\<close>

definition memory_delete ::
  "MemoryObjectStore \<Rightarrow> ObjectId \<Rightarrow> (StorageError, u64 option) result \<times> MemoryObjectStore" where
  "memory_delete s i =
     (Ok (map_option (\<lambda>obj. of_nat (length obj)) (bt_get (mo_map s) i)),
      s\<lparr>mo_map := bt_remove i (mo_map s)\<rparr>)"

section \<open>The interface of an object store\<close>

locale object_store =
  fixes hash :: "u8 list \<Rightarrow> ObjectId"
    and invar :: "'s \<Rightarrow> bool"
    and empty :: 's
    and store :: "'s \<Rightarrow> u8 list \<Rightarrow> 's"
    and load :: "'s \<Rightarrow> ObjectId \<Rightarrow> u8 list option"
  assumes invar_empty: "invar empty"
    and invar_store: "invar s \<Longrightarrow> invar (store s b)"
    and addressed: "invar s \<Longrightarrow> load s i = Some b \<Longrightarrow> hash b = i"
    and load_empty: "load empty i = None"
    and load_store: "load (store s b) i =
      (if load s i \<noteq> None then load s i else if i = hash b then Some b else None)"
begin

text \<open>Objects are immutable: storing never changes or loses one.\<close>

lemma load_stable: "load s i = Some b \<Longrightarrow> load (store s b') i = Some b"
  by (simp add: load_store)

lemma load_stable_fold: "load s i = Some b \<Longrightarrow> load (fold (\<lambda>b s. store s b) bs s) i = Some b"
  by (induction bs arbitrary: s) (auto simp: load_stable)

lemma invar_fold: "invar s \<Longrightarrow> invar (fold (\<lambda>b s. store s b) bs s)"
  by (induction bs arbitrary: s) (auto simp: invar_store)

text \<open>A stored object is found under its hash, up to a collision.\<close>

lemma load_stored:
  assumes "invar s"
  shows "\<exists>b'. load (store s b) (hash b) = Some b' \<and> hash b' = hash b"
  using assms by (cases "load s (hash b)") (auto simp: load_store dest: addressed)

lemma load_all_stored:
  assumes "invar s" "b \<in> set bs"
  shows "\<exists>b'. load (fold (\<lambda>b s. store s b) bs s) (hash b) = Some b' \<and> hash b' = hash b"
  using assms
proof (induction bs arbitrary: s)
  case (Cons x bs)
  show ?case
  proof (cases "b = x")
    case True
    with load_stored[OF Cons.prems(1), of x] load_stable_fold show ?thesis by fastforce
  next
    case False
    with Cons show ?thesis by (auto simp: invar_store)
  qed
qed simp

end

definition store_addressed :: "Codec \<Rightarrow> MemoryObjectStore \<Rightarrow> bool" where
  "store_addressed c s = list_all (\<lambda>(i, b). object_id_from_bytes c b = i) (mo_map s)"

lemma set_bt_insert: "set (bt_insert k v m) \<subseteq> insert (k, v) (set m)"
  by (induction k v m rule: bt_insert.induct) auto

lemma store_addressed_put: "store_addressed c s \<Longrightarrow> store_addressed c (snd (memory_put c s b))"
  using set_bt_insert[of "object_id_from_bytes c b" b "mo_map s"]
  by (auto simp: store_addressed_def memory_put_def Let_def bt_or_insert_def list_all_iff
      split: option.split)

lemma store_addressed_get:
  "store_addressed c s \<Longrightarrow> bt_get (mo_map s) i = Some b \<Longrightarrow> object_id_from_bytes c b = i"
  by (auto simp: store_addressed_def list_all_iff bt_get_def dest!: map_of_SomeD)

interpretation mem: object_store "object_id_from_bytes c" "store_addressed c" memory_store_new
    "\<lambda>s b. snd (memory_put c s b)" "\<lambda>s. bt_get (mo_map s)"
  for c
proof
  show "store_addressed c memory_store_new" by (simp add: store_addressed_def memory_store_new_def)
  show "bt_get (mo_map memory_store_new) i = None" for i by (simp add: memory_store_new_def)
  show "bt_get (mo_map (snd (memory_put c s b))) i =
      (if bt_get (mo_map s) i \<noteq> None then bt_get (mo_map s) i
       else if i = object_id_from_bytes c b then Some b else None)" for s b i
    by (auto simp: memory_put_def Let_def)
qed (rule store_addressed_put store_addressed_get; assumption)+

text \<open>A collision-free hash exists: the bytes themselves.\<close>

definition identity_codec :: Codec where
  "identity_codec = \<lparr>cbor_node = (\<lambda>_. []), cbor_op = (\<lambda>_. []), blake3 = (\<lambda>b. b)\<rparr>"

lemma identity_codec_inj: "inj_on (object_id_from_bytes identity_codec) A"
  by (simp add: object_id_from_bytes_def identity_codec_def inj_on_def)

section \<open>Properties\<close>

text \<open>
  The object store is content addressed and append-only: after any sequence
  of puts from the empty store, what is found under an identifier hashes to it,
  every object put is found under its hash as an object of the same hash, and
  with a collision-free hash as the object itself.
\<close>

lemma object_store_content_addressed:
  assumes "s = fold (\<lambda>b s. snd (memory_put c s b)) bs memory_store_new"
    and "b \<in> set bs" "inj_on (object_id_from_bytes c) (set bs \<union> {b. \<exists>i. memory_get s i = Ok (Some b)})"
  shows "memory_get s (object_id_from_bytes c b) = Ok (Some b) \<and>
    (\<forall>i d. memory_get s i = Ok (Some d) \<longrightarrow> object_id_from_bytes c d = i)"
proof -
  have inv: "store_addressed c s"
    unfolding assms(1) by (rule mem.invar_fold) (rule mem.invar_empty)
  obtain d where "bt_get (mo_map s) (object_id_from_bytes c b) = Some d"
    "object_id_from_bytes c d = object_id_from_bytes c b"
    using mem.load_all_stored[OF mem.invar_empty assms(2), where c = c, folded assms(1)] by blast
  note d = this
  have "d = b"
    by (rule inj_onD[OF assms(3) d(2)]) (use assms(2) d(1) in \<open>auto simp: memory_get_def\<close>)
  show ?thesis
  proof (intro conjI allI impI)
    show "memory_get s (object_id_from_bytes c b) = Ok (Some b)"
      using d(1) \<open>d = b\<close> by (simp add: memory_get_def)
    show "object_id_from_bytes c e = i" if "memory_get s i = Ok (Some e)" for i e
      using that by (intro store_addressed_get[OF inv]) (simp add: memory_get_def)
  qed
qed

lemma object_store_content_addressed_witness:
  "memory_get (fold (\<lambda>b s. snd (memory_put identity_codec s b)) [[1, 2], [3]] memory_store_new) [3] = Ok (Some [3])"
proof -
  have "[3] \<in> set [[1, 2], [3 :: u8]]" by simp
  from object_store_content_addressed[OF refl this identity_codec_inj, THEN conjunct1]
  show ?thesis by (simp only: object_id_from_bytes_def identity_codec_def Codec.select_convs)
qed

end
