(* ===== verification/Remote.thy ===== *)
theory Remote
  imports Object_Store
begin

text \<open>
  Remote collaboration values of \<^verbatim>\<open>crates/ail-remote/src\<close>: signer policy
  (\<^verbatim>\<open>policy.rs\<close>), identities and key material (\<^verbatim>\<open>identity.rs\<close>), object bundles
  (\<^verbatim>\<open>bundle.rs\<close>), signed change sets (\<^verbatim>\<open>signing.rs\<close>) and the exchange types
  (\<^verbatim>\<open>exchange.rs\<close>, \<^verbatim>\<open>error.rs\<close>). Ed25519 and the CBOR codec are third-party code
  and parameters, collected in \<open>Crypto\<close>; 32-byte keys are byte lists.
\<close>

section \<open>External functions\<close>

text \<open>
  \<open>ed_key_ok\<close> is the success of \<^verbatim>\<open>VerifyingKey::from_bytes\<close>, \<open>ed_verify\<close> that of
  \<^verbatim>\<open>verify\<close>; encoders may fail with a message, \<open>dec_snapshot\<close> fails with None.
\<close>

record Crypto =
  ed_key_ok :: "u8 list \<Rightarrow> bool"
  ed_verify :: "u8 list \<Rightarrow> u8 list \<Rightarrow> u8 list \<Rightarrow> bool"
  ed_public :: "u8 list \<Rightarrow> u8 list"
  ed_sign :: "u8 list \<Rightarrow> u8 list \<Rightarrow> u8 list"
  enc_ops :: "CanonicalOp list \<Rightarrow> (string, u8 list) result"
  enc_payload :: "u8 list \<times> u8 list \<Rightarrow> (string, u8 list) result"
  dec_snapshot :: "u8 list \<Rightarrow> SnapshotEnvelope option"

section \<open>Hexadecimal keys\<close>

definition decode_hex_nibble :: "char \<Rightarrow> u8 option" where
  "decode_hex_nibble ch =
     (let b = (of_char ch :: nat)
      in if 48 \<le> b \<and> b \<le> 57 then Some (of_nat (b - 48))
         else if 97 \<le> b \<and> b \<le> 102 then Some (of_nat (b - 97 + 10))
         else if 65 \<le> b \<and> b \<le> 70 then Some (of_nat (b - 65 + 10))
         else None)"

text \<open>The loop over \<^verbatim>\<open>chunks_exact(2)\<close>; None is a character that is no digit.\<close>

fun decode_hex_chunks :: "string \<Rightarrow> u8 list option" where
  "decode_hex_chunks (h # l # s) =
     (case decode_hex_nibble h of
        None \<Rightarrow> None
      | Some high \<Rightarrow>
          (case decode_hex_nibble l of
             None \<Rightarrow> None
           | Some low \<Rightarrow>
               map_option (\<lambda>bs. or (push_bit 4 high) low # bs) (decode_hex_chunks s)))"
| "decode_hex_chunks _ = Some []"

section \<open>Signer policy\<close>

datatype SignerTrustTier = Primary | Trusted | External

record RemoteSignerConfig =
  rs_public_key :: string
  rs_trust_tier :: SignerTrustTier
  rs_label :: "string option"

record RemoteEndpointConfig =
  re_name :: string
  re_endpoint :: string

record RemoteConfig =
  rc_allowed_signers :: "RemoteSignerConfig list"
  rc_remotes :: "RemoteEndpointConfig list"

datatype PublicKeyIssue = ExpectedHex64 | NonHexCharacter

datatype RemoteConfigError =
    InvalidPublicKey string PublicKeyIssue
  | DuplicateAllowedSigner string
  | EmptyRemoteName
  | DuplicateRemoteName string

record TrustedRemoteSigner =
  ts_public_key :: "u8 list"
  ts_trust_tier :: SignerTrustTier
  ts_label :: "string option"

record RemoteSignerPolicy =
  rp_allowed_signers :: "TrustedRemoteSigner list"

record AgentIdentity =
  ai_public_key :: "u8 list"
  ai_label :: "string option"

datatype RemoteSignerRejectionReason = SignerNotAllowed

record RemoteSignerRejection =
  rj_public_key :: "u8 list"
  rj_label :: "string option"
  rj_reason :: RemoteSignerRejectionReason

definition parse_remote_public_key_hex :: "string \<Rightarrow> (RemoteConfigError, u8 list) result" where
  "parse_remote_public_key_hex public_key =
     (if length public_key \<noteq> 64 then Err (InvalidPublicKey public_key ExpectedHex64)
      else case decode_hex_chunks public_key of
             None \<Rightarrow> Err (InvalidPublicKey public_key NonHexCharacter)
           | Some parsed \<Rightarrow> Ok parsed)"

fun validate_signers ::
  "u8 list set \<Rightarrow> RemoteSignerConfig list \<Rightarrow> (RemoteConfigError, unit) result" where
  "validate_signers keys [] = Ok ()"
| "validate_signers keys (s # ss) =
     rbind (parse_remote_public_key_hex (rs_public_key s)) (\<lambda>public_key.
       if public_key \<in> keys then Err (DuplicateAllowedSigner (rs_public_key s))
       else validate_signers (insert public_key keys) ss)"

fun validate_remotes ::
  "string set \<Rightarrow> RemoteEndpointConfig list \<Rightarrow> (RemoteConfigError, unit) result" where
  "validate_remotes names [] = Ok ()"
| "validate_remotes names (r # rs) =
     (if trim (re_name r) = [] then Err EmptyRemoteName
      else if re_name r \<in> names then Err (DuplicateRemoteName (re_name r))
      else validate_remotes (insert (re_name r) names) rs)"

definition validate_config :: "RemoteConfig \<Rightarrow> (RemoteConfigError, unit) result" where
  "validate_config cfg =
     rbind (validate_signers {} (rc_allowed_signers cfg)) (\<lambda>_. validate_remotes {} (rc_remotes cfg))"

definition to_trusted_signer :: "RemoteSignerConfig \<Rightarrow> (RemoteConfigError, TrustedRemoteSigner) result" where
  "to_trusted_signer s =
     rbind (parse_remote_public_key_hex (rs_public_key s)) (\<lambda>k.
       Ok \<lparr>ts_public_key = k, ts_trust_tier = rs_trust_tier s, ts_label = rs_label s\<rparr>)"

text \<open>\<^verbatim>\<open>collect::<Result<Vec<_>, _>>()\<close> over a mapped iterator.\<close>

fun collect_results :: "('a \<Rightarrow> ('e, 'b) result) \<Rightarrow> 'a list \<Rightarrow> ('e, 'b list) result" where
  "collect_results f [] = Ok []"
| "collect_results f (x # xs) = rbind (f x) (\<lambda>y. rbind (collect_results f xs) (\<lambda>ys. Ok (y # ys)))"

definition from_allowed_signers :: "TrustedRemoteSigner list \<Rightarrow> RemoteSignerPolicy" where
  "from_allowed_signers ss = \<lparr>rp_allowed_signers = ss\<rparr>"

definition deny_all :: RemoteSignerPolicy where
  "deny_all = \<lparr>rp_allowed_signers = []\<rparr>"

definition to_signer_policy :: "RemoteConfig \<Rightarrow> (RemoteConfigError, RemoteSignerPolicy) result" where
  "to_signer_policy cfg =
     rbind (validate_config cfg) (\<lambda>_.
     rbind (collect_results to_trusted_signer (rc_allowed_signers cfg)) (\<lambda>ss.
       Ok (from_allowed_signers ss)))"

definition check_identity ::
  "RemoteSignerPolicy \<Rightarrow> AgentIdentity \<Rightarrow> (RemoteSignerRejection, TrustedRemoteSigner) result" where
  "check_identity policy identity =
     (case find (\<lambda>s. ts_public_key s = ai_public_key identity) (rp_allowed_signers policy) of
        Some s \<Rightarrow> Ok s
      | None \<Rightarrow> Err \<lparr>rj_public_key = ai_public_key identity, rj_label = ai_label identity,
                    rj_reason = SignerNotAllowed\<rparr>)"

section \<open>Identities and key material\<close>

datatype KeyMaterialIssue =
    UnsupportedVersion u8
  | FieldHex64 string
  | FieldNonHex string
  | PublicKeyMismatch

datatype SigningError =
    SignatureInvalid
  | SerializationError string
  | InvalidKeyMaterial KeyMaterialIssue

definition verify_bytes ::
  "Crypto \<Rightarrow> AgentIdentity \<Rightarrow> u8 list \<Rightarrow> u8 list \<Rightarrow> (SigningError, unit) result" where
  "verify_bytes k identity payload sig =
     (if \<not> ed_key_ok k (ai_public_key identity) then Err SignatureInvalid
      else if ed_verify k (ai_public_key identity) payload sig then Ok () else Err SignatureInvalid)"

record AgentKeypair =
  kp_secret :: "u8 list"

definition keypair_identity :: "Crypto \<Rightarrow> AgentKeypair \<Rightarrow> AgentIdentity" where
  "keypair_identity k kp = \<lparr>ai_public_key = ed_public k (kp_secret kp), ai_label = None\<rparr>"

definition sign_bytes :: "Crypto \<Rightarrow> AgentKeypair \<Rightarrow> u8 list \<Rightarrow> u8 list" where
  "sign_bytes k kp payload = ed_sign k (kp_secret kp) payload"

record PlaintextDevSignerKeyMaterial =
  pk_version :: u8
  pk_warning :: string
  pk_secret_key_hex :: string
  pk_public_key_hex :: string
  pk_label :: "string option"

definition PLAINTEXT_DEV_SIGNER_KEY_WARNING :: string where
  "PLAINTEXT_DEV_SIGNER_KEY_WARNING =
     ''plaintext Ed25519 signer key for local development only; not production secret storage''"

text \<open>The two digits of each byte from the table of lower-case digits.\<close>

definition encode_hex32 :: "u8 list \<Rightarrow> string" where
  "encode_hex32 bytes =
     concat (map (\<lambda>b. [''0123456789abcdef'' ! unat (drop_bit 4 b), ''0123456789abcdef'' ! unat (and b 15)]) bytes)"

definition decode_hex32 :: "string \<Rightarrow> string \<Rightarrow> (SigningError, u8 list) result" where
  "decode_hex32 hex field =
     (if length hex \<noteq> 64 then Err (InvalidKeyMaterial (FieldHex64 field))
      else case decode_hex_chunks hex of
             None \<Rightarrow> Err (InvalidKeyMaterial (FieldNonHex field))
           | Some decoded \<Rightarrow> Ok decoded)"

definition from_keypair :: "Crypto \<Rightarrow> AgentKeypair \<Rightarrow> string option \<Rightarrow> PlaintextDevSignerKeyMaterial" where
  "from_keypair k kp lbl =
     \<lparr>pk_version = 1, pk_warning = PLAINTEXT_DEV_SIGNER_KEY_WARNING,
      pk_secret_key_hex = encode_hex32 (kp_secret kp),
      pk_public_key_hex = encode_hex32 (ai_public_key (keypair_identity k kp)), pk_label = lbl\<rparr>"

definition to_keypair :: "Crypto \<Rightarrow> PlaintextDevSignerKeyMaterial \<Rightarrow> (SigningError, AgentKeypair) result" where
  "to_keypair k pk =
     (if pk_version pk \<noteq> 1 then Err (InvalidKeyMaterial (UnsupportedVersion (pk_version pk)))
      else rbind (decode_hex32 (pk_secret_key_hex pk) ''secret_key_hex'') (\<lambda>secret_key.
           rbind (decode_hex32 (pk_public_key_hex pk) ''public_key_hex'') (\<lambda>expected.
             (let kp = \<lparr>kp_secret = secret_key\<rparr>
              in if ai_public_key (keypair_identity k kp) \<noteq> expected
                 then Err (InvalidKeyMaterial PublicKeyMismatch) else Ok kp))))"

definition material_identity :: "Crypto \<Rightarrow> PlaintextDevSignerKeyMaterial \<Rightarrow> (SigningError, AgentIdentity) result" where
  "material_identity k pk =
     rbind (to_keypair k pk) (\<lambda>kp. Ok ((keypair_identity k kp)\<lparr>ai_label := pk_label pk\<rparr>))"

section \<open>Object bundles\<close>

datatype BundleError =
    RootNotFound
  | HashMismatch ObjectId
  | MissingSnapshotDependency ObjectId

record ObjectBundle =
  ob_root :: ObjectId
  ob_objects :: "(ObjectId, u8 list) btree_map"

definition option_list :: "'a option \<Rightarrow> 'a list" where
  "option_list a = (case a of None \<Rightarrow> [] | Some x \<Rightarrow> [x])"

definition snapshot_envelope_dependencies :: "Crypto \<Rightarrow> u8 list \<Rightarrow> ObjectId list" where
  "snapshot_envelope_dependencies k bytes =
     (case dec_snapshot k bytes of
        None \<Rightarrow> []
      | Some snapshot \<Rightarrow>
          se_graph_root_hash snapshot # option_list (se_applied_change_id snapshot) @
          se_audit_record_ids snapshot @ se_migration_metadata_ids snapshot)"

fun first_hash_mismatch :: "Codec \<Rightarrow> (ObjectId, u8 list) btree_map \<Rightarrow> ObjectId option" where
  "first_hash_mismatch c [] = None"
| "first_hash_mismatch c ((stored_id, bytes) # os) =
     (if object_id_from_bytes c bytes \<noteq> stored_id then Some stored_id else first_hash_mismatch c os)"

definition verify_integrity :: "Codec \<Rightarrow> Crypto \<Rightarrow> ObjectBundle \<Rightarrow> (BundleError, unit) result" where
  "verify_integrity c k b =
     (case bt_get (ob_objects b) (ob_root b) of
        None \<Rightarrow> Err RootNotFound
      | Some root_bytes \<Rightarrow>
          (case first_hash_mismatch c (ob_objects b) of
             Some i \<Rightarrow> Err (HashMismatch i)
           | None \<Rightarrow>
               (case find (\<lambda>d. d \<noteq> ob_root b \<and> \<not> bt_contains_key (ob_objects b) d)
                       (snapshot_envelope_dependencies k root_bytes) of
                  Some d \<Rightarrow> Err (MissingSnapshotDependency d)
                | None \<Rightarrow> Ok ())))"

definition includes_snapshot_envelope_dependencies :: "Crypto \<Rightarrow> ObjectBundle \<Rightarrow> bool" where
  "includes_snapshot_envelope_dependencies k b =
     (case bt_get (ob_objects b) (ob_root b) of
        None \<Rightarrow> False
      | Some root_bytes \<Rightarrow>
          list_ex (\<lambda>d. d \<noteq> ob_root b \<and> bt_contains_key (ob_objects b) d)
            (snapshot_envelope_dependencies k root_bytes))"

text \<open>Building a bundle from a store given by its \<^verbatim>\<open>get\<close>.\<close>

fun collect_dependencies ::
  "(ObjectId \<Rightarrow> (StorageError, u8 list option) result) \<Rightarrow> ObjectId \<Rightarrow> ObjectId list
    \<Rightarrow> (ObjectId, u8 list) btree_map \<Rightarrow> (StorageError, (ObjectId, u8 list) btree_map) result" where
  "collect_dependencies get root [] objects = Ok objects"
| "collect_dependencies get root (d # ds) objects =
     (if d = root \<or> bt_contains_key objects d then collect_dependencies get root ds objects
      else rbind (get d) (\<lambda>r. case r of
             None \<Rightarrow> Err NotFound
           | Some bytes \<Rightarrow> collect_dependencies get root ds (bt_insert d bytes objects)))"

definition from_store_with_snapshot_dependencies ::
  "Crypto \<Rightarrow> ObjectId \<Rightarrow> (ObjectId \<Rightarrow> (StorageError, u8 list option) result)
    \<Rightarrow> (StorageError, ObjectBundle) result" where
  "from_store_with_snapshot_dependencies k root get =
     rbind (get root) (\<lambda>r. case r of
       None \<Rightarrow> Err NotFound
     | Some root_bytes \<Rightarrow>
         rbind (collect_dependencies get root (snapshot_envelope_dependencies k root_bytes) [])
           (\<lambda>objects. Ok \<lparr>ob_root = root, ob_objects = bt_insert root root_bytes objects\<rparr>))"

record InMemoryBundleStore =
  bs_bundles :: "(ObjectId, ObjectBundle) btree_map"

definition bundle_store_new :: InMemoryBundleStore where
  "bundle_store_new = \<lparr>bs_bundles = []\<rparr>"

definition put_bundle :: "InMemoryBundleStore \<Rightarrow> ObjectBundle \<Rightarrow> InMemoryBundleStore" where
  "put_bundle s b = s\<lparr>bs_bundles := bt_insert (ob_root b) b (bs_bundles s)\<rparr>"

definition get_bundle :: "InMemoryBundleStore \<Rightarrow> ObjectId \<Rightarrow> ObjectBundle option" where
  "get_bundle s root = bt_get (bs_bundles s) root"

section \<open>Signed change sets\<close>

record RemoteChangeSet =
  rcs_changeset :: CanonicalChangeSet
  rcs_agent :: AgentIdentity
  rcs_signature :: "u8 list"

definition snapshot_id_le_bytes :: "SnapshotId \<Rightarrow> u8 list" where
  "snapshot_id_le_bytes w = map (\<lambda>i. ucast (drop_bit (8 * i) w)) [0..<8]"

definition map_err :: "('e \<Rightarrow> 'f) \<Rightarrow> ('e, 'a) result \<Rightarrow> ('f, 'a) result" where
  "map_err f r = (case r of Inl e \<Rightarrow> Inl (f e) | Inr a \<Rightarrow> Inr a)"

definition signing_payload :: "Crypto \<Rightarrow> CanonicalChangeSet \<Rightarrow> (SigningError, u8 list) result" where
  "signing_payload k cs =
     rbind (map_err SerializationError (enc_ops k (cc_ops cs))) (\<lambda>ops_cbor.
       map_err SerializationError
         (enc_payload k (snapshot_id_le_bytes (cc_base_snapshot_id cs), ops_cbor)))"

definition sign_changeset ::
  "Crypto \<Rightarrow> CanonicalChangeSet \<Rightarrow> AgentKeypair \<Rightarrow> (SigningError, RemoteChangeSet) result" where
  "sign_changeset k cs kp =
     rbind (signing_payload k cs) (\<lambda>payload.
       Ok \<lparr>rcs_changeset = cs, rcs_agent = keypair_identity k kp, rcs_signature = sign_bytes k kp payload\<rparr>)"

definition verify_signature :: "Crypto \<Rightarrow> RemoteChangeSet \<Rightarrow> (SigningError, unit) result" where
  "verify_signature k rcs =
     rbind (signing_payload k (rcs_changeset rcs)) (\<lambda>payload.
       verify_bytes k (rcs_agent rcs) payload (rcs_signature rcs))"

section \<open>Exchange\<close>

datatype RemoteError =
    RemoteSignatureInvalid
  | SignerRejected RemoteSignerRejection
  | CoordinatorFailed FailReason

datatype RemoteSubmissionOutcome =
    SubmissionApplied SnapshotId
  | SubmissionRebaseApplied SnapshotId SnapshotId
  | SubmissionConflict ConflictReason
  | SubmissionStaleBase SnapshotId
  | SubmissionFailed FailReason

datatype RemoteExchangeRequest =
    SubmitChangeSet RemoteChangeSet
  | PushBundle ObjectBundle
  | PullBundle ObjectId

text \<open>The message of an error response is the display of the error it stands for.\<close>

datatype ExchangeMessage = RemoteErrorText RemoteError | BundleErrorText BundleError

datatype RemoteExchangeResponse =
    Submission RemoteSubmissionOutcome
  | BundleAccepted ObjectId nat
  | BundleResponse ObjectBundle
  | BundleMissing ObjectId
  | ErrorResponse string ExchangeMessage

section \<open>Facts: hexadecimal keys\<close>

lemma decode_hex_digit: "d < 16 \<Longrightarrow> decode_hex_nibble (''0123456789abcdef'' ! d) = Some (of_nat d)"
proof -
  assume "d < 16"
  then have "d \<in> set [0..<16]" by simp
  moreover have "list_all (\<lambda>d. decode_hex_nibble (''0123456789abcdef'' ! d) = Some (of_nat d)) [0..<16]"
    by (simp add: upt_rec decode_hex_nibble_def Let_def)
  ultimately show ?thesis unfolding list_all_iff by blast
qed

lemma nibbles: "or (push_bit 4 (drop_bit 4 b)) (and b 15) = (b :: u8)"
proof (rule bit_word_eqI)
  show "bit (or (push_bit 4 (drop_bit 4 b)) (and b 15)) n = bit b n" if "n < LENGTH(8)" for n
  proof -
    have "bit (15 :: u8) n \<longleftrightarrow> n < 4"
      using bit_mask_iff[of 4 n, where ?'a = u8] that by (simp add: mask_eq_exp_minus_1)
    then show ?thesis using that by (auto simp: bit_or_iff bit_and_iff bit_push_bit_iff bit_drop_bit_eq)
  qed
qed

lemma nibble_bounds: "unat (drop_bit 4 (b :: u8)) < 16" "unat (and (b :: u8) 15) < 16"
proof -
  have "unat b < 256" using unsigned_less[of b] by simp
  then show "unat (drop_bit 4 (b :: u8)) < 16" by (simp add: drop_bit_eq_div unat_div_distrib)
  have "and b 15 \<le> 15" by (simp add: word_and_le1)
  then show "unat (and (b :: u8) 15) < 16" by (simp add: word_le_nat_alt)
qed

lemma decode_encode_hex: "decode_hex_chunks (encode_hex32 bs) = Some bs"
proof (induction bs)
  case (Cons b bs)
  have "encode_hex32 (b # bs) = ''0123456789abcdef'' ! unat (drop_bit 4 b) #
      ''0123456789abcdef'' ! unat (and b 15) # encode_hex32 bs"
    by (simp add: encode_hex32_def)
  with Cons show ?case
    by (simp only: decode_hex_chunks.simps decode_hex_digit[OF nibble_bounds(1)]
        decode_hex_digit[OF nibble_bounds(2)]) (simp add: nibbles)
qed (simp add: encode_hex32_def)

lemma length_encode_hex32 [simp]: "length (encode_hex32 bs) = 2 * length bs"
  by (induction bs) (auto simp: encode_hex32_def)

section \<open>Facts: policy\<close>

lemma collect_results_Ok_iff:
  "collect_results f xs = Inr ys \<longleftrightarrow> list_all2 (\<lambda>x y. f x = Inr y) xs ys"
  by (induction xs arbitrary: ys) (auto simp: rbind_Ok_iff list_all2_Cons1)

text \<open>The key an entry of the configuration stands for, if it is well formed.\<close>

definition signer_key :: "RemoteSignerConfig \<Rightarrow> u8 list option" where
  "signer_key s = (case parse_remote_public_key_hex (rs_public_key s) of Inl _ \<Rightarrow> None | Inr k \<Rightarrow> Some k)"

lemma signer_key_Some_iff: "signer_key s = Some k \<longleftrightarrow> parse_remote_public_key_hex (rs_public_key s) = Inr k"
  by (simp add: signer_key_def split: sum.split)

lemma validate_signers_Ok_iff:
  "validate_signers keys ss = Inr () \<longleftrightarrow>
     None \<notin> set (map signer_key ss) \<and> distinct (map signer_key ss) \<and>
     Some ` keys \<inter> set (map signer_key ss) = {}"
proof (induction ss arbitrary: keys)
  case (Cons s ss)
  show ?case
  proof (cases "parse_remote_public_key_hex (rs_public_key s)")
    case (Inl e)
    then show ?thesis by (simp add: signer_key_def)
  next
    case (Inr k)
    then have "signer_key s = Some k" by (simp add: signer_key_def)
    with Inr Cons.IH[of "insert k keys"] show ?thesis by (cases "k \<in> keys") auto
  qed
qed simp

lemma validate_remotes_Ok_iff:
  "validate_remotes names rs = Inr u \<longleftrightarrow>
     list_all (\<lambda>r. trim (re_name r) \<noteq> []) rs \<and> distinct (map re_name rs) \<and>
     set (map re_name rs) \<inter> names = {}"
  by (induction names rs rule: validate_remotes.induct) auto

lemma policy_keys:
  assumes "to_signer_policy cfg = Inr pol"
  shows "map signer_key (rc_allowed_signers cfg) = map (\<lambda>t. Some (ts_public_key t)) (rp_allowed_signers pol)"
proof -
  from assms have "list_all2 (\<lambda>s t. to_trusted_signer s = Inr t) (rc_allowed_signers cfg) (rp_allowed_signers pol)"
    by (auto simp: to_signer_policy_def rbind_Ok_iff collect_results_Ok_iff from_allowed_signers_def)
  then show ?thesis
    by (induction rule: list_all2_induct) (auto simp: to_trusted_signer_def rbind_Ok_iff signer_key_def)
qed

lemma check_identity_Ok_iff:
  "(\<exists>s. check_identity pol a = Inr s) \<longleftrightarrow> ai_public_key a \<in> set (map ts_public_key (rp_allowed_signers pol))"
proof (cases "find (\<lambda>s. ts_public_key s = ai_public_key a) (rp_allowed_signers pol)")
  case None
  then have "\<forall>s \<in> set (rp_allowed_signers pol). ts_public_key s \<noteq> ai_public_key a" by (simp only: find_None)
  then have "ai_public_key a \<notin> set (map ts_public_key (rp_allowed_signers pol))" by auto
  with None show ?thesis by (simp add: check_identity_def)
next
  case (Some s)
  from find_Some_mem[OF this] have "ai_public_key a \<in> set (map ts_public_key (rp_allowed_signers pol))"
    by (metis image_eqI list.set_map)
  with Some show ?thesis by (simp add: check_identity_def)
qed

section \<open>Facts: bundles\<close>

lemma first_hash_mismatch_None_iff:
  "first_hash_mismatch c os = None \<longleftrightarrow> list_all (\<lambda>(i, b). object_id_from_bytes c b = i) os"
  by (induction c os rule: first_hash_mismatch.induct) auto

lemma bt_contains_key_iff: "bt_contains_key m d \<longleftrightarrow> d \<in> fst ` set m"
  by (simp add: bt_contains_key_def bt_get_def map_of_eq_None_iff)

lemma verify_integrity_Ok_iff:
  "verify_integrity c k b = Inr () \<longleftrightarrow>
     (\<exists>root_bytes. bt_get (ob_objects b) (ob_root b) = Some root_bytes \<and>
       list_all (\<lambda>(i, bytes). object_id_from_bytes c bytes = i) (ob_objects b) \<and>
       set (snapshot_envelope_dependencies k root_bytes) \<subseteq> insert (ob_root b) (fst ` set (ob_objects b)))"
proof (cases "bt_get (ob_objects b) (ob_root b)")
  case (Some bytes)
  let ?find = "find (\<lambda>d. d \<noteq> ob_root b \<and> \<not> bt_contains_key (ob_objects b) d)
    (snapshot_envelope_dependencies k bytes)"
  have "?find = None \<longleftrightarrow>
      set (snapshot_envelope_dependencies k bytes) \<subseteq> insert (ob_root b) (fst ` set (ob_objects b))"
    by (auto simp: find_None bt_contains_key_iff)
  with Some show ?thesis
    by (cases ?find; cases "first_hash_mismatch c (ob_objects b)")
      (simp_all add: verify_integrity_def first_hash_mismatch_None_iff[symmetric])
qed (simp add: verify_integrity_def)

lemma collect_dependencies_Ok:
  assumes "collect_dependencies get root ds objects = Inr objects'"
    and "\<And>i b. get i = Inr (Some b) \<Longrightarrow> object_id_from_bytes c b = i"
    and "list_all (\<lambda>(i, b). object_id_from_bytes c b = i) objects"
  shows "list_all (\<lambda>(i, b). object_id_from_bytes c b = i) objects' \<and>
    fst ` set objects \<subseteq> fst ` set objects' \<and> set ds \<subseteq> insert root (fst ` set objects')"
  using assms(1,3)
proof (induction ds arbitrary: objects)
  case (Cons d ds)
  show ?case
  proof (cases "d = root \<or> bt_contains_key objects d")
    case True
    with Cons show ?thesis by (auto simp: bt_contains_key_iff)
  next
    case False
    then obtain b where b: "get d = Inr (Some b)"
      "collect_dependencies get root ds (bt_insert d b objects) = Inr objects'"
      using Cons.prems(1) by (auto simp: rbind_Ok_iff split: option.splits)
    have "list_all (\<lambda>(i, b). object_id_from_bytes c b = i) (bt_insert d b objects)"
      using assms(2)[OF b(1)] Cons.prems(2) set_bt_insert[of d b objects] by (auto simp: list_all_iff)
    from Cons.IH[OF b(2) this] show ?thesis by auto
  qed
qed simp

section \<open>Properties\<close>

text \<open>
  The signer policy of a configuration admits exactly the configured keys:
  a configuration gives a policy exactly when every key is 64 hexadecimal digits,
  no two entries denote the same key, and remote names are non-blank and
  distinct; an identity then passes exactly when its key is denoted by an entry.
\<close>

lemma signer_policy_exact:
  "(\<exists>pol. to_signer_policy cfg = Inr pol) =
     (None \<notin> set (map signer_key (rc_allowed_signers cfg)) \<and>
      distinct (map signer_key (rc_allowed_signers cfg)) \<and>
      list_all (\<lambda>r. trim (re_name r) \<noteq> []) (rc_remotes cfg) \<and> distinct (map re_name (rc_remotes cfg))) \<and>
   (case to_signer_policy cfg of
      Inl _ \<Rightarrow> True
    | Inr pol \<Rightarrow> (\<exists>s. check_identity pol a = Inr s) =
        (Some (ai_public_key a) \<in> set (map signer_key (rc_allowed_signers cfg))))"
proof
  have ok: "\<exists>ts. collect_results to_trusted_signer ss = Inr ts" if "None \<notin> set (map signer_key ss)" for ss
    using that
  proof (induction ss)
    case (Cons s ss)
    then obtain k where "signer_key s = Some k" by (cases "signer_key s") auto
    then have "to_trusted_signer s = Inr \<lparr>ts_public_key = k, ts_trust_tier = rs_trust_tier s, ts_label = rs_label s\<rparr>"
      by (simp add: signer_key_Some_iff to_trusted_signer_def)
    with Cons show ?case by auto
  qed simp
  have "validate_config cfg = Inr () \<longleftrightarrow> None \<notin> set (map signer_key (rc_allowed_signers cfg)) \<and>
      distinct (map signer_key (rc_allowed_signers cfg)) \<and>
      list_all (\<lambda>r. trim (re_name r) \<noteq> []) (rc_remotes cfg) \<and> distinct (map re_name (rc_remotes cfg))"
    by (simp add: validate_config_def rbind_Ok_iff validate_signers_Ok_iff validate_remotes_Ok_iff)
  then show "(\<exists>pol. to_signer_policy cfg = Inr pol) =
     (None \<notin> set (map signer_key (rc_allowed_signers cfg)) \<and>
      distinct (map signer_key (rc_allowed_signers cfg)) \<and>
      list_all (\<lambda>r. trim (re_name r) \<noteq> []) (rc_remotes cfg) \<and> distinct (map re_name (rc_remotes cfg)))"
    using ok[of "rc_allowed_signers cfg"] by (auto simp: to_signer_policy_def rbind_Ok_iff)
  show "case to_signer_policy cfg of Inl _ \<Rightarrow> True
    | Inr pol \<Rightarrow> (\<exists>s. check_identity pol a = Inr s) =
        (Some (ai_public_key a) \<in> set (map signer_key (rc_allowed_signers cfg)))"
    by (cases "to_signer_policy cfg") (auto simp only: sum.case check_identity_Ok_iff policy_keys set_map image_iff option.inject)
qed

text \<open>
  Key material survives being written and read: what is stored for a 32-byte
  secret loads as the same key pair, and the loaded identity carries its public
  key. Material whose public key does not match its secret is refused.
\<close>

lemma key_material_roundtrip:
  assumes "length (kp_secret kp) = 32" "length (ed_public k (kp_secret kp)) = 32"
  shows "to_keypair k (from_keypair k kp lbl) = Ok kp \<and>
    material_identity k (from_keypair k kp lbl) = Ok \<lparr>ai_public_key = ed_public k (kp_secret kp), ai_label = lbl\<rparr> \<and>
    (case to_keypair k pk of
       Inl _ \<Rightarrow> True
     | Inr kp' \<Rightarrow> decode_hex32 (pk_public_key_hex pk) ''public_key_hex'' = Ok (ed_public k (kp_secret kp')))"
proof -
  have hex: "decode_hex32 (encode_hex32 bs) f = Ok bs" if "length bs = 32" for bs f
    using that by (simp add: decode_hex32_def decode_encode_hex)
  have kp: "to_keypair k (from_keypair k kp lbl) = Ok kp"
    using assms by (simp add: to_keypair_def from_keypair_def hex keypair_identity_def Let_def)
  then have "material_identity k (from_keypair k kp lbl) =
      Ok \<lparr>ai_public_key = ed_public k (kp_secret kp), ai_label = lbl\<rparr>"
    by (simp add: material_identity_def keypair_identity_def) (simp add: from_keypair_def)
  moreover have "case to_keypair k pk of Inl _ \<Rightarrow> True
     | Inr kp' \<Rightarrow> decode_hex32 (pk_public_key_hex pk) ''public_key_hex'' = Ok (ed_public k (kp_secret kp'))"
    by (auto simp: to_keypair_def Let_def keypair_identity_def rbind_Ok_iff split: sum.split if_splits)
  ultimately show ?thesis using kp by blast
qed

lemma key_material_roundtrip_witness:
  "to_keypair \<lparr>ed_key_ok = (\<lambda>_. True), ed_verify = (\<lambda>_ _ _. True), ed_public = (\<lambda>s. s), ed_sign = (\<lambda>_ m. m),
      enc_ops = (\<lambda>_. Inr []), enc_payload = (\<lambda>_. Inr []), dec_snapshot = (\<lambda>_. None)\<rparr>
    (from_keypair \<lparr>ed_key_ok = (\<lambda>_. True), ed_verify = (\<lambda>_ _ _. True), ed_public = (\<lambda>s. s), ed_sign = (\<lambda>_ m. m),
      enc_ops = (\<lambda>_. Inr []), enc_payload = (\<lambda>_. Inr []), dec_snapshot = (\<lambda>_. None)\<rparr>
     \<lparr>kp_secret = replicate 32 7\<rparr> None) = Ok \<lparr>kp_secret = replicate 32 7\<rparr>"
  by (rule key_material_roundtrip[THEN conjunct1]) simp_all

text \<open>
  A bundle built from a content-addressed store is accepted: if building the
  bundle of a root from the in-memory store succeeds, the bundle passes its
  integrity check, with the root and every declared dependency included.
\<close>

lemma bundle_from_store_verifies:
  assumes "store_addressed c s"
    and "from_store_with_snapshot_dependencies k root (memory_get s) = Ok bundle"
  shows "verify_integrity c k bundle = Ok () \<and> ob_root bundle = root"
proof -
  have law: "object_id_from_bytes c b = i" if "memory_get s i = Inr (Some b)" for i b
    using that mem.addressed[OF assms(1)] by (simp add: memory_get_def)
  obtain root_bytes objects where b: "memory_get s root = Inr (Some root_bytes)"
    "collect_dependencies (memory_get s) root (snapshot_envelope_dependencies k root_bytes) [] = Inr objects"
    "bundle = \<lparr>ob_root = root, ob_objects = bt_insert root root_bytes objects\<rparr>"
    using assms(2) by (auto simp: from_store_with_snapshot_dependencies_def rbind_Ok_iff split: option.splits)
  from collect_dependencies_Ok[OF b(2), of c] law
  have "list_all (\<lambda>(i, b). object_id_from_bytes c b = i) objects"
    "set (snapshot_envelope_dependencies k root_bytes) \<subseteq> insert root (fst ` set objects)" by auto
  moreover from this(1) have "list_all (\<lambda>(i, b). object_id_from_bytes c b = i) (bt_insert root root_bytes objects)"
    using law[OF b(1)] set_bt_insert[of root root_bytes objects] by (auto simp: list_all_iff)
  ultimately show ?thesis by (auto simp: b(3) verify_integrity_Ok_iff)
qed

definition sample_crypto :: Crypto where
  "sample_crypto = \<lparr>ed_key_ok = (\<lambda>_. True), ed_verify = (\<lambda>pk m s. s = pk @ m), ed_public = (\<lambda>s. s),
     ed_sign = (\<lambda>s m. s @ m), enc_ops = (\<lambda>ops. Inr [of_nat (length ops)]), enc_payload = (\<lambda>(a, b). Inr (a @ b)),
     dec_snapshot = (\<lambda>_. None)\<rparr>"

lemma bundle_from_store_verifies_witness:
  "verify_integrity identity_codec sample_crypto \<lparr>ob_root = [5], ob_objects = [([5], [5])]\<rparr> = Ok ()"
  using bundle_from_store_verifies[of identity_codec "\<lparr>mo_map = [([5], [5])]\<rparr>" sample_crypto "[5]"
      "\<lparr>ob_root = [5], ob_objects = [([5], [5])]\<rparr>"]
  by (simp add: store_addressed_def identity_codec_def object_id_from_bytes_def sample_crypto_def
      from_store_with_snapshot_dependencies_def memory_get_def bt_get_def
      snapshot_envelope_dependencies_def)

text \<open>
  A signed change set verifies under its signer's identity, given that the
  signature scheme accepts what it signs. The signature covers the base snapshot
  and the operations only: the envelope still verifies with any other change set
  that agrees on these two, whatever its preconditions and metadata are.
\<close>

lemma signature_covers_base_and_ops:
  assumes "ed_key_ok k (ed_public k (kp_secret kp))"
    and "\<And>m. ed_verify k (ed_public k (kp_secret kp)) m (ed_sign k (kp_secret kp) m)"
    and "sign_changeset k cs kp = Ok rcs"
    and "cc_base_snapshot_id cs' = cc_base_snapshot_id cs" "cc_ops cs' = cc_ops cs"
  shows "verify_signature k rcs = Ok () \<and> verify_signature k (rcs\<lparr>rcs_changeset := cs'\<rparr>) = Ok ()"
proof -
  have "signing_payload k cs' = signing_payload k cs" using assms(4,5) by (simp add: signing_payload_def)
  moreover obtain payload where "signing_payload k cs = Inr payload"
    "rcs = \<lparr>rcs_changeset = cs, rcs_agent = keypair_identity k kp, rcs_signature = sign_bytes k kp payload\<rparr>"
    using assms(3) by (auto simp: sign_changeset_def rbind_Ok_iff)
  ultimately show ?thesis
    using assms(1,2) by (simp add: verify_signature_def verify_bytes_def keypair_identity_def sign_bytes_def)
qed

lemma signature_covers_base_and_ops_witness:
  "verify_signature sample_crypto \<lparr>rcs_changeset = default_canonical,
     rcs_agent = keypair_identity sample_crypto \<lparr>kp_secret = [1]\<rparr>,
     rcs_signature = sign_bytes sample_crypto \<lparr>kp_secret = [1]\<rparr> (replicate 8 0 @ [0])\<rparr> = Ok ()"
  using signature_covers_base_and_ops[of sample_crypto "\<lparr>kp_secret = [1]\<rparr>" default_canonical
      "\<lparr>rcs_changeset = default_canonical, rcs_agent = keypair_identity sample_crypto \<lparr>kp_secret = [1]\<rparr>,
     rcs_signature = sign_bytes sample_crypto \<lparr>kp_secret = [1]\<rparr> (replicate 8 0 @ [0])\<rparr>" default_canonical]
  by (simp add: sample_crypto_def sign_changeset_def signing_payload_def map_err_def default_canonical_def
      snapshot_id_le_bytes_def numeral_eq_Suc)

end
