(* ===== verification/Coordinator.thy ===== *)
theory Coordinator
  imports Rebase Remote
begin

text \<open>
  The coordinator (\<^verbatim>\<open>crates/ail-coordinator/src/coordinator.rs\<close>). All mutable
  state sits behind one mutex that every request holds from its first read to its
  last write, so a request is one transition and concurrent agents are a sequence
  of requests. The lemmas give the outcome of every submission, the invariant of
  the live graph and of the snapshot counter over all histories, and that the
  live graph is the result of the accepted change sets in order.
\<close>

section \<open>Model\<close>

record FixedSnapshotBridge =
  fb_id :: SnapshotId

definition fixed_current_snapshot_id :: "FixedSnapshotBridge \<Rightarrow> SnapshotId" where
  "fixed_current_snapshot_id b = fb_id b"

datatype CoordinatorOutcome =
    CoordApplied SnapshotId
  | CoordRebaseApplied SnapshotId SnapshotId
  | CoordConflictIrresolvable ConflictReason
  | CoordStaleBase SnapshotId
  | CoordFailed FailReason

record CoordinatorState =
  st_graph :: SemanticGraph
  st_bridge :: MemorySnapshotBridge
  st_committed_diff :: StructuralDiff
  st_committed_removes :: "NodeRef set"
  st_bundle_store :: InMemoryBundleStore

record Coordinator =
  co_inner :: CoordinatorState
  co_remote_signer_policy :: RemoteSignerPolicy

definition with_remote_signer_policy ::
  "SnapshotId \<Rightarrow> SemanticGraph \<Rightarrow> RemoteSignerPolicy \<Rightarrow> Coordinator" where
  "with_remote_signer_policy initial_snapshot_id g policy =
     \<lparr>co_inner = \<lparr>st_graph = g, st_bridge = memory_bridge_new initial_snapshot_id,
                  st_committed_diff = \<lparr>sd_touched_nodes = {}\<rparr>, st_committed_removes = {},
                  st_bundle_store = bundle_store_new\<rparr>,
      co_remote_signer_policy = policy\<rparr>"

definition coordinator_new :: "SnapshotId \<Rightarrow> SemanticGraph \<Rightarrow> Coordinator" where
  "coordinator_new initial_snapshot_id g = with_remote_signer_policy initial_snapshot_id g deny_all"

definition extract_removed_nodes :: "CanonicalOp list \<Rightarrow> NodeRef set" where
  "extract_removed_nodes ops =
     set (List.map_filter (\<lambda>op. case op_payload op of RemoveNode i \<Rightarrow> Some i | _ \<Rightarrow> None) ops)"

text \<open>What both paths do when \<open>apply\<close> reports success.\<close>

definition commit ::
  "CoordinatorState \<Rightarrow> SemanticGraph \<Rightarrow> CanonicalOp list \<Rightarrow> CoordinatorState" where
  "commit st g ops =
     st\<lparr>st_graph := g, st_bridge := advance_snapshot_id (st_bridge st),
        st_committed_diff := from_ops ops, st_committed_removes := extract_removed_nodes ops\<rparr>"

definition submit_clean ::
  "Codec \<Rightarrow> CoordinatorState \<Rightarrow> CanonicalChangeSet \<Rightarrow> CoordinatorOutcome \<times> CoordinatorState" where
  "submit_clean c st cs =
     (let live_id = memory_current_snapshot_id (st_bridge st);
          (outcome, g) = apply_cs c fixed_current_snapshot_id cs (st_graph st) \<lparr>fb_id = live_id\<rparr>
      in case outcome of
           Applied \<Rightarrow>
             (let st' = commit st g (cc_ops cs)
              in (CoordApplied (memory_current_snapshot_id (st_bridge st')), st'))
         | Failed reason \<Rightarrow> (CoordFailed reason, st\<lparr>st_graph := g\<rparr>)
         | RebaseRequired _ \<Rightarrow> (CoordStaleBase live_id, st\<lparr>st_graph := g\<rparr>)
         | ConflictIrresolvable reason \<Rightarrow> (CoordConflictIrresolvable reason, st\<lparr>st_graph := g\<rparr>))"

definition submit_stale ::
  "Codec \<Rightarrow> CoordinatorState \<Rightarrow> CanonicalChangeSet \<Rightarrow> CoordinatorOutcome \<times> CoordinatorState" where
  "submit_stale c st cs =
     (let live_id = memory_current_snapshot_id (st_bridge st);
          pending_diff = from_ops (cc_ops cs)
      in case rebase cs (st_committed_diff st) live_id of
           Rebased rebased_cs \<Rightarrow>
             (let (outcome, g) = apply_cs c fixed_current_snapshot_id rebased_cs (st_graph st) \<lparr>fb_id = live_id\<rparr>
              in case outcome of
                   Applied \<Rightarrow>
                     (let st' = commit st g (cc_ops rebased_cs)
                      in (CoordRebaseApplied live_id (memory_current_snapshot_id (st_bridge st')), st'))
                 | Failed reason \<Rightarrow> (CoordFailed reason, st\<lparr>st_graph := g\<rparr>)
                 | RebaseRequired current \<Rightarrow> (CoordStaleBase current, st\<lparr>st_graph := g\<rparr>)
                 | ConflictIrresolvable reason \<Rightarrow>
                     (CoordConflictIrresolvable reason, st\<lparr>st_graph := g\<rparr>))
         | Conflict _ \<Rightarrow>
             (let conflicts = sd_touched_nodes pending_diff \<inter> sd_touched_nodes (st_committed_diff st)
              in (CoordConflictIrresolvable (classify_conflict conflicts (st_committed_removes st)), st)))"

definition submit ::
  "Codec \<Rightarrow> CoordinatorState \<Rightarrow> CanonicalChangeSet \<Rightarrow> CoordinatorOutcome \<times> CoordinatorState" where
  "submit c st cs =
     (if cc_base_snapshot_id cs = memory_current_snapshot_id (st_bridge st)
      then submit_clean c st cs else submit_stale c st cs)"

definition verify_remote_submission ::
  "Codec \<Rightarrow> Crypto \<Rightarrow> Coordinator \<Rightarrow> RemoteChangeSet
    \<Rightarrow> (RemoteError, CoordinatorOutcome) result \<times> Coordinator" where
  "verify_remote_submission c k co rcs =
     (case verify_signature k rcs of
        Inl _ \<Rightarrow> (Err RemoteSignatureInvalid, co)
      | Inr _ \<Rightarrow>
          (case check_identity (co_remote_signer_policy co) (rcs_agent rcs) of
             Inl rejection \<Rightarrow> (Err (SignerRejected rejection), co)
           | Inr _ \<Rightarrow>
               (let (outcome, st') = submit c (co_inner co) (rcs_changeset rcs);
                    co' = co\<lparr>co_inner := st'\<rparr>
                in case outcome of
                     CoordFailed reason \<Rightarrow> (Err (CoordinatorFailed reason), co')
                   | _ \<Rightarrow> (Ok outcome, co'))))"

fun remote_submission_outcome :: "CoordinatorOutcome \<Rightarrow> RemoteSubmissionOutcome" where
  "remote_submission_outcome (CoordApplied i) = SubmissionApplied i"
| "remote_submission_outcome (CoordRebaseApplied b i) = SubmissionRebaseApplied b i"
| "remote_submission_outcome (CoordConflictIrresolvable r) = SubmissionConflict r"
| "remote_submission_outcome (CoordStaleBase i) = SubmissionStaleBase i"
| "remote_submission_outcome (CoordFailed r) = SubmissionFailed r"

fun remote_error_code :: "RemoteError \<Rightarrow> string" where
  "remote_error_code RemoteSignatureInvalid = ''E_SIGNATURE_INVALID''"
| "remote_error_code (SignerRejected _) = ''E_SIGNER_NOT_ALLOWED''"
| "remote_error_code (CoordinatorFailed _) = ''E_COORDINATOR_FAILED''"

fun handle_remote_exchange ::
  "Codec \<Rightarrow> Crypto \<Rightarrow> Coordinator \<Rightarrow> RemoteExchangeRequest \<Rightarrow> RemoteExchangeResponse \<times> Coordinator" where
  "handle_remote_exchange c k co (SubmitChangeSet rcs) =
     (let (r, co') = verify_remote_submission c k co rcs
      in case r of
           Inr outcome \<Rightarrow> (Submission (remote_submission_outcome outcome), co')
         | Inl err \<Rightarrow> (ErrorResponse (remote_error_code err) (RemoteErrorText err), co'))"
| "handle_remote_exchange c k co (PushBundle bundle) =
     (case verify_integrity c k bundle of
        Inr _ \<Rightarrow>
          (BundleAccepted (ob_root bundle) (length (ob_objects bundle)),
           co\<lparr>co_inner := (co_inner co)\<lparr>st_bundle_store := put_bundle (st_bundle_store (co_inner co)) bundle\<rparr>\<rparr>)
      | Inl err \<Rightarrow> (ErrorResponse ''E_BUNDLE_INVALID'' (BundleErrorText err), co))"
| "handle_remote_exchange c k co (PullBundle root) =
     (case get_bundle (st_bundle_store (co_inner co)) root of
        Some bundle \<Rightarrow> (BundleResponse bundle, co)
      | None \<Rightarrow> (BundleMissing root, co))"

section \<open>Submissions\<close>

abbreviation live_id :: "CoordinatorState \<Rightarrow> SnapshotId" where
  "live_id st \<equiv> memory_current_snapshot_id (st_bridge st)"

fun committed :: "CoordinatorOutcome \<Rightarrow> bool" where
  "committed (CoordApplied _) = True"
| "committed (CoordRebaseApplied _ _) = True"
| "committed _ = False"

lemma graph_update_same [simp]: "st\<lparr>st_graph := st_graph st\<rparr> = st"
  by simp

lemma apply_cs_base_cases:
  assumes "cc_base_snapshot_id cs = cur b"
  shows "(fst (apply_cs c cur cs g b) = Applied \<and>
      snd (apply_cs c cur cs g b) = fold apply_op (cc_ops cs) g) \<or>
    (\<exists>r. apply_cs c cur cs g b = (Failed r, g))"
proof (cases "fst (apply_cs c cur cs g b) = Applied")
  case True
  then have "apply_cs c cur cs g b = (Applied, snd (apply_cs c cur cs g b))" by (metis prod.collapse)
  then show ?thesis using True unfolding apply_cs_Applied_iff by blast
next
  case False
  obtain r t where rt: "apply_ops g (cc_ops cs) g = (r, t)" by fastforce
  have "r = Applied \<or> (\<exists>e. r = Failed (InvariantViolated e)) \<and> t = g"
    using tx.run_failure[OF rt] tx.run_rollback[OF rt] by auto
  with False rt assms show ?thesis by (auto simp: apply_cs_def Let_def split: option.splits)
qed

text \<open>The three ways a submission can end.\<close>

lemma submit_cases:
  obtains (committed) g out where
      "g = fold apply_op (cc_ops cs) (st_graph st)" "submit c st cs = (out, commit st g (cc_ops cs))"
      "fst (apply_cs c (\<lambda>i. i) (cs\<lparr>cc_base_snapshot_id := live_id st\<rparr>) (st_graph st) (live_id st)) = Applied"
      "out = (if cc_base_snapshot_id cs = live_id st then CoordApplied (live_id st + 1)
              else CoordRebaseApplied (live_id st) (live_id st + 1))"
      "cc_base_snapshot_id cs = live_id st \<or>
         collect_refs (cc_ops cs) \<inter> sd_touched_nodes (st_committed_diff st) = {}"
  | (failed) r where "submit c st cs = (CoordFailed r, st)"
  | (conflict) r where "submit c st cs = (CoordConflictIrresolvable r, st)"
      "cc_base_snapshot_id cs \<noteq> live_id st"
      "r = classify_conflict (collect_refs (cc_ops cs) \<inter> sd_touched_nodes (st_committed_diff st))
             (st_committed_removes st)"
      "collect_refs (cc_ops cs) \<inter> sd_touched_nodes (st_committed_diff st) \<noteq> {}"
proof -
  let ?cs = "cs\<lparr>cc_base_snapshot_id := live_id st\<rparr>"
  let ?a = "apply_cs c fixed_current_snapshot_id ?cs (st_graph st) \<lparr>fb_id = live_id st\<rparr>"
  have eq: "?a = apply_cs c (\<lambda>i. i) ?cs (st_graph st) (live_id st)"
    by (simp add: apply_cs_def fixed_current_snapshot_id_def Let_def)
  have same: "apply_cs c fixed_current_snapshot_id cs (st_graph st) \<lparr>fb_id = live_id st\<rparr> = ?a"
    if "cc_base_snapshot_id cs = live_id st"
  proof -
    have "?cs = cs" using that by (metis CanonicalChangeSet.surjective CanonicalChangeSet.update_convs(2))
    then show ?thesis by (simp only:)
  qed
  have next_id: "live_id (commit st g ops) = live_id st + 1" for g ops
    by (simp add: commit_def mb.current_advance)
  from apply_cs_base_cases[of ?cs fixed_current_snapshot_id "\<lparr>fb_id = live_id st\<rparr>" c "st_graph st"]
  consider (ok) "?a = (Applied, fold apply_op (cc_ops cs) (st_graph st))" | (bad) r where "?a = (Failed r, st_graph st)"
    by (auto simp: fixed_current_snapshot_id_def) (metis prod.collapse)
  then show thesis
  proof cases
    case ok
    show thesis
    proof (cases "cc_base_snapshot_id cs = live_id st \<or>
        collect_refs (cc_ops cs) \<inter> sd_touched_nodes (st_committed_diff st) = {}")
      case True
      show thesis
      proof (rule committed[OF refl _ _ refl True])
        show "fst (apply_cs c (\<lambda>i. i) ?cs (st_graph st) (live_id st)) = Applied" using ok eq by simp
        show "submit c st cs = (if cc_base_snapshot_id cs = live_id st then CoordApplied (live_id st + 1)
              else CoordRebaseApplied (live_id st) (live_id st + 1),
            commit st (fold apply_op (cc_ops cs) (st_graph st)) (cc_ops cs))"
          using True ok
          by (auto simp: submit_def submit_clean_def submit_stale_def rebase_def Let_def same next_id)
      qed
    next
      case False
      then show thesis
        by (intro conflict[OF _ _ refl])
          (auto simp: submit_def submit_stale_def rebase_def Let_def from_ops_def)
    qed
  next
    case bad
    show thesis
    proof (cases "cc_base_snapshot_id cs = live_id st \<or>
        collect_refs (cc_ops cs) \<inter> sd_touched_nodes (st_committed_diff st) = {}")
      case True
      with bad show thesis
        by (intro failed)
          (auto simp: submit_def submit_clean_def submit_stale_def rebase_def Let_def same)
    next
      case False
      then show thesis
        by (intro conflict[OF _ _ refl])
          (auto simp: submit_def submit_stale_def rebase_def Let_def from_ops_def)
    qed
  qed
qed

lemma submit_not_committed: "\<not> committed (fst (submit c st cs)) \<Longrightarrow> snd (submit c st cs) = st"
  by (cases rule: submit_cases[where c = c and st = st and cs = cs]) (auto split: if_splits)

lemma submit_committed:
  assumes "committed (fst (submit c st cs))"
  shows "st_graph (snd (submit c st cs)) = fold apply_op (cc_ops cs) (st_graph st) \<and>
    live_id (snd (submit c st cs)) = live_id st + 1"
  using assms
  by (cases rule: submit_cases[where c = c and st = st and cs = cs]) (auto simp: commit_def mb.current_advance)

lemma submit_wf: "graph_wf (st_graph st) \<Longrightarrow> graph_wf (st_graph (snd (submit c st cs)))"
proof (cases rule: submit_cases[where c = c and st = st and cs = cs])
  case (committed g out)
  assume wf: "graph_wf (st_graph st)"
  let ?cs = "cs\<lparr>cc_base_snapshot_id := live_id st\<rparr>"
  have "graph_wf (snd (apply_cs c (\<lambda>i. i) ?cs (st_graph st) (live_id st)))"
    by (rule apply_cs_wf[OF wf])
  moreover have "apply_cs c (\<lambda>i. i) ?cs (st_graph st) (live_id st) =
      (Applied, snd (apply_cs c (\<lambda>i. i) ?cs (st_graph st) (live_id st)))"
    using committed(3) by (metis prod.collapse)
  then have "snd (apply_cs c (\<lambda>i. i) ?cs (st_graph st) (live_id st)) = g"
    unfolding apply_cs_Applied_iff using committed(1) by simp
  ultimately show ?thesis using committed(2) by (simp add: commit_def)
qed simp_all

lemma submit_bundles: "st_bundle_store (snd (submit c st cs)) = st_bundle_store st"
  by (cases rule: submit_cases[where c = c and st = st and cs = cs]) (auto simp: commit_def)

section \<open>Histories\<close>

text \<open>What an agent can ask of the coordinator: a local or a remote request.\<close>

datatype CoordRequest = LocalRequest CanonicalChangeSet | RemoteRequest RemoteExchangeRequest

fun coord_step :: "Codec \<Rightarrow> Crypto \<Rightarrow> CoordRequest \<Rightarrow> Coordinator \<Rightarrow> Coordinator" where
  "coord_step c k (LocalRequest cs) co = co\<lparr>co_inner := snd (submit c (co_inner co) cs)\<rparr>"
| "coord_step c k (RemoteRequest req) co = snd (handle_remote_exchange c k co req)"

text \<open>The change set a request commits, if it commits one.\<close>

fun coord_accepted :: "Codec \<Rightarrow> Crypto \<Rightarrow> Coordinator \<Rightarrow> CoordRequest \<Rightarrow> CanonicalChangeSet option" where
  "coord_accepted c k co (LocalRequest cs) =
     (if committed (fst (submit c (co_inner co) cs)) then Some cs else None)"
| "coord_accepted c k co (RemoteRequest (SubmitChangeSet rcs)) =
     (case fst (verify_remote_submission c k co rcs) of
        Inl _ \<Rightarrow> None
      | Inr out \<Rightarrow> (if committed out then Some (rcs_changeset rcs) else None))"
| "coord_accepted c k co (RemoteRequest _) = None"

text \<open>All states a service can reach, with the log of what it accepted on the way.\<close>

inductive history ::
  "('req \<Rightarrow> 's \<Rightarrow> 's) \<Rightarrow> ('s \<Rightarrow> 'req \<Rightarrow> 'x option) \<Rightarrow> 's \<Rightarrow> 'x list \<Rightarrow> 's \<Rightarrow> bool"
  for step :: "'req \<Rightarrow> 's \<Rightarrow> 's" and acc :: "'s \<Rightarrow> 'req \<Rightarrow> 'x option" and s0 :: 's
where
  history_start: "history step acc s0 [] s0"
| history_step: "history step acc s0 log s \<Longrightarrow>
    history step acc s0 (log @ option_list (acc s r)) (step r s)"

inductive_cases history_NilE: "history step acc s0 [] s"

text \<open>
  The contract of a serializing service: a rejected request leaves state and
  counter alone, an accepted one has its effect and advances the counter.
\<close>

locale serializing_service =
  fixes step :: "'req \<Rightarrow> 's \<Rightarrow> 's"
    and acc :: "'s \<Rightarrow> 'req \<Rightarrow> 'x option"
    and graph :: "'s \<Rightarrow> 'g"
    and current :: "'s \<Rightarrow> u64"
    and effect :: "'x \<Rightarrow> 'g \<Rightarrow> 'g"
    and valid :: "'g \<Rightarrow> bool"
  assumes rejected: "acc s r = None \<Longrightarrow> graph (step r s) = graph s \<and> current (step r s) = current s"
    and accepted: "acc s r = Some x \<Longrightarrow>
      graph (step r s) = effect x (graph s) \<and> current (step r s) = current s + 1"
    and kept: "valid (graph s) \<Longrightarrow> valid (graph (step r s))"
begin

lemma history_graph: "history step acc s0 log s \<Longrightarrow> graph s = fold effect log (graph s0)"
proof (induction rule: history.induct)
  case (history_step log s r)
  then show ?case
    by (cases "acc s r") (auto simp: option_list_def dest: rejected accepted)
qed simp

lemma history_current: "history step acc s0 log s \<Longrightarrow> current s = current s0 + of_nat (length log)"
proof (induction rule: history.induct)
  case (history_step log s r)
  then show ?case
    by (cases "acc s r") (auto simp: option_list_def dest: rejected accepted)
qed simp

lemma history_valid: "history step acc s0 log s \<Longrightarrow> valid (graph s0) \<Longrightarrow> valid (graph s)"
  by (induction rule: history.induct) (auto intro: kept)

text \<open>Identifiers are not reused before the counter wraps around.\<close>

lemma history_fresh:
  assumes "history step acc s0 log s" "0 < length log" "length log < 2 ^ 64"
  shows "current s \<noteq> current s0"
proof
  assume "current s = current s0"
  then have "(of_nat (length log) :: u64) = 0" using history_current[OF assms(1)] by simp
  then have "2 ^ 64 dvd length log" by (simp add: word_of_nat_eq_0_iff)
  with assms(2,3) show False by (auto dest: dvd_imp_le)
qed

end

text \<open>A remote submission changes the coordinator as the local one does, or not at all.\<close>

lemma verify_remote_submission_cases:
  obtains (rejected) e where "verify_remote_submission c k co rcs = (Inl e, co)" "\<not> (\<exists>r. e = CoordinatorFailed r)"
  | (failed) r where "verify_remote_submission c k co rcs = (Inl (CoordinatorFailed r), co)"
      "submit c (co_inner co) (rcs_changeset rcs) = (CoordFailed r, co_inner co)"
  | (submitted) out st' where "submit c (co_inner co) (rcs_changeset rcs) = (out, st')"
      "verify_remote_submission c k co rcs = (Inr out, co\<lparr>co_inner := st'\<rparr>)" "\<not> (\<exists>r. out = CoordFailed r)"
proof (cases "verify_signature k rcs")
  case (Inl e)
  then show thesis by (intro rejected[of RemoteSignatureInvalid]) (simp_all add: verify_remote_submission_def)
next
  case (Inr u)
  note sig = this
  show thesis
  proof (cases "check_identity (co_remote_signer_policy co) (rcs_agent rcs)")
    case (Inl e)
    with sig show thesis
      by (intro rejected[of "SignerRejected e"]) (simp_all add: verify_remote_submission_def)
  next
    case (Inr s)
    obtain out st' where sub: "submit c (co_inner co) (rcs_changeset rcs) = (out, st')" by fastforce
    show thesis
    proof (cases out)
      case (CoordFailed r)
      with sub submit_not_committed[of c "co_inner co" "rcs_changeset rcs"]
      have "st' = co_inner co" by simp
      with sub sig Inr CoordFailed show thesis
        by (intro failed[of r]) (simp_all add: verify_remote_submission_def)
    qed (use sub sig Inr in \<open>(intro submitted[of out st']; simp add: verify_remote_submission_def)\<close>)+
  qed
qed

lemma coord_rejected:
  "coord_accepted c k co r = None \<Longrightarrow>
     st_graph (co_inner (coord_step c k r co)) = st_graph (co_inner co) \<and>
     live_id (co_inner (coord_step c k r co)) = live_id (co_inner co)"
proof (induction c k co r rule: coord_accepted.induct)
  case (1 c k co cs)
  then show ?case by (auto simp: submit_not_committed split: if_splits)
next
  case (2 c k co rcs)
  then show ?case
    by (cases rule: verify_remote_submission_cases[where c = c and k = k and co = co and rcs = rcs])
      (use submit_not_committed[of c "co_inner co" "rcs_changeset rcs"] in \<open>auto split: if_splits\<close>)
qed (auto split: sum.splits option.splits)

lemma coord_accepts:
  "coord_accepted c k co r = Some cs \<Longrightarrow>
     st_graph (co_inner (coord_step c k r co)) = fold apply_op (cc_ops cs) (st_graph (co_inner co)) \<and>
     live_id (co_inner (coord_step c k r co)) = live_id (co_inner co) + 1"
proof (induction c k co r rule: coord_accepted.induct)
  case (1 c k co cs')
  then show ?case by (auto simp: submit_committed split: if_splits)
next
  case (2 c k co rcs)
  then show ?case
    by (cases rule: verify_remote_submission_cases[where c = c and k = k and co = co and rcs = rcs])
      (use submit_committed[of c "co_inner co" "rcs_changeset rcs"] in \<open>auto split: if_splits\<close>)
qed auto

lemma coord_wf:
  "graph_wf (st_graph (co_inner co)) \<Longrightarrow> graph_wf (st_graph (co_inner (coord_step c k r co)))"
proof (induction c k co r rule: coord_accepted.induct)
  case (1 c k co cs)
  then show ?case by (simp add: submit_wf)
next
  case (2 c k co rcs)
  then show ?case
    by (cases rule: verify_remote_submission_cases[where c = c and k = k and co = co and rcs = rcs])
      (use submit_wf[of "co_inner co" c "rcs_changeset rcs"] in auto)
qed (auto split: sum.splits option.splits)

interpretation coord: serializing_service "coord_step c k" "coord_accepted c k"
    "\<lambda>co. st_graph (co_inner co)" "\<lambda>co. live_id (co_inner co)"
    "\<lambda>cs. fold apply_op (cc_ops cs)" graph_wf
  for c k
  by unfold_locales (rule coord_rejected coord_accepts coord_wf; assumption)+

lemma fold_fold_concat: "fold (\<lambda>x. fold f (g x)) xs s = fold f (concat (map g xs)) s"
  by (induction xs arbitrary: s) auto

section \<open>Bundles\<close>

text \<open>Every bundle the coordinator holds is stored under its root and intact.\<close>

definition bundles_ok :: "Codec \<Rightarrow> Crypto \<Rightarrow> InMemoryBundleStore \<Rightarrow> bool" where
  "bundles_ok c k s =
     list_all (\<lambda>(root, b). ob_root b = root \<and> verify_integrity c k b = Inr ()) (bs_bundles s)"

lemma bundles_ok_put:
  assumes "bundles_ok c k s" "verify_integrity c k b = Inr ()"
  shows "bundles_ok c k (put_bundle s b)"
  using assms set_bt_insert[of "ob_root b" b "bs_bundles s"]
  by (auto simp: bundles_ok_def put_bundle_def list_all_iff)

lemma bundles_ok_get:
  "bundles_ok c k s \<Longrightarrow> get_bundle s root = Some b \<Longrightarrow> ob_root b = root \<and> verify_integrity c k b = Inr ()"
  by (auto simp: bundles_ok_def get_bundle_def bt_get_def list_all_iff dest!: map_of_SomeD)

lemma coord_step_bundles:
  assumes "bundles_ok c k (st_bundle_store (co_inner co))"
  shows "bundles_ok c k (st_bundle_store (co_inner (coord_step c k r co)))"
  using assms
proof (induction c k co r rule: coord_accepted.induct)
  case (1 c k co cs)
  then show ?case by (simp add: submit_bundles)
next
  case (2 c k co rcs)
  then show ?case
    by (cases rule: verify_remote_submission_cases[where c = c and k = k and co = co and rcs = rcs])
      (use submit_bundles[of c "co_inner co" "rcs_changeset rcs"] in auto)
qed (auto simp: bundles_ok_put split: option.splits sum.splits)

section \<open>Properties\<close>

text \<open>
  C9. A submission either commits, and then the live graph is the old one with
  all operations applied, the snapshot identifier advances by one and the new
  identifier is reported, or it leaves the whole state untouched and reports a
  failure or a conflict. A stale base is never reported as such.
\<close>

theorem submit_commits_or_nothing:
  "(\<exists>st'. submit c st cs =
      (if cc_base_snapshot_id cs = memory_current_snapshot_id (st_bridge st)
         then CoordApplied (memory_current_snapshot_id (st_bridge st'))
         else CoordRebaseApplied (memory_current_snapshot_id (st_bridge st))
                (memory_current_snapshot_id (st_bridge st')), st') \<and>
      memory_current_snapshot_id (st_bridge st') = memory_current_snapshot_id (st_bridge st) + 1 \<and>
      st_graph st' = fold (\<lambda>op. apply_payload (op_payload op)) (cc_ops cs) (st_graph st) \<and>
      st_bundle_store st' = st_bundle_store st) \<or>
   (\<exists>reason. submit c st cs = (CoordFailed reason, st)) \<or>
   (\<exists>reason. submit c st cs = (CoordConflictIrresolvable reason, st))"
proof (cases rule: submit_cases[where c = c and st = st and cs = cs])
  case (committed g out)
  then show ?thesis
    by (intro disjI1 exI[of _ "commit st g (cc_ops cs)"]) (auto simp: commit_def mb.current_advance)
qed auto

text \<open>
  C1. The coordinator serializes: after any history of local and remote requests
  from a valid graph, the live graph is the initial one with the accepted change
  sets applied in the order of acceptance, the snapshot identifier is the initial
  one plus the number of accepted change sets modulo 2 to the 64, and the live
  graph passes validation.
\<close>

theorem coordinator_serializes:
  assumes "validate g = Inr ()"
    and "history (coord_step c k) (coord_accepted c k) (with_remote_signer_policy i g pol) accepted co"
  shows "st_graph (co_inner co) =
      fold (\<lambda>op. apply_payload (op_payload op)) (concat (map cc_ops accepted)) g \<and>
    memory_current_snapshot_id (st_bridge (co_inner co)) = i + of_nat (length accepted) \<and>
    validate (st_graph (co_inner co)) = Inr ()"
  using coord.history_graph[OF assms(2)] coord.history_current[OF assms(2)]
    coord.history_valid[OF assms(2)] assms(1)
  by (simp add: with_remote_signer_policy_def validate_Ok_iff fold_fold_concat)

theorem coordinator_serializes_witness:
  "memory_current_snapshot_id (st_bridge (co_inner (coord_step sample_codec sample_crypto
      (LocalRequest default_canonical) (with_remote_signer_policy 0 sample_graph deny_all)))) = 1"
proof -
  let ?co = "with_remote_signer_policy 0 sample_graph deny_all"
  let ?req = "LocalRequest default_canonical"
  have "coord_accepted sample_codec sample_crypto ?co ?req = Some default_canonical"
    by (simp add: with_remote_signer_policy_def default_canonical_def submit_def submit_clean_def
        apply_cs_def fixed_current_snapshot_id_def Let_def)
  then have "history (coord_step sample_codec sample_crypto) (coord_accepted sample_codec sample_crypto)
      ?co ([] @ [default_canonical]) (coord_step sample_codec sample_crypto ?req ?co)"
    using history_step[OF history_start, of "coord_step sample_codec sample_crypto"
        "coord_accepted sample_codec sample_crypto" ?co ?req] by (simp add: option_list_def)
  from coordinator_serializes[OF sample_graph_valid this] show ?thesis by simp
qed

text \<open>
  A conflict is reported exactly for a stale change set that touches a
  reference of the last committed one, and it is a deletion conflict exactly when
  such a reference was removed.
\<close>

lemma submit_conflict_iff:
  "fst (submit c st cs) = CoordConflictIrresolvable reason \<longleftrightarrow>
     cc_base_snapshot_id cs \<noteq> memory_current_snapshot_id (st_bridge st) \<and>
     collect_refs (cc_ops cs) \<inter> sd_touched_nodes (st_committed_diff st) \<noteq> {} \<and>
     reason = (if collect_refs (cc_ops cs) \<inter> sd_touched_nodes (st_committed_diff st) \<inter>
                 st_committed_removes st \<noteq> {}
               then NodeDeletedWhileModified else SameNodeModifiedIncompatibly)"
proof (cases "cc_base_snapshot_id cs \<noteq> live_id st \<and>
    collect_refs (cc_ops cs) \<inter> sd_touched_nodes (st_committed_diff st) \<noteq> {}")
  case True
  then have "submit c st cs = (CoordConflictIrresolvable (classify_conflict
      (collect_refs (cc_ops cs) \<inter> sd_touched_nodes (st_committed_diff st)) (st_committed_removes st)), st)"
    by (simp add: submit_def submit_stale_def rebase_def from_ops_def Let_def)
  with True show ?thesis by (auto simp: classify_conflict_def)
next
  case False
  then show ?thesis
    by (cases rule: submit_cases[where c = c and st = st and cs = cs]) auto
qed

text \<open>
  C10. Only authenticated and allowed signers reach the graph: a remote change
  set whose signature does not verify, or whose key is not on the allow list,
  leaves the coordinator unchanged and is answered with the error code of the
  first check that failed.
\<close>

theorem remote_submission_gate:
  assumes "\<not> (verify_signature k rcs = Ok () \<and>
      ai_public_key (rcs_agent rcs) \<in> set (map ts_public_key (rp_allowed_signers (co_remote_signer_policy co))))"
  shows "snd (handle_remote_exchange c k co (SubmitChangeSet rcs)) = co \<and>
    (\<exists>m. fst (handle_remote_exchange c k co (SubmitChangeSet rcs)) =
       ErrorResponse (if verify_signature k rcs = Ok () then ''E_SIGNER_NOT_ALLOWED''
                      else ''E_SIGNATURE_INVALID'') m)"
proof (cases "verify_signature k rcs")
  case (Inr u)
  with assms have "\<not> (\<exists>s. check_identity (co_remote_signer_policy co) (rcs_agent rcs) = Inr s)"
    by (simp add: check_identity_Ok_iff)
  then obtain e where "check_identity (co_remote_signer_policy co) (rcs_agent rcs) = Inl e"
    by (cases "check_identity (co_remote_signer_policy co) (rcs_agent rcs)") auto
  with Inr show ?thesis by (simp add: verify_remote_submission_def)
qed (simp add: verify_remote_submission_def)

theorem remote_submission_gate_witness:
  "snd (handle_remote_exchange sample_codec sample_crypto (coordinator_new 0 sample_graph)
     (SubmitChangeSet \<lparr>rcs_changeset = default_canonical,
        rcs_agent = \<lparr>ai_public_key = [1], ai_label = None\<rparr>, rcs_signature = []\<rparr>)) =
   coordinator_new 0 sample_graph"
  using remote_submission_gate[of sample_crypto "\<lparr>rcs_changeset = default_canonical,
        rcs_agent = \<lparr>ai_public_key = [1], ai_label = None\<rparr>, rcs_signature = []\<rparr>"
      "coordinator_new 0 sample_graph" sample_codec]
  by (simp add: coordinator_new_def with_remote_signer_policy_def deny_all_def del: handle_remote_exchange.simps)

text \<open>
  C11. Bundles are kept intact: in every reachable state each bundle that a pull
  returns has the requested root and passes its integrity check, and a bundle
  that was just accepted is what the next pull of its root returns.
\<close>

theorem coordinator_bundles_intact:
  assumes "history (coord_step c k) (coord_accepted c k) (with_remote_signer_policy i g pol) accepted co"
  shows "(case handle_remote_exchange c k co (PullBundle root) of
       (BundleResponse b, _) \<Rightarrow> ob_root b = root \<and> verify_integrity c k b = Ok ()
     | (response, _) \<Rightarrow> response = BundleMissing root) \<and>
    (case handle_remote_exchange c k co (PushBundle b) of
       (BundleAccepted r n, co') \<Rightarrow>
         verify_integrity c k b = Ok () \<and> r = ob_root b \<and>
         fst (handle_remote_exchange c k co' (PullBundle r)) = BundleResponse b
     | (response, co') \<Rightarrow> co' = co)"
proof -
  have "bundles_ok c k (st_bundle_store (co_inner co))"
    using assms
  proof (induction rule: history.induct)
    case history_start
    show ?case by (simp add: bundles_ok_def with_remote_signer_policy_def bundle_store_new_def)
  next
    case (history_step log s r)
    then show ?case by (simp add: coord_step_bundles)
  qed
  then show ?thesis
    by (auto simp: get_bundle_def put_bundle_def dest: bundles_ok_get split: option.split sum.split)
qed

theorem coordinator_bundles_intact_witness:
  "fst (handle_remote_exchange sample_codec sample_crypto (with_remote_signer_policy 0 sample_graph deny_all)
     (PullBundle [])) = BundleMissing []"
  using coordinator_bundles_intact[OF history_start, where root = "[]" and c = sample_codec and
      k = sample_crypto and i = 0 and g = sample_graph and pol = deny_all]
  by (simp add: with_remote_signer_policy_def bundle_store_new_def get_bundle_def)

definition rename_op :: "NodeRef \<Rightarrow> string \<Rightarrow> SnapshotId \<Rightarrow> CanonicalChangeSet" where
  "rename_op i s base =
     default_canonical\<lparr>cc_base_snapshot_id := base, cc_ops := [default_op\<lparr>op_payload := SetNodeName i s\<rparr>]\<rparr>"

text \<open>
  Conflict detection looks back one commit only: a change set that touches a
  reference modified two commits ago is rebased and applied without a conflict,
  although the same submission one commit earlier is a conflict.
\<close>

lemma multi_hop_conflict_missed:
  "(let st0 = co_inner (coordinator_new 0 sample_graph);
        st1 = snd (submit c st0 (rename_op 1 ''a'' 0));
        st2 = snd (submit c st1 (rename_op 0 ''b'' 1))
    in fst (submit c st1 (rename_op 1 ''z'' 0)) = CoordConflictIrresolvable SameNodeModifiedIncompatibly \<and>
       fst (submit c st2 (rename_op 1 ''z'' 0)) = CoordRebaseApplied 2 3 \<and>
       map gn_name (sg_nodes (st_graph (snd (submit c st2 (rename_op 1 ''z'' 0))))) = [''b'', ''z''])"
  by (simp add: coordinator_new_def with_remote_signer_policy_def rename_op_def default_canonical_def
      default_op_def submit_def submit_clean_def submit_stale_def apply_cs_def rebase_def from_ops_def
      collect_refs_def fixed_current_snapshot_id_def commit_def memory_current_snapshot_id_def
      memory_bridge_new_def advance_snapshot_id_def sample_graph_def validate_def classify_conflict_def
      extract_removed_nodes_def Let_def)

end
