(* ===== verification/Change_Parser.thy ===== *)
theory Change_Parser
  imports Change_Model
begin

text \<open>
  The line parser of the change language (\<^verbatim>\<open>crates/ail-change/src/parser.rs\<close>).
  The locals of \<^verbatim>\<open>parse_changeset\<close> are a record, the body of its loop is a
  fallible step on that record, and the loop is a fold over the lines of the
  text. An error message is a value that carries what the message shows. The
  lemmas give the shape of every parsed document, where an error is reported,
  and that arguments, verbs, snapshot identifiers and hashes read back what was
  written.
\<close>

section \<open>Sections, errors, state\<close>

datatype Section =
    TopLevel | Metadata | Requires | Ops | Expect | Approval | BlockSection | VerifySection

datatype ParseError =
    NestedChange nat
  | InvalidBase nat string
  | BlockNeedsKind nat
  | BlockNeedsRef nat
  | OpInMetadata nat
  | UnrecognisedDirective nat string
  | UnknownVerb nat string
  | ExpectedOp nat string
  | AssertHashNeedsSig nat
  | HashLength nat nat
  | InvalidHexChar nat char
  | AssertContextNeedsTarget nat
  | UnrecognisedPrecondition nat string
  | UnclosedBlock
  | UnclosedSection Section
  | MissingAuthor
  | MissingBase

record ParserState =
  ps_author :: "string option"
  ps_description :: "string option"
  ps_base :: "SnapshotId option"
  ps_acl_version :: string
  ps_op_schema_version :: "string option"
  ps_graph_schema_version :: "string option"
  ps_core_ir_schema_version :: "string option"
  ps_diagnostics_schema_version :: "string option"
  ps_verification_schema_version :: "string option"
  ps_ops :: "ChangeSetOp list"
  ps_parsed_ops :: "ParsedOp list"
  ps_preconditions :: "Precondition list"
  ps_expect_claims :: "string list"
  ps_approval_reqs :: "string list"
  ps_composition :: ChangeComposition
  ps_blocks :: "ParsedBlock list"
  ps_verify_lines :: "string list"
  ps_current_block :: "ParsedBlock option"
  ps_in_verify_block :: bool
  ps_section :: Section
  ps_in_change :: bool

definition initial_state :: ParserState where
  "initial_state =
     \<lparr>ps_author = None, ps_description = None, ps_base = None, ps_acl_version = ''1.0'',
      ps_op_schema_version = None, ps_graph_schema_version = None,
      ps_core_ir_schema_version = None, ps_diagnostics_schema_version = None,
      ps_verification_schema_version = None, ps_ops = [], ps_parsed_ops = [],
      ps_preconditions = [], ps_expect_claims = [], ps_approval_reqs = [],
      ps_composition = empty_composition, ps_blocks = [], ps_verify_lines = [],
      ps_current_block = None, ps_in_verify_block = False, ps_section = TopLevel,
      ps_in_change = False\<rparr>"

section \<open>Values\<close>

definition extract_string_value :: "string \<Rightarrow> string" where
  "extract_string_value token =
     (if starts_with token [CHR 0x22] \<and> ends_with_char token CHR 0x22 \<and> 2 \<le> length token
      then butlast (tl token) else token)"

definition extract_kv_value :: "string \<Rightarrow> string \<Rightarrow> string option" where
  "extract_kv_value kv_str key =
     (case List.map_filter
             (\<lambda>pair. Option.bind (strip_prefix key pair) (strip_prefix ''=''))
             (split_whitespace kv_str) of
        [] \<Rightarrow> None
      | v # _ \<Rightarrow> Some (extract_string_value v))"

text \<open>The scan of \<^verbatim>\<open>bare_value_end\<close> with its three nesting depths.\<close>

fun bare_value_from :: "nat \<Rightarrow> nat \<Rightarrow> nat \<Rightarrow> string \<Rightarrow> nat" where
  "bare_value_from p b k [] = 0"
| "bare_value_from p b k (ch # s) =
     (if ch = CHR ''('' then Suc (bare_value_from (Suc p) b k s)
      else if ch = CHR '')'' then Suc (bare_value_from (p - 1) b k s)
      else if ch = CHR ''{'' then Suc (bare_value_from p (Suc b) k s)
      else if ch = CHR ''}'' then Suc (bare_value_from p (b - 1) k s)
      else if ch = CHR ''['' then Suc (bare_value_from p b (Suc k) s)
      else if ch = CHR '']'' then Suc (bare_value_from p b (k - 1) s)
      else if is_whitespace ch \<and> p = 0 \<and> b = 0 \<and> k = 0 then 0
      else Suc (bare_value_from p b k s))"

definition bare_value_end :: "string \<Rightarrow> nat" where
  "bare_value_end v = bare_value_from 0 0 0 v"

text \<open>The position after a quoted value, and the value and rest of a \<^verbatim>\<open>key=\<close>.\<close>

definition value_end :: "string \<Rightarrow> nat" where
  "value_end remaining =
     (case strip_prefix [CHR 0x22] remaining of
        Some stripped \<Rightarrow>
          (case find_char CHR 0x22 stripped of Some p \<Rightarrow> p + 2 | None \<Rightarrow> length remaining)
      | None \<Rightarrow> bare_value_end remaining)"

definition kv_value :: "string \<Rightarrow> string" where
  "kv_value remaining =
     (let raw = trim (take (value_end remaining) remaining)
      in if starts_with remaining [CHR 0x22] then extract_string_value raw else raw)"

definition kv_rest :: "string \<Rightarrow> string" where
  "kv_rest remaining = trim_start (drop (value_end remaining) remaining)"

lemma length_kv_rest: "length (kv_rest s) \<le> length s"
proof -
  have "length (kv_rest s) \<le> length (drop (value_end s) s)" by (simp only: kv_rest_def length_trim_start)
  also have "\<dots> \<le> length s" by simp
  finally show ?thesis .
qed

function kv_loop :: "OpArgs \<Rightarrow> string \<Rightarrow> OpArgs" where
  "kv_loop m remaining =
     (if remaining = [] then m
      else case find_char CHR ''='' remaining of
             None \<Rightarrow> m
           | Some eq_pos \<Rightarrow>
               (let key = trim (take eq_pos remaining);
                    rest = drop (eq_pos + 1) remaining
                in kv_loop (if key = [] then m else bt_insert key (kv_value rest) m) (kv_rest rest)))"
  by pat_completeness auto
termination
proof (relation "measure (\<lambda>(m, s). length s)")
  fix m :: OpArgs and remaining key rest :: string and eq_pos
  assume "remaining \<noteq> []" "rest = drop (eq_pos + 1) remaining"
  then have "length rest < length remaining" by (cases remaining) auto
  then show "((if key = [] then m else bt_insert key (kv_value rest) m, kv_rest rest), m, remaining)
      \<in> measure (\<lambda>(m, s). length s)"
    using length_kv_rest[of rest] by simp
qed simp

declare kv_loop.simps [simp del]

definition parse_kv_args :: "string \<Rightarrow> OpArgs" where
  "parse_kv_args args_str = kv_loop [] (trim args_str)"

section \<open>Numbers and hashes\<close>

definition parse_snapshot_id :: "string \<Rightarrow> nat \<Rightarrow> (ParseError, SnapshotId) result" where
  "parse_snapshot_id raw line_num =
     (let numeric = (case strip_prefix ''snapshot_'' raw of Some n \<Rightarrow> n | None \<Rightarrow> raw)
      in case parse_u64 numeric of
           Some i \<Rightarrow> Ok i
         | None \<Rightarrow> Err (InvalidBase line_num raw))"

definition hex_nibble :: "char \<Rightarrow> nat \<Rightarrow> (ParseError, u8) result" where
  "hex_nibble c line_num =
     (let n = (of_char c :: nat)
      in if 48 \<le> n \<and> n \<le> 57 then Ok (of_nat (n - 48))
         else if 97 \<le> n \<and> n \<le> 102 then Ok (of_nat (n - 97 + 10))
         else if 65 \<le> n \<and> n \<le> 70 then Ok (of_nat (n - 65 + 10))
         else Err (InvalidHexChar line_num c))"

fun hex_chunks :: "nat \<Rightarrow> string \<Rightarrow> (ParseError, u8 list) result" where
  "hex_chunks line_num (a # b # s) =
     rbind (hex_nibble a line_num) (\<lambda>hi. rbind (hex_nibble b line_num) (\<lambda>lo.
       rbind (hex_chunks line_num s) (\<lambda>bytes. Ok (or (push_bit 4 hi) lo # bytes))))"
| "hex_chunks line_num s = Ok []"

definition decode_hash_hex :: "string \<Rightarrow> nat \<Rightarrow> (ParseError, BlockHash) result" where
  "decode_hash_hex hex line_num =
     (if length hex \<noteq> 64 then Err (HashLength line_num (length hex)) else hex_chunks line_num hex)"

section \<open>Verbs\<close>

definition verb_table :: "(string \<times> ChangeSetOp) list" where
  "verb_table =
     [(''create'', Create), (''set'', Set), (''add'', Add), (''remove'', Remove),
      (''delete'', Delete), (''disconnect'', Disconnect), (''rename'', Rename), (''move'', Move),
      (''replace'', Replace), (''connect'', Connect), (''bind'', Bind), (''expose'', Expose),
      (''hide'', Hide), (''grant'', Grant), (''revoke'', Revoke), (''infer'', Infer),
      (''derive'', Derive), (''generate'', Generate), (''assert'', Assert), (''lock'', Lock),
      (''refactor'', Refactor), (''migrate'', Migrate), (''approve'', Approve),
      (''reject'', Reject), (''deprecate'', Deprecate), (''annotate'', Annotate),
      (''verify'', Verify)]"

definition verb_matches :: "string \<Rightarrow> string \<Rightarrow> bool" where
  "verb_matches verb stem = (verb = stem \<or> starts_with verb (stem @ ''_''))"

definition map_verb :: "string \<Rightarrow> ChangeSetOp option" where
  "map_verb verb = map_option snd (find (\<lambda>(stem, k). verb_matches verb stem) verb_table)"

section \<open>Lines\<close>

definition parse_change_attr ::
  "nat \<Rightarrow> ParserState \<Rightarrow> string \<Rightarrow> (ParseError, ParserState) result" where
  "parse_change_attr line_num st token =
     (case strip_prefix ''acl='' token of
        Some v \<Rightarrow> Ok (st\<lparr>ps_acl_version := v\<rparr>)
      | None \<Rightarrow>
          (case strip_prefix ''base='' token of
             Some v \<Rightarrow> rbind (parse_snapshot_id v line_num) (\<lambda>i. Ok (st\<lparr>ps_base := Some i\<rparr>))
           | None \<Rightarrow> Ok st))"

definition parse_change_line_attrs ::
  "string \<Rightarrow> nat \<Rightarrow> ParserState \<Rightarrow> (ParseError, ParserState) result" where
  "parse_change_line_attrs attrs line_num st = rfold (parse_change_attr line_num) st (split_whitespace attrs)"

definition parse_block_header :: "string \<Rightarrow> nat \<Rightarrow> (ParseError, ParsedBlock) result" where
  "parse_block_header rest line_num =
     (let tokens = splitn 3 (\<lambda>c. c = CHR '' '') rest
      in case piece tokens 0 of
           None \<Rightarrow> Err (BlockNeedsKind line_num)
         | Some kind \<Rightarrow>
             (if kind = [] then Err (BlockNeedsKind line_num)
              else case piece tokens 1 of
                     None \<Rightarrow> Err (BlockNeedsRef line_num)
                   | Some block_ref \<Rightarrow>
                       (if \<not> starts_with block_ref ''@'' then Err (BlockNeedsRef line_num)
                        else
                          (let attrs_str = trim (piece_or_empty tokens 2);
                               hash = (if attrs_str = [] then None
                                       else case List.map_filter (strip_prefix ''hash='')
                                                   (split_whitespace attrs_str) of
                                              [] \<Rightarrow> None
                                            | v # _ \<Rightarrow> Some (extract_string_value v))
                           in Ok \<lparr>pb_kind = kind, pb_block_ref = block_ref, pb_content = [],
                                  pb_hash = hash\<rparr>))))"

text \<open>
  The directives of \<^verbatim>\<open>parse_metadata_line\<close>, in the order it tries their keys;
  each acts on the text after its key.
\<close>

definition set_base :: "nat \<Rightarrow> ParserState \<Rightarrow> string \<Rightarrow> (ParseError, ParserState) result" where
  "set_base line_num st v =
     rbind (parse_snapshot_id (trim v) line_num) (\<lambda>i. Ok (st\<lparr>ps_base := Some i\<rparr>))"

definition set_language :: "ParserState \<Rightarrow> string \<Rightarrow> ParserState" where
  "set_language st v =
     (case strip_prefix ''acl/'' (trim v) of
        Some ver \<Rightarrow> st\<lparr>ps_acl_version := ver\<rparr> | None \<Rightarrow> st)"

definition set_acl_version :: "ParserState \<Rightarrow> string \<Rightarrow> ParserState" where
  "set_acl_version st v =
     st\<lparr>ps_acl_version := (case strip_prefix ''acl/'' (trim v) of Some ver \<Rightarrow> ver | None \<Rightarrow> trim v)\<rparr>"

definition push_composition ::
  "((string list \<Rightarrow> string list) \<Rightarrow> ChangeComposition \<Rightarrow> ChangeComposition)
    \<Rightarrow> ParserState \<Rightarrow> string \<Rightarrow> ParserState" where
  "push_composition upd st v =
     st\<lparr>ps_composition := upd (\<lambda>l. l @ [trim v]) (ps_composition st)\<rparr>"

definition metadata_directives ::
  "nat \<Rightarrow> ParserState \<Rightarrow> (string \<times> (string \<Rightarrow> (ParseError, ParserState) result)) list" where
  "metadata_directives line_num st =
     [(''author '', \<lambda>v. Ok (st\<lparr>ps_author := Some (trim v)\<rparr>)),
      (''description '', \<lambda>v. Ok (st\<lparr>ps_description := Some (trim v)\<rparr>)),
      (''intent '', \<lambda>v. Ok (st\<lparr>ps_description := Some (extract_string_value (trim v))\<rparr>)),
      (''base '', set_base line_num st),
      (''language '', \<lambda>v. Ok (set_language st v)),
      (''acl_version '', \<lambda>v. Ok (set_acl_version st v)),
      (''op_schema '', \<lambda>v. Ok (st\<lparr>ps_op_schema_version := Some (trim v)\<rparr>)),
      (''graph_schema '', \<lambda>v. Ok (st\<lparr>ps_graph_schema_version := Some (trim v)\<rparr>)),
      (''core_ir_schema '', \<lambda>v. Ok (st\<lparr>ps_core_ir_schema_version := Some (trim v)\<rparr>)),
      (''diagnostics_schema '', \<lambda>v. Ok (st\<lparr>ps_diagnostics_schema_version := Some (trim v)\<rparr>)),
      (''verification_schema '', \<lambda>v. Ok (st\<lparr>ps_verification_schema_version := Some (trim v)\<rparr>)),
      (''depends_on '', \<lambda>v. Ok (push_composition co_depends_on_update st v)),
      (''supersedes '', \<lambda>v. Ok (push_composition co_supersedes_update st v)),
      (''conflicts_with '', \<lambda>v. Ok (push_composition co_conflicts_with_update st v)),
      (''part_of '', \<lambda>v. Ok (push_composition co_part_of_update st v)),
      (''blocks '', \<lambda>v. Ok (push_composition co_blocks_update st v)),
      (''author_role '', \<lambda>v. Ok st),
      (''reason '', \<lambda>v. Ok st)]"

fun first_directive :: "(string \<times> (string \<Rightarrow> 'r)) list \<Rightarrow> string \<Rightarrow> 'r option" where
  "first_directive [] line = None"
| "first_directive ((key, action) # ds) line =
     (case strip_prefix key line of
        Some v \<Rightarrow> Some (action v)
      | None \<Rightarrow> first_directive ds line)"

definition parse_metadata_line ::
  "string \<Rightarrow> nat \<Rightarrow> ParserState \<Rightarrow> (ParseError, ParserState) result" where
  "parse_metadata_line line line_num st =
     (case first_directive (metadata_directives line_num st) line of
        Some r \<Rightarrow> r
      | None \<Rightarrow>
          (if starts_with line ''op '' then Err (OpInMetadata line_num)
           else Err (UnrecognisedDirective line_num line)))"

definition parse_op_line ::
  "string \<Rightarrow> nat \<Rightarrow> ParserState \<Rightarrow> (ParseError, ParserState) result" where
  "parse_op_line rest line_num st =
     (let tokens = splitn 2 is_whitespace rest;
          verb = trim (piece_or_empty tokens 0);
          args_str = trim (piece_or_empty tokens 1)
      in case map_verb verb of
           None \<Rightarrow> Err (UnknownVerb line_num verb)
         | Some kind \<Rightarrow>
             Ok (st\<lparr>ps_ops := ps_ops st @ [kind],
                    ps_parsed_ops := ps_parsed_ops st @
                      [\<lparr>po_kind = kind, po_verb = verb, po_args = parse_kv_args args_str\<rparr>]\<rparr>))"

definition parse_op_or_directive ::
  "string \<Rightarrow> nat \<Rightarrow> ParserState \<Rightarrow> (ParseError, ParserState) result" where
  "parse_op_or_directive line line_num st =
     (case strip_prefix ''op '' line of
        Some rest \<Rightarrow> parse_op_line rest line_num st
      | None \<Rightarrow>
          (if ps_section st = TopLevel then parse_metadata_line line line_num st
           else Err (ExpectedOp line_num line)))"

definition parse_precondition ::
  "string \<Rightarrow> nat \<Rightarrow> (ParseError, Precondition) result" where
  "parse_precondition line line_num =
    (case strip_prefix ''assert_exists '' line of
       Some rest \<Rightarrow>
         (let id_str = trim rest
          in case parse_u32 id_str of
               Some n \<Rightarrow> Ok (AssertExists n)
             | None \<Rightarrow> Ok (AssertExistsByName id_str))
     | None \<Rightarrow>
     case strip_prefix ''assert_hash '' line of
       Some rest \<Rightarrow>
         (let parts = splitn 2 (\<lambda>c. c = CHR '' '') rest;
              id_part = trim (piece_or_empty parts 0);
              kv_part = trim (piece_or_empty parts 1)
          in case extract_kv_value kv_part ''sig'' of
               None \<Rightarrow> Err (AssertHashNeedsSig line_num)
             | Some hex \<Rightarrow>
                 rbind (decode_hash_hex hex line_num) (\<lambda>expected_hash.
                   case parse_u32 id_part of
                     Some n \<Rightarrow> Ok (AssertHash n expected_hash)
                   | None \<Rightarrow> Ok (AssertHashByName id_part expected_hash)))
     | None \<Rightarrow>
     case strip_prefix ''assert_context '' line of
       Some rest \<Rightarrow>
         (let parts = splitn 2 (\<lambda>c. c = CHR '' '') rest;
              target_name = trim (piece_or_empty parts 0);
              kv_part = trim (piece_or_empty parts 1);
              context_hash = (case extract_kv_value kv_part ''hash'' of
                                Some h \<Rightarrow> Some h | None \<Rightarrow> extract_kv_value kv_part ''context_hash'')
          in if target_name = [] then Err (AssertContextNeedsTarget line_num)
             else Ok (AssertContext target_name context_hash))
     | None \<Rightarrow> Err (UnrecognisedPrecondition line_num line))"

definition parse_precondition_line ::
  "string \<Rightarrow> nat \<Rightarrow> ParserState \<Rightarrow> (ParseError, ParserState) result" where
  "parse_precondition_line line line_num st =
     rbind (parse_precondition line line_num) (\<lambda>p. Ok (st\<lparr>ps_preconditions := ps_preconditions st @ [p]\<rparr>))"

section \<open>The document\<close>

definition blank_or_comment :: "string \<Rightarrow> ParserState \<Rightarrow> ParserState" where
  "blank_or_comment line st =
     (case ps_current_block st of
        Some blk \<Rightarrow>
          (if line \<noteq> [] then st
           else st\<lparr>ps_current_block := Some (blk\<lparr>pb_content := pb_content blk @ [CHR 0x0A]\<rparr>)\<rparr>)
      | None \<Rightarrow> st)"

definition open_change :: "string \<Rightarrow> nat \<Rightarrow> ParserState \<Rightarrow> (ParseError, ParserState) result" where
  "open_change line line_num st =
     (if ps_in_change st then Err (NestedChange line_num)
      else
        (let after_id = trim (piece_or_empty (splitn 3 (\<lambda>c. c = CHR '' '') line) 2);
             st' = st\<lparr>ps_in_change := True\<rparr>
         in if after_id = [] then Ok st' else parse_change_line_attrs after_id line_num st'))"

definition close_innermost :: "ParserState \<Rightarrow> ParserState" where
  "close_innermost st =
     (case ps_current_block st of
        Some blk \<Rightarrow> st\<lparr>ps_current_block := None, ps_blocks := ps_blocks st @ [blk]\<rparr>
      | None \<Rightarrow>
          (if ps_in_verify_block st then st\<lparr>ps_in_verify_block := False, ps_section := TopLevel\<rparr>
           else if ps_section st = TopLevel then st\<lparr>ps_in_change := False\<rparr>
           else st\<lparr>ps_section := TopLevel\<rparr>))"

definition append_block_line :: "string \<Rightarrow> ParsedBlock \<Rightarrow> ParsedBlock" where
  "append_block_line line blk =
     blk\<lparr>pb_content := (if pb_content blk = [] then line else pb_content blk @ [CHR 0x0A] @ line)\<rparr>"

definition section_opener :: "string \<Rightarrow> Section option" where
  "section_opener line =
     (if line = ''metadata'' then Some Metadata
      else if line = ''requires'' then Some Requires
      else if line = ''ops'' then Some Ops
      else if line = ''expect'' then Some Expect
      else if line = ''approval'' then Some Approval
      else None)"

definition dispatch :: "string \<Rightarrow> nat \<Rightarrow> ParserState \<Rightarrow> (ParseError, ParserState) result" where
  "dispatch line line_num st =
     (case ps_section st of
        Metadata \<Rightarrow> parse_metadata_line line line_num st
      | Requires \<Rightarrow> parse_precondition_line line line_num st
      | TopLevel \<Rightarrow> parse_op_or_directive line line_num st
      | Ops \<Rightarrow> parse_op_or_directive line line_num st
      | Expect \<Rightarrow> Ok (st\<lparr>ps_expect_claims := ps_expect_claims st @ [line]\<rparr>)
      | Approval \<Rightarrow> Ok (st\<lparr>ps_approval_reqs := ps_approval_reqs st @ [line]\<rparr>)
      | BlockSection \<Rightarrow> Ok st
      | VerifySection \<Rightarrow> Ok st)"

text \<open>The \<^verbatim>\<open>verify\<close> forms, or None where the line is none of them.\<close>

definition verify_form :: "string \<Rightarrow> ParserState \<Rightarrow> ParserState option" where
  "verify_form line st =
     (if ps_section st = TopLevel \<or> ps_section st = VerifySection then
        (if line = ''verify'' then Some (st\<lparr>ps_in_verify_block := True, ps_section := VerifySection\<rparr>)
         else case strip_prefix ''verify '' line of
                Some rest \<Rightarrow> Some (st\<lparr>ps_verify_lines := ps_verify_lines st @ [trim rest]\<rparr>)
              | None \<Rightarrow>
                  (if ps_section st = VerifySection
                   then Some (st\<lparr>ps_verify_lines := ps_verify_lines st @ [line]\<rparr>) else None))
      else None)"

text \<open>A line outside every block.\<close>

definition body_line :: "string \<Rightarrow> nat \<Rightarrow> ParserState \<Rightarrow> (ParseError, ParserState) result" where
  "body_line line line_num st =
     (if starts_with line ''block '' \<and> ps_section st = TopLevel then
        rbind (parse_block_header (drop 6 line) line_num) (\<lambda>blk. Ok (st\<lparr>ps_current_block := Some blk\<rparr>))
      else case verify_form line st of
             Some st' \<Rightarrow> Ok st'
           | None \<Rightarrow>
               (case section_opener line of
                  Some sec \<Rightarrow> Ok (st\<lparr>ps_section := sec\<rparr>)
                | None \<Rightarrow> dispatch line line_num st))"

definition parse_line :: "ParserState \<Rightarrow> nat \<times> string \<Rightarrow> (ParseError, ParserState) result" where
  "parse_line st p =
     (case p of (line_num, raw) \<Rightarrow>
       (let line = trim raw
        in if line = [] \<or> starts_with line ''#'' then Ok (blank_or_comment line st)
           else if starts_with line ''change '' \<or> line = ''change'' then open_change line line_num st
           else if line = ''end'' then Ok (close_innermost st)
           else case ps_current_block st of
                  Some blk \<Rightarrow> Ok (st\<lparr>ps_current_block := Some (append_block_line line blk)\<rparr>)
                | None \<Rightarrow> body_line line line_num st))"

definition finish :: "ParserState \<Rightarrow> (ParseError, ParsedChangeSet) result" where
  "finish st =
     (if ps_current_block st \<noteq> None then Err UnclosedBlock
      else if ps_section st \<noteq> TopLevel then Err (UnclosedSection (ps_section st))
      else case ps_author st of
             None \<Rightarrow> Err MissingAuthor
           | Some author \<Rightarrow>
               (case ps_base st of
                  None \<Rightarrow> Err MissingBase
                | Some base_snapshot_id \<Rightarrow>
                    Ok \<lparr>pc_changeset =
                          \<lparr>ch_meta = \<lparr>me_author = author,
                             me_description = (case ps_description st of None \<Rightarrow> [] | Some d \<Rightarrow> d),
                             me_timestamp = 0\<rparr>,
                           ch_base_snapshot_id = base_snapshot_id, ch_ops = ps_ops st\<rparr>,
                        pc_preconditions = ps_preconditions st, pc_parsed_ops = ps_parsed_ops st,
                        pc_acl_version = ps_acl_version st,
                        pc_op_schema_version = ps_op_schema_version st,
                        pc_graph_schema_version = ps_graph_schema_version st,
                        pc_core_ir_schema_version = ps_core_ir_schema_version st,
                        pc_diagnostics_schema_version = ps_diagnostics_schema_version st,
                        pc_verification_schema_version = ps_verification_schema_version st,
                        pc_expect = (if ps_expect_claims st = [] then None else Some (ps_expect_claims st)),
                        pc_approval = (if ps_approval_reqs st = [] then None else Some (ps_approval_reqs st)),
                        pc_composition = ps_composition st, pc_blocks = ps_blocks st,
                        pc_verify = ps_verify_lines st\<rparr>))"

definition parse_changeset :: "string \<Rightarrow> (ParseError, ParsedChangeSet) result" where
  "parse_changeset src =
     rbind (rfold parse_line initial_state (enumerate 1 (str_lines src))) finish"

section \<open>Facts: verbs, hashes, numbers\<close>

text \<open>A stem has no underscore, so the stem of a verb is its text before the first one.\<close>

abbreviation verb_stem :: "string \<Rightarrow> string" where
  "verb_stem verb \<equiv> takeWhile (\<lambda>c. c \<noteq> CHR ''_'') verb"

lemma takeWhile_stem:
  "CHR ''_'' \<notin> set stem \<Longrightarrow> verb_stem stem = stem"
  "CHR ''_'' \<notin> set stem \<Longrightarrow> verb_stem (stem @ CHR ''_'' # r) = stem"
  by (induction stem) auto

lemma verb_split: "verb = verb_stem verb \<or> (\<exists>r. verb = verb_stem verb @ CHR ''_'' # r)"
proof (induction verb)
  case (Cons c verb)
  show ?case
  proof (cases "c = CHR ''_''")
    case False
    then have "verb_stem (c # verb) = c # verb_stem verb" by simp
    with Cons show ?thesis by (metis append_Cons)
  qed simp
qed simp

lemma verb_matches_stem:
  assumes "CHR ''_'' \<notin> set stem"
  shows "verb_matches verb stem \<longleftrightarrow> verb_stem verb = stem"
proof
  assume "verb_matches verb stem"
  then consider "verb = stem" | r where "verb = stem @ CHR ''_'' # r"
    by (auto simp: verb_matches_def starts_with_iff)
  then show "verb_stem verb = stem" by cases (simp_all only: takeWhile_stem[OF assms])
next
  assume eq: "verb_stem verb = stem"
  from verb_split[of verb] consider "verb = stem" | r where "verb = stem @ CHR ''_'' # r"
    unfolding eq by blast
  then show "verb_matches verb stem" by cases (auto simp: verb_matches_def starts_with_iff)
qed

lemma find_stem_map_of:
  "list_all (\<lambda>(stem, k). CHR ''_'' \<notin> set stem) tab \<Longrightarrow>
    map_option snd (find (\<lambda>(stem, k). verb_matches verb stem) tab) = map_of tab (verb_stem verb)"
  by (induction tab) (auto simp: verb_matches_stem)

lemma map_verb_stem: "map_verb verb = map_of verb_table (verb_stem verb)"
proof -
  have "list_all (\<lambda>(stem, k). CHR ''_'' \<notin> set stem) verb_table" by (simp add: verb_table_def)
  then show ?thesis by (simp add: map_verb_def find_stem_map_of)
qed

lemma hex_chunks_length: "hex_chunks n s = Inr bs \<Longrightarrow> length bs = length s div 2"
  by (induction n s arbitrary: bs rule: hex_chunks.induct) (auto simp: rbind_Ok_iff)

lemma hex_nibble_digit: "unat d < 16 \<Longrightarrow> hex_nibble (hex_digit d) n = Inr d"
  by (auto simp: hex_nibble_def hex_digit_def Let_def)

lemma nibble_div_mod: "or (push_bit 4 (b div 16)) (b mod 16) = (b :: u8)"
proof (rule bit_word_eqI)
  fix n assume "n < LENGTH(8)"
  have "b div 16 = drop_bit 4 b" "b mod 16 = take_bit 4 b"
    by (simp_all add: drop_bit_eq_div take_bit_eq_mod)
  then show "bit (or (push_bit 4 (b div 16)) (b mod 16)) n = bit b n"
    using \<open>n < LENGTH(8)\<close>
    by (auto simp: bit_or_iff bit_push_bit_iff bit_drop_bit_eq bit_take_bit_iff)
qed

lemma hex_chunks_encode: "hex_chunks n (hex_encode bs) = Inr bs"
proof (induction bs)
  case (Cons b bs)
  have "unat b < 256" using unsigned_less[of b] by simp
  then have "unat (b div 16) < 16" "unat (b mod 16) < 16"
    by (simp_all add: unat_div_distrib unat_mod_distrib)
  with Cons show ?case by (simp add: hex_nibble_digit nibble_div_mod)
qed simp

section \<open>Facts: the state between lines\<close>

text \<open>What every line keeps of the parser's state.\<close>

fun precondition_ok :: "Precondition \<Rightarrow> bool" where
  "precondition_ok (AssertHash n h) = (length h = 32)"
| "precondition_ok (AssertHashByName t h) = (length h = 32)"
| "precondition_ok (AssertContext t h) = (t \<noteq> [])"
| "precondition_ok _ = True"

definition parsed_op_ok :: "ParsedOp \<Rightarrow> bool" where
  "parsed_op_ok op = (map_verb (po_verb op) = Some (po_kind op) \<and> bt_inv (po_args op))"

definition block_ok :: "ParsedBlock \<Rightarrow> bool" where
  "block_ok blk = (pb_kind blk \<noteq> [] \<and> starts_with (pb_block_ref blk) ''@'')"

definition state_ok :: "ParserState \<Rightarrow> bool" where
  "state_ok st =
     (ps_ops st = map po_kind (ps_parsed_ops st) \<and> list_all parsed_op_ok (ps_parsed_ops st) \<and>
      list_all precondition_ok (ps_preconditions st) \<and> list_all block_ok (ps_blocks st) \<and>
      (case ps_current_block st of None \<Rightarrow> True | Some blk \<Rightarrow> block_ok blk) \<and>
      (ps_in_verify_block st \<longleftrightarrow> ps_section st = VerifySection) \<and> ps_section st \<noteq> BlockSection)"

lemma bt_inv_kv_loop: "bt_inv m \<Longrightarrow> bt_inv (kv_loop m s)"
proof (induction m s rule: kv_loop.induct)
  case (1 m s)
  show ?case
  proof (cases "s = [] \<or> find_char CHR ''='' s = None")
    case False
    then obtain p where "s \<noteq> []" "find_char CHR ''='' s = Some p" by auto
    with 1 show ?thesis by (subst kv_loop.simps) (simp add: Let_def bt_inv_insert)
  qed (use 1 in \<open>auto simp: kv_loop.simps[of m s]\<close>)
qed

lemma first_directive_Some:
  "first_directive ds line = Some r \<Longrightarrow> \<exists>key action v. (key, action) \<in> set ds \<and> line = key @ v \<and> r = action v"
proof (induction ds)
  case (Cons d ds)
  obtain key action where d: "d = (key, action)" by fastforce
  show ?case
  proof (cases "strip_prefix key line")
    case None
    with Cons d show ?thesis by auto
  next
    case (Some v)
    then have "line = key @ v" by (simp only: strip_prefix_Some_iff)
    moreover from Some Cons.prems have "r = action v" by (simp add: d)
    ultimately show ?thesis by (auto simp: d)
  qed
qed simp

lemma state_ok_initial: "state_ok initial_state"
  by (simp add: state_ok_def initial_state_def)

lemma state_ok_change_attr: "parse_change_attr n st tok = Inr st' \<Longrightarrow> state_ok st \<Longrightarrow> state_ok st'"
  by (auto simp: parse_change_attr_def state_ok_def rbind_Ok_iff split: option.splits)

lemma state_ok_change_attrs: "parse_change_line_attrs a n st = Inr st' \<Longrightarrow> state_ok st \<Longrightarrow> state_ok st'"
  unfolding parse_change_line_attrs_def by (erule rfold_invariant) (auto dest: state_ok_change_attr)

lemma metadata_directive_ok:
  "state_ok st \<Longrightarrow> list_all (\<lambda>(key, action). \<forall>v st'. action v = Inr st' \<longrightarrow> state_ok st')
     (metadata_directives n st)"
  by (auto simp: metadata_directives_def state_ok_def set_base_def set_language_def set_acl_version_def
      push_composition_def rbind_Ok_iff split: option.splits)

lemma state_ok_metadata:
  assumes "parse_metadata_line line n st = Inr st'" "state_ok st"
  shows "state_ok st'"
proof -
  from assms(1) obtain r where "first_directive (metadata_directives n st) line = Some r" "r = Inr st'"
    by (auto simp: parse_metadata_line_def split: option.splits if_splits)
  with first_directive_Some metadata_directive_ok[OF assms(2)] show ?thesis
    by (fastforce simp: list_all_iff)
qed

lemma state_ok_op: "parse_op_or_directive line n st = Inr st' \<Longrightarrow> state_ok st \<Longrightarrow> state_ok st'"
  by (auto simp: parse_op_or_directive_def parse_op_line_def Let_def parse_kv_args_def bt_inv_kv_loop
      dest: state_ok_metadata split: option.splits if_splits)
    (auto simp: state_ok_def parsed_op_ok_def bt_inv_kv_loop)

lemma precondition_ok_parse: "parse_precondition line n = Inr p \<Longrightarrow> precondition_ok p"
  by (auto simp: parse_precondition_def Let_def rbind_Ok_iff decode_hash_hex_def hex_chunks_length
      split: option.splits if_splits)

lemma state_ok_block_header: "parse_block_header r n = Inr blk \<Longrightarrow> block_ok blk"
  by (auto simp: parse_block_header_def block_ok_def Let_def split: option.splits if_splits)

lemma state_ok_dispatch: "dispatch line n st = Inr st' \<Longrightarrow> state_ok st \<Longrightarrow> state_ok st'"
  by (auto simp: dispatch_def parse_precondition_line_def rbind_Ok_iff
      dest: state_ok_metadata state_ok_op split: Section.splits)
    (auto simp: state_ok_def dest: precondition_ok_parse)

lemma state_ok_blank: "state_ok st \<Longrightarrow> state_ok (blank_or_comment line st)"
  by (cases "ps_current_block st") (auto simp: blank_or_comment_def state_ok_def block_ok_def)

lemma state_ok_close: "state_ok st \<Longrightarrow> state_ok (close_innermost st)"
  by (cases "ps_current_block st") (auto simp: close_innermost_def state_ok_def)

lemma state_ok_verify: "verify_form line st = Some st' \<Longrightarrow> state_ok st \<Longrightarrow> state_ok st'"
  by (cases "ps_section st"; cases "strip_prefix ''verify '' line")
    (auto simp: verify_form_def state_ok_def split: if_splits)

lemma state_ok_block_line:
  "state_ok st \<Longrightarrow> ps_current_block st = Some blk \<Longrightarrow>
    state_ok (st\<lparr>ps_current_block := Some (append_block_line line blk)\<rparr>)"
  by (simp add: state_ok_def block_ok_def append_block_line_def)

lemma verify_form_None: "verify_form line st = None \<Longrightarrow> ps_section st \<noteq> VerifySection"
  by (auto simp: verify_form_def split: option.splits if_splits)

lemma state_ok_opener:
  "section_opener line = Some sec \<Longrightarrow> state_ok st \<Longrightarrow> ps_section st \<noteq> VerifySection \<Longrightarrow>
    state_ok (st\<lparr>ps_section := sec\<rparr>)"
  by (auto simp: section_opener_def state_ok_def split: if_splits)

lemma state_ok_open: "open_change line n st = Inr st' \<Longrightarrow> state_ok st \<Longrightarrow> state_ok st'"
  using state_ok_change_attrs[of _ n "st\<lparr>ps_in_change := True\<rparr>" st']
  by (auto simp: open_change_def Let_def state_ok_def split: if_splits)

lemma state_ok_body_line:
  assumes "body_line line n st = Inr st'" "state_ok st"
  shows "state_ok st'"
proof (cases "starts_with line ''block '' \<and> ps_section st = TopLevel")
  case True
  from assms(1) obtain blk where "parse_block_header (drop 6 line) n = Inr blk"
    "st' = st\<lparr>ps_current_block := Some blk\<rparr>"
    unfolding body_line_def if_P[OF True] by (auto simp: rbind_Ok_iff)
  with assms(2) state_ok_block_header show ?thesis by (auto simp: state_ok_def)
next
  case False
  with assms(1) show ?thesis
    unfolding body_line_def if_not_P[OF False]
    by (auto intro: state_ok_verify[OF _ assms(2)] state_ok_dispatch[OF _ assms(2)]
        state_ok_opener[OF _ assms(2) verify_form_None] split: option.splits)
qed

text \<open>The branches of a step, as what it returns.\<close>

lemma parse_line_cases:
  "parse_line st (n, raw) \<in>
     {Inr (blank_or_comment (trim raw) st), open_change (trim raw) n st, Inr (close_innermost st),
      (case ps_current_block st of
         Some blk \<Rightarrow> Inr (st\<lparr>ps_current_block := Some (append_block_line (trim raw) blk)\<rparr>)
       | None \<Rightarrow> body_line (trim raw) n st)}"
  unfolding parse_line_def Let_def prod.case
  by (intro if_mem) (simp_all only: insert_iff simp_thms)

lemma state_ok_line:
  assumes "parse_line st (n, raw) = Inr st'" "state_ok st"
  shows "state_ok st'"
  using parse_line_cases[of st n raw] assms(2)
  unfolding assms(1) insert_iff empty_iff simp_thms
  by (elim disjE) (auto dest: state_ok_open[OF sym] state_ok_body_line[OF sym]
      intro: state_ok_blank state_ok_close state_ok_block_line split: option.splits)

lemma state_ok_lines:
  assumes "rfold parse_line initial_state (enumerate 1 ls) = Inr st"
  shows "state_ok st"
  using assms state_ok_initial
  by (rule rfold_invariant) (auto intro: state_ok_line)

lemma parse_changeset_state:
  assumes "parse_changeset src = Inr pcs"
  obtains st where "state_ok st" "finish st = Inr pcs"
  using assms state_ok_lines by (auto simp: parse_changeset_def rbind_Ok_iff)

section \<open>Facts: where an error is reported\<close>

fun error_line :: "ParseError \<Rightarrow> nat option" where
  "error_line (NestedChange n) = Some n"
| "error_line (InvalidBase n _) = Some n"
| "error_line (BlockNeedsKind n) = Some n"
| "error_line (BlockNeedsRef n) = Some n"
| "error_line (OpInMetadata n) = Some n"
| "error_line (UnrecognisedDirective n _) = Some n"
| "error_line (UnknownVerb n _) = Some n"
| "error_line (ExpectedOp n _) = Some n"
| "error_line (AssertHashNeedsSig n) = Some n"
| "error_line (HashLength n _) = Some n"
| "error_line (InvalidHexChar n _) = Some n"
| "error_line (AssertContextNeedsTarget n) = Some n"
| "error_line (UnrecognisedPrecondition n _) = Some n"
| "error_line _ = None"

lemma error_line_snapshot_id: "parse_snapshot_id v n = Inl e \<Longrightarrow> error_line e = Some n"
  by (auto simp: parse_snapshot_id_def Let_def split: option.splits)

lemma error_line_change_attrs: "parse_change_line_attrs a n st = Inl e \<Longrightarrow> error_line e = Some n"
proof -
  have "error_line e = Some n" if "rfold (parse_change_attr n) st ts = Inl e" for ts
    using that
  proof (induction ts arbitrary: st)
    case (Cons tok ts)
    then show ?case
      by (auto simp: rbind_Err_iff parse_change_attr_def error_line_snapshot_id split: option.splits)
  qed simp
  then show "parse_change_line_attrs a n st = Inl e \<Longrightarrow> error_line e = Some n"
    by (simp add: parse_change_line_attrs_def)
qed

lemma error_line_metadata:
  assumes "parse_metadata_line line n st = Inl e"
  shows "error_line e = Some n"
proof -
  have dirs: "list_all (\<lambda>(key, action). \<forall>v e. action v = Inl e \<longrightarrow> error_line e = Some n)
      (metadata_directives n st)"
    by (auto simp: metadata_directives_def set_base_def rbind_Err_iff error_line_snapshot_id)
  show ?thesis
  proof (cases "first_directive (metadata_directives n st) line")
    case None
    with assms show ?thesis by (auto simp: parse_metadata_line_def split: if_splits)
  next
    case (Some r)
    with assms have "r = Inl e" by (simp add: parse_metadata_line_def)
    with first_directive_Some[OF Some] dirs show ?thesis by (fastforce simp: list_all_iff)
  qed
qed

lemma error_line_hex: "hex_chunks n s = Inl e \<Longrightarrow> error_line e = Some n"
  by (induction n s rule: hex_chunks.induct)
    (auto simp: rbind_Err_iff hex_nibble_def Let_def split: if_splits)

lemma error_line_precondition: "parse_precondition line n = Inl e \<Longrightarrow> error_line e = Some n"
  by (auto simp: parse_precondition_def Let_def rbind_Err_iff decode_hash_hex_def error_line_hex
      split: option.splits if_splits)

lemma error_line_op: "parse_op_or_directive line n st = Inl e \<Longrightarrow> error_line e = Some n"
  by (auto simp: parse_op_or_directive_def parse_op_line_def Let_def error_line_metadata
      split: option.splits if_splits)

lemma error_line_open: "open_change line n st = Inl e \<Longrightarrow> error_line e = Some n"
  by (auto simp: open_change_def Let_def error_line_change_attrs split: if_splits)

lemma error_line_block_header: "parse_block_header r n = Inl e \<Longrightarrow> error_line e = Some n"
  by (auto simp: parse_block_header_def Let_def split: option.splits if_splits)

lemma error_line_dispatch: "dispatch line n st = Inl e \<Longrightarrow> error_line e = Some n"
  by (auto simp: dispatch_def parse_precondition_line_def rbind_Err_iff error_line_metadata error_line_op
      error_line_precondition split: Section.splits)

lemma error_line_body: "body_line line n st = Inl e \<Longrightarrow> error_line e = Some n"
  by (auto simp: body_line_def rbind_Err_iff error_line_block_header error_line_dispatch
      split: if_splits option.splits)

lemma error_line_step:
  assumes "parse_line st (n, raw) = Inl e"
  shows "error_line e = Some n"
  using parse_line_cases[of st n raw] unfolding assms insert_iff empty_iff simp_thms
  by (elim disjE) (auto dest: error_line_open[OF sym] error_line_body[OF sym] split: option.splits)

lemma finish_error_line: "finish st = Inl e \<Longrightarrow> error_line e = None"
  by (auto simp: finish_def split: if_splits option.splits)

section \<open>Facts: printing and reading back\<close>

text \<open>
  A printed form of change sets: what the grammar of the parser's header gives
  for an author, a base and a list of operations, with all values quoted.
\<close>

definition quoted :: "string \<Rightarrow> string" where
  "quoted v = CHR 0x22 # v @ [CHR 0x22]"

fun render_args :: "(string \<times> string) list \<Rightarrow> string" where
  "render_args [] = []"
| "render_args ((k, v) # kvs) =
     k @ CHR ''='' # quoted v @ (if kvs = [] then [] else CHR '' '' # render_args kvs)"

definition render_op :: "ParsedOp \<Rightarrow> string" where
  "render_op op = ''op '' @ po_verb op @ (if po_args op = [] then [] else CHR '' '' # render_args (po_args op))"

definition unlines :: "string list \<Rightarrow> string" where
  "unlines ls = concat (map (\<lambda>l. l @ [CHR 0x0A]) ls)"

definition render_document :: "string \<Rightarrow> SnapshotId \<Rightarrow> ParsedOp list \<Rightarrow> string" where
  "render_document author base ops =
     unlines (''change c'' # (''author '' @ author) # (''base '' @ show_nat (unat base)) # map render_op ops @ [''end''])"

text \<open>The texts this form can carry.\<close>

definition plain_key :: "string \<Rightarrow> bool" where
  "plain_key k = (k \<noteq> [] \<and> list_all (\<lambda>c. \<not> is_whitespace c \<and> c \<noteq> CHR ''='') k)"

definition plain_value :: "string \<Rightarrow> bool" where
  "plain_value v = list_all (\<lambda>c. c \<noteq> CHR 0x22 \<and> c \<noteq> CHR 0x0A) v"

definition plain_op :: "ParsedOp \<Rightarrow> bool" where
  "plain_op op =
     (parsed_op_ok op \<and> list_all (\<lambda>c. \<not> is_whitespace c) (po_verb op) \<and>
      list_all (\<lambda>(k, v). plain_key k \<and> plain_value v) (po_args op))"

definition plain_author :: "string \<Rightarrow> bool" where
  "plain_author a = (a \<noteq> [] \<and> \<not> is_whitespace (hd a) \<and> \<not> is_whitespace (last a) \<and> CHR 0x0A \<notin> set a)"

lemma whitespace_chars [simp]:
  "is_whitespace CHR '' ''" "is_whitespace CHR 0x0A" "is_whitespace CHR 0x0D" "\<not> is_whitespace CHR 0x22"
  "\<not> is_whitespace CHR ''=''"
  by (simp_all add: is_whitespace_def)

lemma trim_quoted: "trim (quoted v) = quoted v"
  by (rule trim_id) (simp add: quoted_def)

lemma extract_quoted: "extract_string_value (quoted v) = v"
  by (simp add: extract_string_value_def quoted_def starts_with_iff ends_with_char_def)

lemma value_end_quoted: "plain_value v \<Longrightarrow> value_end (quoted v @ t) = length (quoted v)"
proof -
  assume "plain_value v"
  then have "CHR 0x22 \<notin> set v" by (auto simp: plain_value_def list_all_iff)
  then have "find_char CHR 0x22 (v @ CHR 0x22 # t) = Some (length v)" by simp
  then show ?thesis by (simp add: value_end_def quoted_def)
qed

lemma kv_value_quoted: "plain_value v \<Longrightarrow> kv_value (quoted v @ t) = v"
  unfolding kv_value_def Let_def value_end_quoted
  by (simp add: trim_quoted extract_quoted) (simp add: quoted_def starts_with_iff)

lemma plain_key_facts:
  assumes "plain_key k"
  shows "k \<noteq> []" "\<not> is_whitespace (hd k)" "trim k = k" "CHR ''='' \<notin> set k"
proof -
  from assms show "k \<noteq> []" "\<not> is_whitespace (hd k)" "CHR ''='' \<notin> set k"
    by (auto simp: plain_key_def list_all_iff)
  from assms have "\<not> is_whitespace (last k)" by (auto simp: plain_key_def list_all_iff)
  with \<open>\<not> is_whitespace (hd k)\<close> show "trim k = k" by (intro trim_id) blast
qed

lemma kv_rest_quoted:
  assumes "plain_value v" "list_all (\<lambda>(k, v). plain_key k \<and> plain_value v) kvs"
  shows "kv_rest (quoted v @ (if kvs = [] then [] else CHR '' '' # render_args kvs)) = render_args kvs"
proof (cases kvs)
  case Nil
  with assms show ?thesis by (simp add: kv_rest_def value_end_quoted trim_start_def value_end_quoted[of v "[]", simplified])
next
  case (Cons kv kvs')
  obtain k w where kv: "kv = (k, w)" by fastforce
  with Cons assms have k: "plain_key k" by simp
  have "render_args kvs \<noteq> []" "\<not> is_whitespace (hd (render_args kvs))"
    using plain_key_facts[OF k] by (simp_all add: Cons kv)
  then have "trim_start (CHR '' '' # render_args kvs) = render_args kvs"
    using trim_start_id[of "render_args kvs"] by (simp add: trim_start_def)
  with Cons assms(1) show ?thesis by (simp add: kv_rest_def value_end_quoted)
qed

lemma kv_loop_render:
  "list_all (\<lambda>(k, v). plain_key k \<and> plain_value v) kvs \<Longrightarrow>
    kv_loop m (render_args kvs) = fold (\<lambda>(k, v) m. bt_insert k v m) kvs m"
proof (induction kvs arbitrary: m)
  case Nil
  then show ?case by (simp add: kv_loop.simps)
next
  case (Cons kv kvs)
  obtain k v where kv: "kv = (k, v)" by fastforce
  let ?t = "quoted v @ (if kvs = [] then [] else CHR '' '' # render_args kvs)"
  from Cons.prems have k: "plain_key k" and v: "plain_value v"
    and kvs: "list_all (\<lambda>(k, v). plain_key k \<and> plain_value v) kvs" by (auto simp: kv)
  have split: "render_args (kv # kvs) = k @ CHR ''='' # ?t" by (simp add: kv)
  have "kv_loop m (k @ CHR ''='' # ?t) = kv_loop (bt_insert k (kv_value ?t) m) (kv_rest ?t)"
    using plain_key_facts[OF k] by (subst kv_loop.simps) (simp add: Let_def)
  also have "\<dots> = kv_loop (bt_insert k v m) (render_args kvs)"
    by (simp only: kv_value_quoted[OF v] kv_rest_quoted[OF v kvs])
  also have "\<dots> = fold (\<lambda>(k, v) m. bt_insert k v m) (kv # kvs) m"
    by (simp add: Cons.IH[OF kvs] kv)
  finally show ?case by (simp only: split)
qed

lemma last_render_args: "kvs \<noteq> [] \<Longrightarrow> render_args kvs \<noteq> [] \<and> last (render_args kvs) = CHR 0x22"
  by (induction kvs rule: render_args.induct) (auto simp: quoted_def)

lemma parse_kv_args_render:
  assumes "bt_inv args" "list_all (\<lambda>(k, v). plain_key k \<and> plain_value v) args"
  shows "parse_kv_args (render_args args) = args" "trim (render_args args) = render_args args"
proof -
  show t: "trim (render_args args) = render_args args"
  proof (cases args)
    case (Cons kv kvs)
    obtain k v where kv: "kv = (k, v)" by fastforce
    with Cons assms(2) have "plain_key k" by simp
    then have "\<not> is_whitespace (hd (render_args args))"
      using plain_key_facts[of k] by (simp add: Cons kv)
    moreover have "last (render_args args) = CHR 0x22" using last_render_args[of args] by (simp add: Cons)
    ultimately show ?thesis by (intro trim_id) simp
  qed (simp add: trim_id)
  show "parse_kv_args (render_args args) = args"
    unfolding parse_kv_args_def t kv_loop_render[OF assms(2)]
    using bt_collect_self[OF assms(1)] by (simp add: bt_collect_def)
qed

text \<open>One line at the top level.\<close>

definition at_top :: "ParserState \<Rightarrow> bool" where
  "at_top st = (ps_current_block st = None \<and> ps_section st = TopLevel)"

lemma splitn_word: "list_all (\<lambda>c. \<not> is_whitespace c) w \<Longrightarrow> splitn 2 is_whitespace w = [w]"
  by (simp add: numeral_2_eq_2 list_all_iff dropWhile_eq_Nil_conv[THEN iffD2])

lemma splitn_word_rest:
  assumes "list_all (\<lambda>c. \<not> is_whitespace c) w"
  shows "splitn 2 is_whitespace (w @ CHR '' '' # r) = [w, r]"
proof -
  have "dropWhile (\<lambda>c. \<not> is_whitespace c) (w @ CHR '' '' # r) = CHR '' '' # r"
    "takeWhile (\<lambda>c. \<not> is_whitespace c) (w @ CHR '' '' # r) = w"
    using assms by (induction w) auto
  then show ?thesis by (simp add: numeral_2_eq_2)
qed

lemma trim_word: "list_all (\<lambda>c. \<not> is_whitespace c) w \<Longrightarrow> trim w = w"
  by (rule trim_id) (auto simp: list_all_iff)

lemma verb_nonempty: "map_verb v = Some k \<Longrightarrow> v \<noteq> []"
  by (auto simp: map_verb_stem verb_table_def)

lemma parse_op_line_render:
  assumes "plain_op op"
  shows "parse_op_line (drop 3 (render_op op)) n st =
    Inr (st\<lparr>ps_ops := ps_ops st @ [po_kind op], ps_parsed_ops := ps_parsed_ops st @ [op]\<rparr>)"
proof -
  from assms have verb: "map_verb (po_verb op) = Some (po_kind op)" "list_all (\<lambda>c. \<not> is_whitespace c) (po_verb op)"
    and args: "bt_inv (po_args op)" "list_all (\<lambda>(k, v). plain_key k \<and> plain_value v) (po_args op)"
    by (auto simp: plain_op_def parsed_op_ok_def)
  let ?r = "po_verb op @ (if po_args op = [] then [] else CHR '' '' # render_args (po_args op))"
  have r: "drop 3 (render_op op) = ?r" by (simp add: render_op_def)
  have pieces: "trim (piece_or_empty (splitn 2 is_whitespace ?r) 0) = po_verb op"
    "trim (piece_or_empty (splitn 2 is_whitespace ?r) 1) = render_args (po_args op)"
    using verb(2) parse_kv_args_render(2)[OF args]
    by (auto simp: splitn_word splitn_word_rest trim_word piece_or_empty_def piece_def trim_id)
  show ?thesis
    unfolding r parse_op_line_def Let_def pieces verb(1) option.case parse_kv_args_render(1)[OF args]
    by simp
qed

lemmas [parser_defs] =
  parse_line_def body_line_def verify_form_def section_opener_def dispatch_def
  parse_op_or_directive_def starts_with_def

lemma top_op_line:
  assumes "at_top st" "trim raw = ''op '' @ r"
  shows "parse_line st (n, raw) = parse_op_line r n st"
  using assms
  by (simp add: at_top_def parser_defs)

lemma top_author_line:
  assumes "at_top st" "trim raw = ''author '' @ a" "trim a = a"
  shows "parse_line st (n, raw) = Inr (st\<lparr>ps_author := Some a\<rparr>)"
  using assms
  by (simp add: at_top_def parser_defs parse_metadata_line_def metadata_directives_def)

lemma top_base_line:
  assumes "at_top st" "trim raw = ''base '' @ v" "trim v = v"
  shows "parse_line st (n, raw) = rbind (parse_snapshot_id v n) (\<lambda>i. Inr (st\<lparr>ps_base := Some i\<rparr>))"
  using assms
  by (simp add: at_top_def parser_defs parse_metadata_line_def metadata_directives_def set_base_def)

lemma top_end_line: "at_top st \<Longrightarrow> \<not> ps_in_verify_block st \<Longrightarrow> trim raw = ''end'' \<Longrightarrow>
    parse_line st (n, raw) = Inr (st\<lparr>ps_in_change := False\<rparr>)"
  by (simp add: at_top_def parse_line_def close_innermost_def starts_with_def)

lemma change_line: "parse_line initial_state (n, ''change c'') = Inr (initial_state\<lparr>ps_in_change := True\<rparr>)"
proof -
  have "trim ''change c'' = ''change c''" by (rule trim_id) (simp add: is_whitespace_def)
  then show ?thesis
    by (simp add: parse_line_def open_change_def starts_with_def initial_state_def numeral_3_eq_3
        piece_or_empty_def piece_def trim_id)
qed

lemma split_on_line: "CHR 0x0A \<notin> set l \<Longrightarrow>
    split_on (\<lambda>c. c = CHR 0x0A) (l @ CHR 0x0A # r) = l # split_on (\<lambda>c. c = CHR 0x0A) r"
  by (induction l) auto

lemma str_lines_unlines:
  assumes "list_all (\<lambda>l. CHR 0x0A \<notin> set l \<and> \<not> ends_with_char l CHR 0x0D) ls"
  shows "str_lines (unlines ls) = ls"
proof -
  have "split_on (\<lambda>c. c = CHR 0x0A) (unlines ls) = ls @ [[]]"
    using assms by (induction ls) (auto simp: unlines_def split_on_line)
  moreover have "map strip_cr ls = ls" using assms by (induction ls) (auto simp: strip_cr_def)
  ultimately show ?thesis by (simp add: str_lines_def)
qed

text \<open>A printed line has no line end in it and no white space around it.\<close>

definition plain_line :: "string \<Rightarrow> bool" where
  "plain_line l = (l \<noteq> [] \<and> CHR 0x0A \<notin> set l \<and> \<not> is_whitespace (hd l) \<and> \<not> is_whitespace (last l))"

lemma plain_line_facts:
  assumes "plain_line l"
  shows "trim l = l" "CHR 0x0A \<notin> set l \<and> \<not> ends_with_char l CHR 0x0D"
proof -
  show "trim l = l" using assms by (intro trim_id) (simp add: plain_line_def)
  have "last l \<noteq> CHR 0x0D" using assms whitespace_chars(3) by (metis plain_line_def)
  with assms show "CHR 0x0A \<notin> set l \<and> \<not> ends_with_char l CHR 0x0D"
    by (simp add: plain_line_def ends_with_char_def)
qed

lemma plain_no_newline:
  "plain_key k \<Longrightarrow> CHR 0x0A \<notin> set k" "plain_value v \<Longrightarrow> CHR 0x0A \<notin> set v"
proof -
  assume "plain_key k"
  then have "\<forall>c \<in> set k. \<not> is_whitespace c" by (simp add: plain_key_def list_all_iff)
  then show "CHR 0x0A \<notin> set k" using whitespace_chars(2) by blast
next
  assume "plain_value v"
  then have "\<forall>c \<in> set v. c \<noteq> CHR 0x0A" by (simp add: plain_value_def list_all_iff)
  then show "CHR 0x0A \<notin> set v" by blast
qed

lemma render_args_no_newline:
  "list_all (\<lambda>(k, v). plain_key k \<and> plain_value v) kvs \<Longrightarrow> CHR 0x0A \<notin> set (render_args kvs)"
proof (induction kvs rule: render_args.induct)
  case (2 k v kvs)
  then have "plain_key k" "plain_value v" by simp_all
  with plain_no_newline(1)[of k] plain_no_newline(2)[of v] 2 show ?case by (simp add: quoted_def)
qed simp

lemma plain_line_op:
  assumes "plain_op op"
  shows "plain_line (render_op op)"
proof -
  from assms have verb: "po_verb op \<noteq> []" "\<forall>c \<in> set (po_verb op). \<not> is_whitespace c"
    and args: "list_all (\<lambda>(k, v). plain_key k \<and> plain_value v) (po_args op)"
    by (auto simp: plain_op_def parsed_op_ok_def list_all_iff dest: verb_nonempty)
  have "CHR 0x0A \<notin> set (po_verb op)" using verb(2) whitespace_chars(2) by blast
  moreover have "\<not> is_whitespace (last (render_op op))"
    using verb last_render_args[of "po_args op"] by (auto simp: render_op_def)
  ultimately show ?thesis
    using render_args_no_newline[OF args] by (simp add: plain_line_def render_op_def is_whitespace_def)
qed

lemma show_nat_digits: "list_all (\<lambda>c. 48 \<le> (of_char c :: nat) \<and> (of_char c :: nat) \<le> 57) (show_nat n)"
  by (induction n rule: show_nat.induct) (auto simp: show_nat.simps)

lemma show_nat_plain: "list_all (\<lambda>c. \<not> is_whitespace c) (show_nat n)" "show_nat n \<noteq> []"
proof -
  have "\<not> is_whitespace c" if "48 \<le> (of_char c :: nat)" for c using that by (auto simp: is_whitespace_def)
  with show_nat_digits[of n] show "list_all (\<lambda>c. \<not> is_whitespace c) (show_nat n)"
    by (auto simp: list_all_iff)
  show "show_nat n \<noteq> []" using show_nat_hd[of n] by auto
qed

lemma strip_snapshot_digits: "strip_prefix ''snapshot_'' (show_nat n) = None"
proof -
  obtain d :: nat and s where d: "d < 10" "show_nat n = char_of (48 + d) # s" using show_nat_hd by blast
  have "CHR ''s'' \<noteq> char_of (48 + d :: nat)"
    using d(1) by (auto dest!: arg_cong[where f = "of_char :: char \<Rightarrow> nat"])
  then show ?thesis by (simp add: d)
qed

lemma parse_snapshot_id_show: "parse_snapshot_id (show_nat (unat i)) n = Inr i"
  by (simp add: parse_snapshot_id_def strip_snapshot_digits parse_u64_show)

lemma rfold_ops:
  assumes "list_all plain_op ops" "at_top st"
  shows "rfold parse_line st (enumerate n (map render_op ops)) =
    Inr (st\<lparr>ps_ops := ps_ops st @ map po_kind ops, ps_parsed_ops := ps_parsed_ops st @ ops\<rparr>)"
  using assms
proof (induction ops arbitrary: st n)
  case (Cons op ops)
  let ?st = "st\<lparr>ps_ops := ps_ops st @ [po_kind op], ps_parsed_ops := ps_parsed_ops st @ [op]\<rparr>"
  from Cons.prems have op: "plain_op op" by simp
  have "trim (render_op op) = ''op '' @ drop 3 (render_op op)"
    using plain_line_facts(1)[OF plain_line_op[OF op]] by (simp add: render_op_def)
  from top_op_line[OF Cons.prems(2) this] have "parse_line st (n, render_op op) = Inr ?st"
    by (simp only: parse_op_line_render[OF op])
  moreover have "at_top ?st" using Cons.prems(2) by (simp add: at_top_def)
  ultimately show ?case using Cons.IH[of ?st "Suc n"] Cons.prems(1) by simp
qed simp

lemma parse_rendered_lines:
  assumes "plain_author author" "list_all plain_op ops"
  shows "rfold parse_line initial_state (enumerate 1
      (''change c'' # (''author '' @ author) # (''base '' @ show_nat (unat base)) # map render_op ops @ [''end''])) =
    Inr (initial_state\<lparr>ps_author := Some author, ps_base := Some base, ps_ops := map po_kind ops,
           ps_parsed_ops := ops\<rparr>)"
proof -
  let ?v = "show_nat (unat base)"
  let ?s1 = "initial_state\<lparr>ps_in_change := True\<rparr>"
  let ?s2 = "?s1\<lparr>ps_author := Some author\<rparr>"
  let ?s3 = "?s2\<lparr>ps_base := Some base\<rparr>"
  let ?s4 = "?s3\<lparr>ps_ops := map po_kind ops, ps_parsed_ops := ops\<rparr>"
  have top: "at_top ?s1" "at_top ?s2" "at_top ?s3" "at_top ?s4" "\<not> ps_in_verify_block ?s4"
    by (simp_all add: at_top_def initial_state_def)
  have a: "trim author = author" "trim (''author '' @ author) = ''author '' @ author"
    using assms(1) by (auto simp: plain_author_def is_whitespace_def intro!: trim_id)
  have v: "trim ?v = ?v" using show_nat_plain by (rule_tac trim_word)
  have "\<not> is_whitespace (last ?v)" using show_nat_plain[of "unat base"] by (simp add: list_all_iff)
  then have bv: "trim (''base '' @ ?v) = ''base '' @ ?v"
    using show_nat_plain(2)[of "unat base"] by (intro trim_id) (simp add: is_whitespace_def)
  have "trim ''end'' = ''end''" by (rule trim_id) (simp add: is_whitespace_def)
  note e = top_end_line[OF top(4,5) this]
  have "rfold parse_line ?s3 (enumerate (Suc (Suc (Suc 1))) (map render_op ops)) = Inr ?s4"
    using rfold_ops[OF assms(2) top(3), of "Suc (Suc (Suc 1))"] by (simp add: initial_state_def)
  then have ops: "rfold parse_line ?s3 (enumerate (Suc (Suc (Suc 1))) (map render_op ops @ [''end''])) =
      Inr (?s4\<lparr>ps_in_change := False\<rparr>)"
    by (simp only: enumerate_append_eq rfold_append rbind_simps enumerate_simps rfold.simps e)
  have "rfold parse_line initial_state (enumerate 1
      (''change c'' # (''author '' @ author) # (''base '' @ ?v) # map render_op ops @ [''end''])) =
    rfold parse_line ?s3 (enumerate (Suc (Suc (Suc 1))) (map render_op ops @ [''end'']))"
    by (simp only: enumerate_simps rfold.simps rbind_simps change_line
        top_author_line[OF top(1) a(2) a(1)] top_base_line[OF top(2) bv v] parse_snapshot_id_show)
  with ops show ?thesis by (simp add: initial_state_def)
qed

lemma plain_line_digits: "plain_line (show_nat n)"
proof -
  have "\<forall>c \<in> set (show_nat n). \<not> is_whitespace c" using show_nat_plain(1) by (simp add: list_all_iff)
  then show ?thesis
    using show_nat_plain(2)[of n] whitespace_chars(2) by (auto simp: plain_line_def)
qed

lemma parse_rendered_document:
  assumes "plain_author author" "list_all plain_op ops"
  shows "parse_changeset (render_document author base ops) =
    finish (initial_state\<lparr>ps_author := Some author, ps_base := Some base, ps_ops := map po_kind ops,
              ps_parsed_ops := ops\<rparr>)"
proof -
  let ?ls = "''change c'' # (''author '' @ author) # (''base '' @ show_nat (unat base)) # map render_op ops @ [''end'']"
  have "plain_line ''change c''" "plain_line ''end''" by code_simp+
  moreover have "plain_line (''author '' @ author)"
    using assms(1) by (simp add: plain_line_def plain_author_def is_whitespace_def)
  moreover have "plain_line (''base '' @ show_nat (unat base))"
    using plain_line_digits[of "unat base"] by (simp add: plain_line_def is_whitespace_def)
  moreover have "list_all plain_line (map render_op ops)"
    using assms(2) by (auto simp: list_all_iff intro: plain_line_op)
  ultimately have "list_all plain_line ?ls" by (simp only: list.pred_inject list_all_append simp_thms)
  then have "list_all (\<lambda>l. CHR 0x0A \<notin> set l \<and> \<not> ends_with_char l CHR 0x0D) ?ls"
    by (rule list.pred_mono_strong) (rule plain_line_facts)
  then have "str_lines (render_document author base ops) = ?ls"
    unfolding render_document_def by (rule str_lines_unlines)
  with parse_rendered_lines[OF assms, of base] show ?thesis by (simp add: parse_changeset_def)
qed

section \<open>Properties\<close>

text \<open>
  C30. Every document the parser accepts has the shape its consumers rely on: the
  bare operation kinds are those of the parsed operations, every verb maps to the
  kind recorded with it, arguments are in key order, hashes have 32 bytes, context
  assertions name a target, and every block has a kind and an at-sign reference.
\<close>

theorem parse_changeset_sound:
  "case parse_changeset src of
     Inl _ \<Rightarrow> True
   | Inr pcs \<Rightarrow>
       ch_ops (pc_changeset pcs) = map po_kind (pc_parsed_ops pcs) \<and>
       list_all (\<lambda>op. map_verb (po_verb op) = Some (po_kind op) \<and> bt_inv (po_args op)) (pc_parsed_ops pcs) \<and>
       list_all precondition_ok (pc_preconditions pcs) \<and> list_all block_ok (pc_blocks pcs) \<and>
       me_timestamp (ch_meta (pc_changeset pcs)) = 0"
proof (cases "parse_changeset src")
  case (Inr pcs)
  then obtain st where "state_ok st" "finish st = Inr pcs" by (rule parse_changeset_state)
  then show ?thesis
    unfolding Inr by (auto simp: finish_def state_ok_def parsed_op_ok_def[abs_def] split: if_splits option.splits)
qed simp

text \<open>
  Errors are reported where they occur: an error with a line number is the
  failure of that line of the text after all lines before it were read
  successfully, and an error without one is found only after the whole text was
  read.
\<close>

lemma parse_error_located:
  assumes "parse_changeset src = Err e"
  shows "case error_line e of
      Some n \<Rightarrow> 1 \<le> n \<and> n \<le> length (str_lines src) \<and>
        (\<exists>st. rfold parse_line initial_state (enumerate 1 (take (n - 1) (str_lines src))) = Ok st \<and>
              parse_line st (n, str_lines src ! (n - 1)) = Err e)
    | None \<Rightarrow>
        (\<exists>st. rfold parse_line initial_state (enumerate 1 (str_lines src)) = Ok st \<and> finish st = Err e)"
proof (cases "rfold parse_line initial_state (enumerate 1 (str_lines src))")
  case (Inr st)
  with assms have "finish st = Inl e" by (simp add: parse_changeset_def)
  with Inr finish_error_line[OF this] show ?thesis by simp
next
  case (Inl e')
  with assms have e': "e' = e" by (simp add: parse_changeset_def)
  from rfold_Err_split[OF Inl[unfolded e']] obtain ys n l zs st
    where x: "enumerate 1 (str_lines src) = ys @ (n, l) # zs" "rfold parse_line initial_state ys = Inr st"
      "parse_line st (n, l) = Inl e" by (metis surj_pair)
  from enumerate_split[OF x(1)] x(2,3) error_line_step[OF x(3)] show ?thesis by auto
qed

lemma parse_error_located_witness:
  "parse_changeset ''author a'' = Err MissingBase \<and>
   (\<exists>st. rfold parse_line initial_state (enumerate 1 (str_lines ''author a'')) = Ok st \<and> finish st = Err MissingBase)"
proof -
  have "parse_changeset ''author a'' = Err MissingBase" by code_simp
  from this parse_error_located[OF this] show ?thesis by simp
qed

text \<open>
  C5. Change sets survive being written down: for an author, a base snapshot and
  a list of operations with known verbs, keys without white space and values
  without quotes and line ends, the printed document parses to exactly that
  author, that base and those operations, with every other part at its default.
\<close>

theorem document_roundtrip:
  assumes "plain_author author" "list_all plain_op ops"
  shows "parse_changeset (render_document author base ops) =
    Ok (default_parsed\<lparr>pc_changeset := \<lparr>ch_meta = \<lparr>me_author = author, me_description = [], me_timestamp = 0\<rparr>,
          ch_base_snapshot_id = base, ch_ops = map po_kind ops\<rparr>, pc_parsed_ops := ops\<rparr>)"
  unfolding parse_rendered_document[OF assms]
  by (simp add: finish_def initial_state_def default_parsed_def)

theorem document_roundtrip_witness:
  "pc_parsed_ops (projr (parse_changeset (render_document ''ada'' 7
      [\<lparr>po_kind = Set, po_verb = ''set_return'', po_args = [(''target'', ''f''), (''type'', ''I 64'')]\<rparr>]))) =
   [\<lparr>po_kind = Set, po_verb = ''set_return'', po_args = [(''target'', ''f''), (''type'', ''I 64'')]\<rparr>]"
proof -
  have "plain_author ''ada''" by code_simp
  moreover have "list_all plain_op
      [\<lparr>po_kind = Set, po_verb = ''set_return'', po_args = [(''target'', ''f''), (''type'', ''I 64'')]\<rparr>]"
    by code_simp
  ultimately show ?thesis by (subst document_roundtrip) (simp_all add: default_parsed_def)
qed

text \<open>
  A base snapshot is read at its width: a decimal numeral, plain or with the
  prefix \<^verbatim>\<open>snapshot_\<close>, is accepted exactly when it is below 2 to the 64, gives
  that number, and is otherwise reported with the line and the text; nothing wraps.
\<close>

lemma snapshot_id_bounds:
  "parse_snapshot_id (show_nat n) line_num =
     (if n < 2 ^ 64 then Ok (of_nat n) else Err (InvalidBase line_num (show_nat n))) \<and>
   parse_snapshot_id (''snapshot_'' @ show_nat n) line_num =
     (if n < 2 ^ 64 then Ok (of_nat n) else Err (InvalidBase line_num (''snapshot_'' @ show_nat n)))"
proof -
  have "parse_u64 (show_nat n) = (if n < 2 ^ 64 then Some (of_nat n) else None)"
    by (simp add: parse_u64_def parse_uint_show_iff)
  then show ?thesis
    unfolding parse_snapshot_id_def Let_def strip_snapshot_digits strip_prefix_append by simp
qed

end
