(* ===== verification/Snapshot_Store.thy ===== *)
theory Snapshot_Store
  imports Object_Store "HOL-Library.Product_Lexorder" "HOL-Library.Option_ord"
begin

text \<open>
  The snapshot store on top of an object store and its diagnostics
  (\<^verbatim>\<open>crates/ail-storage/src/graph.rs\<close>). CBOR is a parameter with the law that
  decoding reads back what encoding wrote. The index is a \<^verbatim>\<open>HashMap\<close>, whose
  iteration order is unspecified: it is a parameter that permutes the entries.
  The lemmas relate the store to a finite map from identifiers to envelopes and
  say which parent chains the diagnostics report as cyclic.
\<close>

section \<open>Encoding, index, iteration order\<close>

record 'a RecordCodec =
  rc_encode :: "'a \<Rightarrow> (StorageError, u8 list) result"
  rc_decode :: "u8 list \<Rightarrow> (StorageError, 'a) result"

definition codec_lawful :: "'a RecordCodec \<Rightarrow> bool" where
  "codec_lawful k = (\<forall>r b. rc_encode k r = Ok b \<longrightarrow> rc_decode k b = Ok r)"

type_synonym cas_index = "(ObjectId, ObjectId) btree_map"
type_synonym iter_order = "(ObjectId \<times> ObjectId) list \<Rightarrow> (ObjectId \<times> ObjectId) list"

definition hash_iteration :: "('a list \<Rightarrow> 'a list) \<Rightarrow> bool" where
  "hash_iteration ord = (\<forall>m. mset (ord m) = mset m)"

record ObjectBackedGraphStore =
  gs_store :: MemoryObjectStore
  gs_snapshot_index :: cas_index

record ChangeSetLogEntry =
  le_id :: ObjectId
  le_base_snapshot_id :: ObjectId
  le_payload_hash :: ObjectId
  le_created_at :: u64

section \<open>The store\<close>

definition graph_store_new :: "MemoryObjectStore \<Rightarrow> ObjectBackedGraphStore" where
  "graph_store_new s = \<lparr>gs_store = s, gs_snapshot_index = []\<rparr>"

definition save_snapshot ::
  "Codec \<Rightarrow> SnapshotEnvelope RecordCodec \<Rightarrow> ObjectBackedGraphStore \<Rightarrow> SnapshotEnvelope
    \<Rightarrow> (StorageError, ObjectId) result \<times> ObjectBackedGraphStore" where
  "save_snapshot c k st val =
     (case rc_encode k val of
        Inl e \<Rightarrow> (Err e, st)
      | Inr bytes \<Rightarrow>
          (case memory_put c (gs_store st) bytes of
             (Inl e, s) \<Rightarrow> (Err e, st\<lparr>gs_store := s\<rparr>)
           | (Inr cas_id, s) \<Rightarrow>
               (Ok (se_id val),
                st\<lparr>gs_store := s, gs_snapshot_index := bt_insert (se_id val) cas_id (gs_snapshot_index st)\<rparr>)))"

definition load_snapshot ::
  "SnapshotEnvelope RecordCodec \<Rightarrow> ObjectBackedGraphStore \<Rightarrow> ObjectId
    \<Rightarrow> (StorageError, SnapshotEnvelope option) result" where
  "load_snapshot k st i =
     (case bt_get (gs_snapshot_index st) i of
        None \<Rightarrow> Ok None
      | Some cas_id \<Rightarrow>
          rbind (memory_get (gs_store st) cas_id) (\<lambda>obj.
            case obj of
              None \<Rightarrow> Ok None
            | Some raw \<Rightarrow> rbind (rc_decode k raw) (\<lambda>snap. Ok (Some snap))))"

definition append_changeset_log ::
  "Codec \<Rightarrow> ChangeSetLogEntry RecordCodec \<Rightarrow> ObjectBackedGraphStore \<Rightarrow> ChangeSetLogEntry
    \<Rightarrow> (StorageError, ObjectId) result \<times> ObjectBackedGraphStore" where
  "append_changeset_log c k st entry =
     (case rc_encode k entry of
        Inl e \<Rightarrow> (Err e, st)
      | Inr bytes \<Rightarrow> (let (r, s) = memory_put c (gs_store st) bytes in (r, st\<lparr>gs_store := s\<rparr>)))"

definition load_indexed ::
  "SnapshotEnvelope RecordCodec \<Rightarrow> MemoryObjectStore \<Rightarrow> SnapshotEnvelope list \<Rightarrow> ObjectId \<times> ObjectId
    \<Rightarrow> (StorageError, SnapshotEnvelope list) result" where
  "load_indexed k s result p =
     rbind (memory_get s (snd p)) (\<lambda>obj.
       case obj of
         None \<Rightarrow> Err NotFound
       | Some raw \<Rightarrow> rbind (rc_decode k raw) (\<lambda>snap. Ok (result @ [snap])))"

definition list_snapshots ::
  "SnapshotEnvelope RecordCodec \<Rightarrow> iter_order \<Rightarrow> ObjectBackedGraphStore
    \<Rightarrow> (StorageError, SnapshotEnvelope list) result" where
  "list_snapshots k ord st = rfold (load_indexed k (gs_store st)) [] (ord (gs_snapshot_index st))"

definition remove_snapshot_from_index ::
  "ObjectBackedGraphStore \<Rightarrow> ObjectId \<Rightarrow> ObjectBackedGraphStore" where
  "remove_snapshot_from_index st i = st\<lparr>gs_snapshot_index := bt_remove i (gs_snapshot_index st)\<rparr>"

section \<open>Diagnostics\<close>

datatype SnapshotDiagnosticsIssue =
    MissingRootObject ObjectId ObjectId
  | MissingSnapshotObject ObjectId ObjectId
  | StaleManifestEntry ObjectId
  | StaleIndexEntry ObjectId
  | DuplicateSnapshotId ObjectId
  | ParentChainGap ObjectId ObjectId
  | ParentChainCycle ObjectId

fun kind_ord :: "SnapshotDiagnosticsIssue \<Rightarrow> nat" where
  "kind_ord (MissingRootObject _ _) = 0"
| "kind_ord (MissingSnapshotObject _ _) = 1"
| "kind_ord (StaleManifestEntry _) = 2"
| "kind_ord (StaleIndexEntry _) = 3"
| "kind_ord (DuplicateSnapshotId _) = 4"
| "kind_ord (ParentChainGap _ _) = 5"
| "kind_ord (ParentChainCycle _) = 6"

fun primary_id :: "SnapshotDiagnosticsIssue \<Rightarrow> ObjectId" where
  "primary_id (MissingRootObject i _) = i"
| "primary_id (MissingSnapshotObject i _) = i"
| "primary_id (StaleManifestEntry i) = i"
| "primary_id (StaleIndexEntry i) = i"
| "primary_id (DuplicateSnapshotId i) = i"
| "primary_id (ParentChainGap i _) = i"
| "primary_id (ParentChainCycle i) = i"

fun secondary_id :: "SnapshotDiagnosticsIssue \<Rightarrow> ObjectId option" where
  "secondary_id (MissingRootObject _ j) = Some j"
| "secondary_id (MissingSnapshotObject _ j) = Some j"
| "secondary_id (ParentChainGap _ j) = Some j"
| "secondary_id _ = None"

record SnapshotManifestEntry =
  sm_snapshot_id :: ObjectId
  sm_graph_root_hash :: ObjectId

record SnapshotIndexEntry =
  si_snapshot_id :: ObjectId
  si_graph_root_hash :: ObjectId

record SnapshotDiagnosticsInput =
  sd_manifest_entries :: "SnapshotManifestEntry list"
  sd_index_entries :: "SnapshotIndexEntry list"

record SnapshotIssueDescriptor =
  sx_code :: string
  sx_category :: string
  sx_severity :: string
  sx_subject :: string
  sx_fingerprint :: string
  sx_reason :: string
  sx_message :: string

record SnapshotDiagnosticsReport =
  sr_issues :: "SnapshotDiagnosticsIssue list"
  sr_diagnostics :: "SnapshotIssueDescriptor list"
  sr_snapshots_checked :: u64
  sr_passed :: bool

text \<open>The fingerprint ends in an ellipsis, three bytes of UTF-8.\<close>

definition snapshot_redacted_fingerprint :: "ObjectId \<Rightarrow> string" where
  "snapshot_redacted_fingerprint i =
     ''blake3:'' @ take 12 (object_id_to_hex i) @ [CHR 0xE2, CHR 0x80, CHR 0xA6]"

fun issue_texts :: "SnapshotDiagnosticsIssue \<Rightarrow> string \<times> string \<times> string \<times> string \<times> string" where
  "issue_texts (MissingRootObject _ _) =
     (''storage.snapshot.missing_root_object'', ''storage.snapshot.reachability'', ''snapshot_root'',
      ''missing_root_object'', ''snapshot graph root points to a missing object'')"
| "issue_texts (MissingSnapshotObject _ _) =
     (''storage.snapshot.missing_snapshot_object'', ''storage.snapshot.index'', ''snapshot_object'',
      ''missing_snapshot_object'', ''snapshot index points to a missing encoded snapshot object'')"
| "issue_texts (StaleManifestEntry _) =
     (''storage.snapshot.stale_manifest_entry'', ''storage.snapshot.manifest'', ''snapshot_manifest'',
      ''stale_manifest_entry'', ''snapshot manifest entry does not match stored snapshot metadata'')"
| "issue_texts (StaleIndexEntry _) =
     (''storage.snapshot.stale_index_entry'', ''storage.snapshot.index'', ''snapshot_index'',
      ''stale_index_entry'', ''snapshot index entry does not match stored snapshot metadata'')"
| "issue_texts (DuplicateSnapshotId _) =
     (''storage.snapshot.duplicate_id'', ''storage.snapshot.manifest'', ''snapshot'',
      ''duplicate_snapshot_id'', ''snapshot listing contains a duplicate snapshot id'')"
| "issue_texts (ParentChainGap _ _) =
     (''storage.snapshot.parent_gap'', ''storage.snapshot.chain'', ''snapshot_parent'',
      ''parent_chain_gap'', ''snapshot parent link points to a missing snapshot'')"
| "issue_texts (ParentChainCycle _) =
     (''storage.snapshot.parent_cycle'', ''storage.snapshot.chain'', ''snapshot_parent'',
      ''parent_chain_cycle'', ''snapshot parent chain contains a cycle'')"

definition descriptor :: "SnapshotDiagnosticsIssue \<Rightarrow> SnapshotIssueDescriptor" where
  "descriptor issue =
     (case issue_texts issue of (code, category, subject, reason, message) \<Rightarrow>
        \<lparr>sx_code = code, sx_category = category, sx_severity = ''error'', sx_subject = subject,
         sx_fingerprint = snapshot_redacted_fingerprint (primary_id issue), sx_reason = reason,
         sx_message = message\<rparr>)"

text \<open>Stable sort by kind, then primary, then secondary identifier.\<close>

definition sort_snapshot_issues :: "SnapshotDiagnosticsIssue list \<Rightarrow> SnapshotDiagnosticsIssue list" where
  "sort_snapshot_issues issues = sort_key (\<lambda>i. (kind_ord i, primary_id i, secondary_id i)) issues"

text \<open>The first loop: the first envelope of every identifier, and the repeated identifiers.\<close>

definition index_step ::
  "SnapshotEnvelope \<Rightarrow> (ObjectId, SnapshotEnvelope) btree_map \<times> ObjectId set \<times> ObjectId set
    \<Rightarrow> (ObjectId, SnapshotEnvelope) btree_map \<times> ObjectId set \<times> ObjectId set" where
  "index_step snap acc =
     (case acc of (by_id, seen, duplicated) \<Rightarrow>
        (bt_or_insert (se_id snap) snap by_id, insert (se_id snap) seen,
         if se_id snap \<in> seen then insert (se_id snap) duplicated else duplicated))"

definition index_envelopes ::
  "SnapshotEnvelope list
    \<Rightarrow> (ObjectId, SnapshotEnvelope) btree_map \<times> ObjectId set \<times> ObjectId set" where
  "index_envelopes snapshots = fold index_step snapshots ([], {}, {})"

definition root_and_parent_issues ::
  "MemoryObjectStore \<Rightarrow> (ObjectId, SnapshotEnvelope) btree_map \<Rightarrow> SnapshotDiagnosticsIssue list
    \<Rightarrow> SnapshotEnvelope \<Rightarrow> (StorageError, SnapshotDiagnosticsIssue list) result" where
  "root_and_parent_issues store by_id issues snap =
     rbind (memory_exists store (se_graph_root_hash snap)) (\<lambda>present.
       Ok (issues
         @ (if \<not> present then [MissingRootObject (se_id snap) (se_graph_root_hash snap)] else [])
         @ (case se_parent_id snap of
              Some p \<Rightarrow> if \<not> bt_contains_key by_id p then [ParentChainGap (se_id snap) p] else []
            | None \<Rightarrow> [])))"

definition entry_matches ::
  "(ObjectId, SnapshotEnvelope) btree_map \<Rightarrow> ObjectId \<Rightarrow> ObjectId \<Rightarrow> bool" where
  "entry_matches by_id i root =
     (case bt_get by_id i of Some snap \<Rightarrow> se_graph_root_hash snap = root | None \<Rightarrow> False)"

definition parent_of :: "(ObjectId, SnapshotEnvelope) btree_map \<Rightarrow> ObjectId \<Rightarrow> ObjectId option" where
  "parent_of by_id i = (case bt_get by_id i of Some cur \<Rightarrow> se_parent_id cur | None \<Rightarrow> None)"

lemma parent_of_key: "parent_of by_id i = Some p \<Longrightarrow> i \<in> fst ` set by_id"
  by (force simp: parent_of_def bt_get_def split: option.splits dest: map_of_SomeD)

text \<open>The inner loop over the parent chain: does it meet a visited identifier again?\<close>

function chain_revisits ::
  "(ObjectId, SnapshotEnvelope) btree_map \<Rightarrow> ObjectId set \<Rightarrow> ObjectId option \<Rightarrow> bool" where
  "chain_revisits by_id visited None = False"
| "chain_revisits by_id visited (Some i) =
     (if i \<in> visited then True else chain_revisits by_id (insert i visited) (parent_of by_id i))"
  by pat_completeness auto

termination
proof (relation "measures [\<lambda>(m, v, _). card (fst ` set m - v), \<lambda>(_, _, cur). if cur = None then 0 else 1]",
    goal_cases)
  case (2 m v i)
  show ?case
  proof (cases "parent_of m i")
    case None
    have "card (fst ` set m - insert i v) \<le> card (fst ` set m - v)" by (rule card_mono) auto
    with None show ?thesis by auto
  next
    case (Some p)
    have "card (fst ` set m - insert i v) < card (fst ` set m - v)"
      by (rule psubset_card_mono) (use 2 parent_of_key[OF Some] in auto)
    then show ?thesis by simp
  qed
qed simp

definition diagnose_snapshot_envelopes ::
  "SnapshotEnvelope list \<Rightarrow> MemoryObjectStore \<Rightarrow> SnapshotDiagnosticsInput
    \<Rightarrow> SnapshotDiagnosticsIssue list \<Rightarrow> (StorageError, SnapshotDiagnosticsReport) result" where
  "diagnose_snapshot_envelopes snapshots store input issues0 =
     (case index_envelopes snapshots of (by_id, _, duplicated) \<Rightarrow>
        rbind (rfold (root_and_parent_issues store by_id)
                (issues0 @ map DuplicateSnapshotId (sorted_list_of_set duplicated)) snapshots) (\<lambda>issues.
          let stale_manifest = map (StaleManifestEntry \<circ> sm_snapshot_id)
                (filter (\<lambda>e. \<not> entry_matches by_id (sm_snapshot_id e) (sm_graph_root_hash e))
                  (sd_manifest_entries input));
              stale_index = map (StaleIndexEntry \<circ> si_snapshot_id)
                (filter (\<lambda>e. \<not> entry_matches by_id (si_snapshot_id e) (si_graph_root_hash e))
                  (sd_index_entries input));
              cycles = map (ParentChainCycle \<circ> se_id)
                (filter (\<lambda>snap. chain_revisits by_id {} (Some (se_id snap))) snapshots);
              sorted_issues = sort_snapshot_issues (issues @ stale_manifest @ stale_index @ cycles)
          in Ok \<lparr>sr_issues = sorted_issues, sr_diagnostics = map descriptor sorted_issues,
                 sr_snapshots_checked = of_nat (length snapshots), sr_passed = (sorted_issues = [])\<rparr>))"

definition diagnose_snapshot_store ::
  "SnapshotEnvelope RecordCodec \<Rightarrow> iter_order \<Rightarrow> ObjectBackedGraphStore \<Rightarrow> MemoryObjectStore
    \<Rightarrow> SnapshotDiagnosticsInput \<Rightarrow> (StorageError, SnapshotDiagnosticsReport) result" where
  "diagnose_snapshot_store k ord st objs input =
     rbind (list_snapshots k ord st) (\<lambda>snapshots.
       diagnose_snapshot_envelopes snapshots objs input [])"

definition diagnose_entry ::
  "SnapshotEnvelope RecordCodec \<Rightarrow> MemoryObjectStore
    \<Rightarrow> SnapshotEnvelope list \<times> SnapshotDiagnosticsIssue list \<Rightarrow> ObjectId \<times> ObjectId
    \<Rightarrow> (StorageError, SnapshotEnvelope list \<times> SnapshotDiagnosticsIssue list) result" where
  "diagnose_entry k store acc p =
     (case acc of (snapshots, issues) \<Rightarrow> case p of (indexed, object_id) \<Rightarrow>
        rbind (memory_get store object_id) (\<lambda>obj.
          case obj of
            None \<Rightarrow> Ok (snapshots, issues @ [MissingSnapshotObject indexed object_id])
          | Some raw \<Rightarrow>
              rbind (rc_decode k raw) (\<lambda>snap.
                Ok (snapshots @ [snap],
                    if se_id snap \<noteq> indexed then issues @ [StaleIndexEntry indexed] else issues))))"

definition diagnose_snapshots ::
  "SnapshotEnvelope RecordCodec \<Rightarrow> iter_order \<Rightarrow> ObjectBackedGraphStore
    \<Rightarrow> SnapshotDiagnosticsInput \<Rightarrow> (StorageError, SnapshotDiagnosticsReport) result" where
  "diagnose_snapshots k ord st input =
     rbind (rfold (diagnose_entry k (gs_store st)) ([], []) (sort_key id (ord (gs_snapshot_index st))))
       (\<lambda>(snapshots, issues). diagnose_snapshot_envelopes snapshots (gs_store st) input issues)"

section \<open>The store as a finite map\<close>

text \<open>What the store promises to its clients: the envelope found under an identifier.\<close>

definition stored :: "SnapshotEnvelope RecordCodec \<Rightarrow> ObjectBackedGraphStore \<Rightarrow> ObjectId \<Rightarrow> SnapshotEnvelope option" where
  "stored k st i = (case load_snapshot k st i of Inr r \<Rightarrow> r | Inl _ \<Rightarrow> None)"

text \<open>
  The objects lie in a set on which the hash has no collision, and every index
  entry leads to the encoding of an envelope with the indexed identifier.
\<close>

definition objects_within :: "Codec \<Rightarrow> u8 list set \<Rightarrow> MemoryObjectStore \<Rightarrow> bool" where
  "objects_within c B s \<longleftrightarrow>
     store_addressed c s \<and> inj_on (object_id_from_bytes c) B \<and> (\<forall>i b. bt_get (mo_map s) i = Some b \<longrightarrow> b \<in> B)"

definition entry_backed ::
  "Codec \<Rightarrow> SnapshotEnvelope RecordCodec \<Rightarrow> MemoryObjectStore \<Rightarrow> ObjectId \<Rightarrow> ObjectId \<Rightarrow> bool" where
  "entry_backed c k s i cas \<longleftrightarrow>
     (\<exists>v b. rc_encode k v = Ok b \<and> se_id v = i \<and> cas = object_id_from_bytes c b \<and> bt_get (mo_map s) cas = Some b)"

definition graph_store_ok ::
  "Codec \<Rightarrow> SnapshotEnvelope RecordCodec \<Rightarrow> u8 list set \<Rightarrow> ObjectBackedGraphStore \<Rightarrow> bool" where
  "graph_store_ok c k B st \<longleftrightarrow>
     codec_lawful k \<and> objects_within c B (gs_store st) \<and> bt_inv (gs_snapshot_index st) \<and>
     (\<forall>i cas. bt_get (gs_snapshot_index st) i = Some cas \<longrightarrow> entry_backed c k (gs_store st) i cas)"

lemma objects_within_put:
  assumes "objects_within c B s" "b \<in> B"
  shows "objects_within c B (snd (memory_put c s b))"
    and "bt_get (mo_map (snd (memory_put c s b))) (object_id_from_bytes c b) = Some b"
proof -
  have get: "bt_get (mo_map (snd (memory_put c s b))) i =
      (if bt_get (mo_map s) i \<noteq> None then bt_get (mo_map s) i
       else if i = object_id_from_bytes c b then Some b else None)" for i
    by (rule mem.load_store)
  have same: "d = b" if "bt_get (mo_map s) (object_id_from_bytes c b) = Some d" for d
    using that assms by (auto simp: objects_within_def inj_on_def dest: store_addressed_get)
  show "objects_within c B (snd (memory_put c s b))"
    using assms store_addressed_put by (auto simp: objects_within_def get split: if_splits)
  show "bt_get (mo_map (snd (memory_put c s b))) (object_id_from_bytes c b) = Some b"
    using same by (auto simp: get)
qed

lemma entry_backed_put: "entry_backed c k s i cas \<Longrightarrow> entry_backed c k (snd (memory_put c s b)) i cas"
  unfolding entry_backed_def using mem.load_stable by fast

lemma stored_cases:
  assumes "graph_store_ok c k B st"
  obtains (absent) "bt_get (gs_snapshot_index st) i = None" "load_snapshot k st i = Ok None" "stored k st i = None"
  | (present) v b where "bt_get (gs_snapshot_index st) i = Some (object_id_from_bytes c b)"
      "bt_get (mo_map (gs_store st)) (object_id_from_bytes c b) = Some b" "rc_encode k v = Ok b" "se_id v = i"
      "rc_decode k b = Ok v" "load_snapshot k st i = Ok (Some v)" "stored k st i = Some v"
proof (cases "bt_get (gs_snapshot_index st) i")
  case None
  show thesis by (rule absent) (simp_all add: None stored_def load_snapshot_def)
next
  case (Some cas)
  with assms have "entry_backed c k (gs_store st) i cas" by (simp add: graph_store_ok_def)
  then obtain v b where e: "rc_encode k v = Ok b" "se_id v = i" "cas = object_id_from_bytes c b"
    "bt_get (mo_map (gs_store st)) cas = Some b"
    unfolding entry_backed_def by blast
  have d: "rc_decode k b = Ok v" using assms e(1) unfolding graph_store_ok_def codec_lawful_def by blast
  have l: "load_snapshot k st i = Ok (Some v)"
    by (simp add: load_snapshot_def Some memory_get_def e(4) d)
  show thesis
    by (rule present[of b v]) (use Some e d l in \<open>simp_all add: stored_def\<close>)
qed

lemma load_stored_snapshot: "graph_store_ok c k B st \<Longrightarrow> load_snapshot k st i = Ok (stored k st i)"
  by (erule stored_cases[of _ _ _ _ i]) simp_all

lemma stored_id: "graph_store_ok c k B st \<Longrightarrow> stored k st i = Some v \<Longrightarrow> se_id v = i"
  by (erule stored_cases[of _ _ _ _ i]) simp_all

lemma stored_dom: "graph_store_ok c k B st \<Longrightarrow> stored k st i = None \<longleftrightarrow> bt_get (gs_snapshot_index st) i = None"
  by (erule stored_cases[of _ _ _ _ i]) simp_all

text \<open>An entry keeps its envelope as long as its object stays.\<close>

lemma stored_keep:
  assumes "graph_store_ok c k B st"
    and "bt_get (gs_snapshot_index st') i = bt_get (gs_snapshot_index st) i"
    and "\<And>cas b. bt_get (gs_snapshot_index st) i = Some cas \<Longrightarrow> bt_get (mo_map (gs_store st)) cas = Some b
      \<Longrightarrow> bt_get (mo_map (gs_store st')) cas = Some b"
  shows "stored k st' i = stored k st i"
  using assms(1)
proof (cases rule: stored_cases[where i = i])
  case absent
  with assms(2) show ?thesis by (simp add: stored_def load_snapshot_def)
next
  case (present v b)
  have "load_snapshot k st' i = Ok (Some v)"
    by (simp add: load_snapshot_def assms(2) present(1) memory_get_def assms(3)[OF present(1,2)] present(5))
  with present(7) show ?thesis by (simp add: stored_def)
qed

lemma save_snapshot_Ok:
  assumes "rc_encode k v = Ok b"
  shows "save_snapshot c k st v =
    (Ok (se_id v), st\<lparr>gs_store := snd (memory_put c (gs_store st) b),
       gs_snapshot_index := bt_insert (se_id v) (object_id_from_bytes c b) (gs_snapshot_index st)\<rparr>)"
  using assms by (simp add: save_snapshot_def memory_put_def Let_def)

lemma save_snapshot_ok:
  assumes "graph_store_ok c k B st" "rc_encode k v = Ok b" "b \<in> B"
  shows "graph_store_ok c k B (snd (save_snapshot c k st v))"
    and "stored k (snd (save_snapshot c k st v)) = (stored k st)(se_id v \<mapsto> v)"
proof -
  note w = objects_within_put[of c B "gs_store st" b]
  have within: "objects_within c B (gs_store st)" "codec_lawful k" using assms(1) by (auto simp: graph_store_ok_def)
  have here: "entry_backed c k (snd (memory_put c (gs_store st) b)) (se_id v) (object_id_from_bytes c b)"
    unfolding entry_backed_def using assms(2) w(2)[OF within(1) assms(3)] by blast
  show "graph_store_ok c k B (snd (save_snapshot c k st v))"
    unfolding graph_store_ok_def save_snapshot_Ok[OF assms(2)]
    using assms(1) w(1)[OF within(1) assms(3)] here entry_backed_put
    by (auto simp: graph_store_ok_def split: if_splits)
  have dec: "rc_decode k b = Ok v" using within(2) assms(2) unfolding codec_lawful_def by blast
  show "stored k (snd (save_snapshot c k st v)) = (stored k st)(se_id v \<mapsto> v)"
  proof
    fix i
    show "stored k (snd (save_snapshot c k st v)) i = ((stored k st)(se_id v \<mapsto> v)) i"
    proof (cases "i = se_id v")
      case True
      then show ?thesis
        by (simp add: stored_def load_snapshot_def save_snapshot_Ok[OF assms(2)] memory_get_def
            w(2)[OF within(1) assms(3)] dec)
    next
      case False
      have "stored k (snd (save_snapshot c k st v)) i = stored k st i"
        by (rule stored_keep[OF assms(1)])
          (use False in \<open>simp_all add: save_snapshot_Ok[OF assms(2)] mem.load_stable\<close>)
      with False show ?thesis by simp
    qed
  qed
qed

lemma put_object_ok:
  assumes "graph_store_ok c k B st" "b \<in> B"
  defines "st' \<equiv> st\<lparr>gs_store := snd (memory_put c (gs_store st) b)\<rparr>"
  shows "graph_store_ok c k B st'" and "stored k st' = stored k st"
proof -
  show "graph_store_ok c k B st'"
    using assms(1) objects_within_put(1)[of c B "gs_store st" b] assms(2) entry_backed_put
    by (auto simp: graph_store_ok_def st'_def)
  show "stored k st' = stored k st"
    by (rule ext, rule stored_keep[OF assms(1)]) (simp_all add: st'_def mem.load_stable)
qed

lemma remove_snapshot_ok:
  assumes "graph_store_ok c k B st"
  shows "graph_store_ok c k B (remove_snapshot_from_index st i)"
    and "stored k (remove_snapshot_from_index st i) = (stored k st)(i := None)"
proof -
  show "graph_store_ok c k B (remove_snapshot_from_index st i)"
    using assms by (auto simp: graph_store_ok_def remove_snapshot_from_index_def split: if_splits)
  have "stored k (remove_snapshot_from_index st i) j = stored k st j" if "j \<noteq> i" for j
    by (rule stored_keep[OF assms]) (simp_all add: remove_snapshot_from_index_def that)
  moreover have "stored k (remove_snapshot_from_index st i) i = None"
    by (simp add: stored_def load_snapshot_def remove_snapshot_from_index_def)
  ultimately show "stored k (remove_snapshot_from_index st i) = (stored k st)(i := None)" by auto
qed

lemma graph_store_new_ok:
  assumes "codec_lawful k" "inj_on (object_id_from_bytes c) B"
  shows "graph_store_ok c k B (graph_store_new memory_store_new)" "stored k (graph_store_new memory_store_new) = Map.empty"
  using assms
  by (auto simp: graph_store_ok_def graph_store_new_def objects_within_def mem.invar_empty mem.load_empty
      stored_def load_snapshot_def)

lemma load_indexed_Ok:
  assumes "\<And>p. p \<in> set ps \<Longrightarrow> load_snapshot k st (fst p) = Ok (Some (f p)) \<and>
    bt_get (gs_snapshot_index st) (fst p) = Some (snd p)"
  shows "rfold (load_indexed k (gs_store st)) acc ps = Ok (acc @ map f ps)"
  using assms
proof (induction ps arbitrary: acc)
  case (Cons p ps)
  have "load_indexed k (gs_store st) acc p = Ok (acc @ [f p])"
    using Cons.prems[of p]
    by (auto simp: load_indexed_def load_snapshot_def memory_get_def rbind_def split: option.splits sum.splits)
  with Cons show ?case by simp
qed simp

text \<open>Listing returns every stored envelope once, in the order of the map's iteration.\<close>

lemma list_snapshots_Ok:
  assumes "graph_store_ok c k B st" "hash_iteration ord"
  obtains vs where "list_snapshots k ord st = Ok vs" "distinct (map se_id vs)"
    "\<And>v. v \<in> set vs \<longleftrightarrow> stored k st (se_id v) = Some v"
    "mset (map se_id vs) = mset (map fst (gs_snapshot_index st))"
proof -
  let ?idx = "gs_snapshot_index st"
  let ?vs = "map (\<lambda>p. the (stored k st (fst p))) (ord ?idx)"
  have m: "mset (ord ?idx) = mset ?idx" using assms(2) by (simp add: hash_iteration_def)
  have inv: "bt_inv ?idx" using assms(1) by (simp add: graph_store_ok_def)
  have mem: "p \<in> set (ord ?idx) \<longleftrightarrow> bt_get ?idx (fst p) = Some (snd p)" for p
    using bt_get_mem[OF inv, of "fst p" "snd p"] mset_eq_setD[OF m] by simp
  have get: "\<exists>v. stored k st (fst p) = Some v \<and> se_id v = fst p" if "p \<in> set (ord ?idx)" for p
    using assms(1) by (rule stored_cases[where i = "fst p"]) (use that mem in auto)
  have ids: "map se_id ?vs = map fst (ord ?idx)" using get by fastforce
  have "list_snapshots k ord st = Ok ?vs"
    unfolding list_snapshots_def
    by (subst load_indexed_Ok[where f = "\<lambda>p. the (stored k st (fst p))"])
      (use get mem load_stored_snapshot[OF assms(1)] in fastforce)+
  moreover have "mset (map se_id ?vs) = mset (map fst ?idx)"
    unfolding ids mset_map m ..
  moreover from this have "distinct (map se_id ?vs)"
    using bt_distinct_keys[OF inv] by (metis mset_eq_imp_distinct_iff)
  moreover have "v \<in> set ?vs \<longleftrightarrow> stored k st (se_id v) = Some v" for v
  proof
    assume "v \<in> set ?vs"
    then show "stored k st (se_id v) = Some v" using get by fastforce
  next
    assume v: "stored k st (se_id v) = Some v"
    then obtain cas where "bt_get ?idx (se_id v) = Some cas"
      using stored_dom[OF assms(1), of "se_id v"] by auto
    with mem[of "(se_id v, cas)"] v show "v \<in> set ?vs" by force
  qed
  ultimately show thesis by (intro that[of ?vs])
qed

section \<open>What the diagnostics report\<close>

definition parent_links :: "SnapshotEnvelope list \<Rightarrow> (ObjectId \<times> ObjectId) set" where
  "parent_links snapshots =
     {(i, p). \<exists>v. find (\<lambda>v. se_id v = i) snapshots = Some v \<and> se_parent_id v = Some p}"

lemma index_envelopes_snoc: "index_envelopes (xs @ [x]) = index_step x (index_envelopes xs)"
  by (simp add: index_envelopes_def)

lemma index_envelopes_by_id: "bt_get (fst (index_envelopes vs)) i = find (\<lambda>v. se_id v = i) vs"
proof (induction vs rule: rev_induct)
  case (snoc x xs)
  then show ?case
    by (simp add: index_envelopes_snoc index_step_def find_append case_prod_beta split: option.split)
qed (simp add: index_envelopes_def)

lemma index_envelopes_seen: "fst (snd (index_envelopes vs)) = se_id ` set vs"
proof (induction vs rule: rev_induct)
  case (snoc x xs)
  then show ?case by (simp add: index_envelopes_snoc index_step_def case_prod_beta)
qed (simp add: index_envelopes_def)

lemma count_list_pos: "1 \<le> count_list xs x \<longleftrightarrow> x \<in> set xs"
  using count_list_0_iff[of xs x] by (cases "count_list xs x") simp_all

lemma index_envelopes_duplicated: "snd (snd (index_envelopes vs)) = {i. 2 \<le> count_list (map se_id vs) i}"
proof (induction vs rule: rev_induct)
  case (snoc x xs)
  have "2 \<le> count_list (map se_id (xs @ [x])) i \<longleftrightarrow>
      2 \<le> count_list (map se_id xs) i \<or> i = se_id x \<and> 1 \<le> count_list (map se_id xs) i" for i
    by (cases "i = se_id x") auto
  then show ?case
    by (simp only: index_envelopes_snoc index_step_def case_prod_beta snd_conv index_envelopes_seen snoc.IH count_list_pos)
      (auto simp: image_iff)
qed (simp add: index_envelopes_def)

lemma chain_revisits_iff:
  "chain_revisits by_id visited (Some i) \<longleftrightarrow>
     (\<exists>j. (i, j) \<in> {(a, b). parent_of by_id a = Some b}\<^sup>* \<and>
       (j \<in> visited \<or> (j, j) \<in> {(a, b). parent_of by_id a = Some b}\<^sup>+))"
proof (induction by_id visited "Some i" arbitrary: i rule: chain_revisits.induct)
  case (2 by_id visited i)
  let ?R = "{(a, b). parent_of by_id a = Some b}"
  show ?case
  proof (cases "i \<in> visited")
    case True
    then show ?thesis by auto
  next
    case False
    show ?thesis
    proof (cases "parent_of by_id i")
      case None
      then have "(i, j) \<in> ?R\<^sup>* \<longleftrightarrow> j = i" "(i, j) \<notin> ?R\<^sup>+" for j
        by (auto elim: converse_rtranclE converse_tranclE)
      with None False show ?thesis by auto
    next
      case (Some p)
      have step: "(i, j) \<in> ?R\<^sup>* \<longleftrightarrow> j = i \<or> (p, j) \<in> ?R\<^sup>*" for j
        using Some by (auto elim: converse_rtranclE intro: converse_rtrancl_into_rtrancl)
      have loop: "(i, i) \<in> ?R\<^sup>+ \<longleftrightarrow> (p, i) \<in> ?R\<^sup>*"
        using Some by (auto simp: trancl_unfold_left)
      have "chain_revisits by_id visited (Some i) = chain_revisits by_id (insert i visited) (Some p)"
        using False Some by simp
      also have "\<dots> \<longleftrightarrow> (\<exists>j. (p, j) \<in> ?R\<^sup>* \<and> (j \<in> insert i visited \<or> (j, j) \<in> ?R\<^sup>+))"
        using 2 False Some by simp
      also have "\<dots> \<longleftrightarrow> (\<exists>j. (i, j) \<in> ?R\<^sup>* \<and> (j \<in> visited \<or> (j, j) \<in> ?R\<^sup>+))"
        using step loop False by (metis insert_iff)
      finally show ?thesis .
    qed
  qed
qed

lemma root_and_parent_issues_Ok:
  "rfold (root_and_parent_issues s by_id) acc vs =
     Ok (acc @ concat (map (\<lambda>v.
       (if \<not> bt_contains_key (mo_map s) (se_graph_root_hash v)
        then [MissingRootObject (se_id v) (se_graph_root_hash v)] else []) @
       (case se_parent_id v of
          Some p \<Rightarrow> if \<not> bt_contains_key by_id p then [ParentChainGap (se_id v) p] else []
        | None \<Rightarrow> [])) vs))"
  by (induction vs arbitrary: acc) (simp_all add: root_and_parent_issues_def memory_exists_def)

lemma parent_of_links:
  "{(a, b). parent_of (fst (index_envelopes vs)) a = Some b} = parent_links vs"
  by (auto simp: parent_of_def parent_links_def index_envelopes_by_id split: option.splits)

lemma contains_key_index:
  "bt_contains_key (fst (index_envelopes vs)) i \<longleftrightarrow> i \<in> se_id ` set vs"
proof -
  have "bt_contains_key (fst (index_envelopes vs)) i \<longleftrightarrow> find (\<lambda>v. se_id v = i) vs \<noteq> None"
    by (simp add: bt_contains_key_def index_envelopes_by_id flip: not_None_eq)
  then show ?thesis by (auto simp: find_None)
qed

definition expected_issues ::
  "SnapshotEnvelope list \<Rightarrow> MemoryObjectStore \<Rightarrow> SnapshotDiagnosticsInput \<Rightarrow> SnapshotDiagnosticsIssue set" where
  "expected_issues vs s input =
     DuplicateSnapshotId ` {i. 2 \<le> count_list (map se_id vs) i} \<union>
     {MissingRootObject (se_id v) (se_graph_root_hash v) | v. v \<in> set vs \<and> bt_get (mo_map s) (se_graph_root_hash v) = None} \<union>
     {ParentChainGap (se_id v) p | v p. v \<in> set vs \<and> se_parent_id v = Some p \<and> p \<notin> se_id ` set vs} \<union>
     {StaleManifestEntry (sm_snapshot_id e) | e. e \<in> set (sd_manifest_entries input) \<and>
        map_option se_graph_root_hash (find (\<lambda>v. se_id v = sm_snapshot_id e) vs) \<noteq> Some (sm_graph_root_hash e)} \<union>
     {StaleIndexEntry (si_snapshot_id e) | e. e \<in> set (sd_index_entries input) \<and>
        map_option se_graph_root_hash (find (\<lambda>v. se_id v = si_snapshot_id e) vs) \<noteq> Some (si_graph_root_hash e)} \<union>
     ParentChainCycle ` {i \<in> se_id ` set vs. \<exists>j. (i, j) \<in> (parent_links vs)\<^sup>* \<and> (j, j) \<in> (parent_links vs)\<^sup>+}"

lemma entry_matches_find:
  "\<not> entry_matches (fst (index_envelopes vs)) i r \<longleftrightarrow>
     map_option se_graph_root_hash (find (\<lambda>v. se_id v = i) vs) \<noteq> Some r"
  by (simp add: entry_matches_def index_envelopes_by_id split: option.split)

lemma set_sort_snapshot_issues [simp]: "set (sort_snapshot_issues xs) = set xs"
  by (simp add: sort_snapshot_issues_def)

lemma finite_duplicated: "finite {i. 2 \<le> count_list xs i}"
  by (rule finite_subset[of _ "set xs"]) (auto simp flip: count_list_pos)

lemma root_and_parent_set:
  assumes "by_id = fst (index_envelopes vs)"
  shows "set (concat (map (\<lambda>v.
       (if \<not> bt_contains_key (mo_map s) (se_graph_root_hash v)
        then [MissingRootObject (se_id v) (se_graph_root_hash v)] else []) @
       (case se_parent_id v of
          Some p \<Rightarrow> if \<not> bt_contains_key by_id p then [ParentChainGap (se_id v) p] else []
        | None \<Rightarrow> [])) vs)) =
     {MissingRootObject (se_id v) (se_graph_root_hash v) | v. v \<in> set vs \<and> bt_get (mo_map s) (se_graph_root_hash v) = None} \<union>
     {ParentChainGap (se_id v) p | v p. v \<in> set vs \<and> se_parent_id v = Some p \<and> p \<notin> se_id ` set vs}"
  unfolding assms contains_key_index
  by (auto simp: bt_contains_key_def split: if_splits option.splits)

lemma stale_and_cycle_sets:
  assumes "by_id = fst (index_envelopes vs)"
  shows "set (map (StaleManifestEntry \<circ> sm_snapshot_id)
        (filter (\<lambda>e. \<not> entry_matches by_id (sm_snapshot_id e) (sm_graph_root_hash e)) ms)) =
     {StaleManifestEntry (sm_snapshot_id e) | e. e \<in> set ms \<and>
        map_option se_graph_root_hash (find (\<lambda>v. se_id v = sm_snapshot_id e) vs) \<noteq> Some (sm_graph_root_hash e)}"
    and "set (map (StaleIndexEntry \<circ> si_snapshot_id)
        (filter (\<lambda>e. \<not> entry_matches by_id (si_snapshot_id e) (si_graph_root_hash e)) ns)) =
     {StaleIndexEntry (si_snapshot_id e) | e. e \<in> set ns \<and>
        map_option se_graph_root_hash (find (\<lambda>v. se_id v = si_snapshot_id e) vs) \<noteq> Some (si_graph_root_hash e)}"
    and "set (map (ParentChainCycle \<circ> se_id) (filter (\<lambda>v. chain_revisits by_id {} (Some (se_id v))) vs)) =
     ParentChainCycle ` {i \<in> se_id ` set vs. \<exists>j. (i, j) \<in> (parent_links vs)\<^sup>* \<and> (j, j) \<in> (parent_links vs)\<^sup>+}"
  unfolding assms entry_matches_find chain_revisits_iff parent_of_links by auto

lemma diagnose_envelopes_Ok:
  obtains r where "diagnose_snapshot_envelopes vs s input issues = Ok r"
    "set (sr_issues r) = set issues \<union> expected_issues vs s input"
    "sorted (map (\<lambda>i. (kind_ord i, primary_id i, secondary_id i)) (sr_issues r))"
    "sr_diagnostics r = map descriptor (sr_issues r)" "sr_passed r \<longleftrightarrow> sr_issues r = []"
proof -
  obtain by_id seen dup where ix: "index_envelopes vs = (by_id, seen, dup)" by (metis prod_cases3)
  have by_id: "by_id = fst (index_envelopes vs)" and dup: "dup = {i. 2 \<le> count_list (map se_id vs) i}"
    using ix index_envelopes_duplicated[of vs] by simp_all
  have dups: "set (map DuplicateSnapshotId (sorted_list_of_set dup)) = DuplicateSnapshotId ` {i. 2 \<le> count_list (map se_id vs) i}"
    by (simp add: dup finite_duplicated)
  obtain r where r: "diagnose_snapshot_envelopes vs s input issues = Ok r"
    unfolding diagnose_snapshot_envelopes_def ix prod.case root_and_parent_issues_Ok rbind_simps Let_def by blast
  have "set (sr_issues r) = set issues \<union> expected_issues vs s input"
    using r
    unfolding diagnose_snapshot_envelopes_def ix prod.case root_and_parent_issues_Ok rbind_simps Let_def
    by (elim Inr_inject[THEN sym, elim_format])
      (simp only: SnapshotDiagnosticsReport.select_convs set_sort_snapshot_issues set_append
        root_and_parent_set[OF by_id] stale_and_cycle_sets[OF by_id] expected_issues_def
        dups Un_assoc)
  moreover have "sorted (map (\<lambda>i. (kind_ord i, primary_id i, secondary_id i)) (sr_issues r))"
    "sr_diagnostics r = map descriptor (sr_issues r)" "sr_passed r \<longleftrightarrow> sr_issues r = []"
    using r
    unfolding diagnose_snapshot_envelopes_def ix prod.case root_and_parent_issues_Ok rbind_simps Let_def
    by (auto simp: sort_snapshot_issues_def)
  ultimately show thesis using r that by blast
qed

lemma count_list_distinct: "{i. 2 \<le> count_list xs i} = {} \<longleftrightarrow> distinct xs"
proof (induction xs)
  case (Cons x xs)
  have "{i. 2 \<le> count_list (x # xs) i} = (if x \<in> set xs then {x} else {}) \<union> {i. 2 \<le> count_list xs i}"
    using count_list_pos[of xs x] by auto
  with Cons show ?case by auto
qed simp

lemma parent_links_source: "(i, j) \<in> parent_links vs \<Longrightarrow> i \<in> se_id ` set vs"
  by (auto simp: parent_links_def dest: find_Some_mem)

lemma no_cycle_iff_acyclic:
  "{i \<in> se_id ` set vs. \<exists>j. (i, j) \<in> (parent_links vs)\<^sup>* \<and> (j, j) \<in> (parent_links vs)\<^sup>+} = {} \<longleftrightarrow>
     acyclic (parent_links vs)"
  (is "?bad = {} \<longleftrightarrow> _")
proof
  assume e: "?bad = {}"
  have False if "(j, j) \<in> (parent_links vs)\<^sup>+" for j
  proof -
    from that have "j \<in> se_id ` set vs" by (blast dest: tranclD parent_links_source)
    with that e show False by blast
  qed
  then show "acyclic (parent_links vs)" by (auto simp: acyclic_def)
qed (auto simp: acyclic_def)

section \<open>Histories of the store\<close>

datatype graph_op =
    SaveSnapshot SnapshotEnvelope
  | RemoveSnapshot ObjectId
  | AppendLog ChangeSetLogEntry
  | PutObject "u8 list"

fun run_graph_op ::
  "Codec \<Rightarrow> SnapshotEnvelope RecordCodec \<Rightarrow> ChangeSetLogEntry RecordCodec \<Rightarrow> graph_op
    \<Rightarrow> ObjectBackedGraphStore \<Rightarrow> ObjectBackedGraphStore" where
  "run_graph_op c k kl (SaveSnapshot v) st = snd (save_snapshot c k st v)"
| "run_graph_op c k kl (RemoveSnapshot i) st = remove_snapshot_from_index st i"
| "run_graph_op c k kl (AppendLog e) st = snd (append_changeset_log c kl st e)"
| "run_graph_op c k kl (PutObject b) st = st\<lparr>gs_store := snd (memory_put c (gs_store st) b)\<rparr>"

fun graph_op_bytes ::
  "SnapshotEnvelope RecordCodec \<Rightarrow> ChangeSetLogEntry RecordCodec \<Rightarrow> graph_op \<Rightarrow> u8 list set" where
  "graph_op_bytes k kl (SaveSnapshot v) = {b. rc_encode k v = Ok b}"
| "graph_op_bytes k kl (RemoveSnapshot i) = {}"
| "graph_op_bytes k kl (AppendLog e) = {b. rc_encode kl e = Ok b}"
| "graph_op_bytes k kl (PutObject b) = {b}"

text \<open>The abstract store: a map, changed only by saves that encode and by removals.\<close>

fun map_graph_op ::
  "SnapshotEnvelope RecordCodec \<Rightarrow> graph_op \<Rightarrow> (ObjectId \<rightharpoonup> SnapshotEnvelope) \<Rightarrow> (ObjectId \<rightharpoonup> SnapshotEnvelope)" where
  "map_graph_op k (SaveSnapshot v) m = (case rc_encode k v of Inl _ \<Rightarrow> m | Inr _ \<Rightarrow> m(se_id v \<mapsto> v))"
| "map_graph_op k (RemoveSnapshot i) m = m(i := None)"
| "map_graph_op k (AppendLog e) m = m"
| "map_graph_op k (PutObject b) m = m"

lemma append_changeset_log_Ok:
  "rc_encode kl e = Ok b \<Longrightarrow>
     append_changeset_log c kl st e =
       (Ok (object_id_from_bytes c b), st\<lparr>gs_store := snd (memory_put c (gs_store st) b)\<rparr>)"
  by (simp add: append_changeset_log_def memory_put_def Let_def)

lemma run_graph_op_simulates:
  assumes "graph_store_ok c k B st" "graph_op_bytes k kl x \<subseteq> B"
  shows "graph_store_ok c k B (run_graph_op c k kl x st) \<and>
    stored k (run_graph_op c k kl x st) = map_graph_op k x (stored k st)"
proof (cases x)
  case (SaveSnapshot v)
  show ?thesis
  proof (cases "rc_encode k v")
    case (Inl e)
    with SaveSnapshot assms(1) show ?thesis by (simp add: save_snapshot_def)
  next
    case (Inr b)
    with SaveSnapshot assms save_snapshot_ok[OF assms(1) Inr] show ?thesis by simp
  qed
next
  case (RemoveSnapshot i)
  with remove_snapshot_ok[OF assms(1)] show ?thesis by simp
next
  case (AppendLog e)
  show ?thesis
  proof (cases "rc_encode kl e")
    case (Inl err)
    with AppendLog assms(1) show ?thesis by (simp add: append_changeset_log_def)
  next
    case (Inr b)
    with AppendLog assms put_object_ok[OF assms(1)] show ?thesis by (simp add: append_changeset_log_Ok)
  qed
next
  case (PutObject b)
  with assms put_object_ok[OF assms(1)] show ?thesis by simp
qed

lemma graph_history_simulates:
  assumes "graph_store_ok c k B st" "\<Union> (graph_op_bytes k kl ` set xs) \<subseteq> B"
  shows "graph_store_ok c k B (fold (run_graph_op c k kl) xs st) \<and>
    stored k (fold (run_graph_op c k kl) xs st) = fold (map_graph_op k) xs (stored k st)"
  using assms
proof (induction xs arbitrary: st)
  case (Cons x xs)
  from Cons.prems have "graph_op_bytes k kl x \<subseteq> B" by auto
  from run_graph_op_simulates[OF Cons.prems(1) this] Cons show ?case by simp
qed simp

text \<open>Lawful codecs exist: a table of records with distinct encodings.\<close>

definition table_codec :: "('a \<times> u8 list) list \<Rightarrow> 'a RecordCodec" where
  "table_codec tbl =
     \<lparr>rc_encode = (\<lambda>r. case map_of tbl r of Some b \<Rightarrow> Ok b | None \<Rightarrow> Err (Codec ''encode'')),
      rc_decode = (\<lambda>b. case map_of (map prod.swap tbl) b of Some r \<Rightarrow> Ok r | None \<Rightarrow> Err (Codec ''decode''))\<rparr>"

lemma table_codec_lawful: "distinct (map snd tbl) \<Longrightarrow> codec_lawful (table_codec tbl)"
proof -
  assume d: "distinct (map snd tbl)"
  have "map_of (map prod.swap tbl) b = Some r" if "map_of tbl r = Some b" for r b
  proof (rule map_of_is_SomeI)
    show "distinct (map fst (map prod.swap tbl))" using d by (simp add: comp_def)
    have "prod.swap (r, b) \<in> set (map prod.swap tbl)" using map_of_SomeD[OF that] unfolding set_map by (rule imageI)
    then show "(b, r) \<in> set (map prod.swap tbl)" by simp
  qed
  then show ?thesis by (auto simp: codec_lawful_def table_codec_def split: option.splits)
qed

definition sample_envelope :: "u8 \<Rightarrow> u8 option \<Rightarrow> u64 \<Rightarrow> SnapshotEnvelope" where
  "sample_envelope i p t =
     \<lparr>se_id = [i], se_graph_root_hash = [i, i], se_parent_id = map_option (\<lambda>j. [j]) p,
      se_applied_change_id = None, se_created_at = t, se_verification_report_hash = None,
      se_audit_record_ids = [], se_migration_metadata_ids = []\<rparr>"

lemma hash_iteration_id: "hash_iteration (\<lambda>m. m)" and hash_iteration_rev: "hash_iteration rev"
  by (simp_all add: hash_iteration_def)

section \<open>Properties\<close>

text \<open>
  C12. The snapshot store refines a finite map. After any history of saves,
  removals, log appends and raw object writes from the empty store, with a CBOR
  codec that reads back what it wrote and no hash collision among the bytes of
  the history, loading an identifier returns what the map holds, and listing
  returns every envelope of the map once, whatever order the index iterates in.
\<close>

theorem snapshot_store_refines_map:
  assumes "codec_lawful k" "hash_iteration ord"
    and "inj_on (object_id_from_bytes c) (\<Union> (graph_op_bytes k kl ` set xs))"
    and "st = fold (run_graph_op c k kl) xs (graph_store_new memory_store_new)"
    and "m = fold (map_graph_op k) xs Map.empty"
  shows "load_snapshot k st i = Ok (m i) \<and>
    (\<exists>vs. list_snapshots k ord st = Ok vs \<and> distinct (map se_id vs) \<and> set vs = ran m)"
proof -
  note new = graph_store_new_ok[OF assms(1,3)]
  from graph_history_simulates[OF new(1) order.refl] assms(4,5) new(2)
  have ok: "graph_store_ok c k (\<Union> (graph_op_bytes k kl ` set xs)) st" and m: "stored k st = m" by auto
  obtain vs where vs: "list_snapshots k ord st = Ok vs" "distinct (map se_id vs)"
    "\<And>v. v \<in> set vs \<longleftrightarrow> stored k st (se_id v) = Some v"
    by (rule list_snapshots_Ok[OF ok assms(2)]) blast
  have "set vs = ran m" using vs(3) stored_id[OF ok] by (auto simp: m ran_def)
  with vs load_stored_snapshot[OF ok] show ?thesis by (simp add: m)
qed

theorem snapshot_store_refines_map_witness:
  "load_snapshot (table_codec [(sample_envelope 1 None 5, [9])])
     (fold (run_graph_op identity_codec
         (table_codec [(sample_envelope 1 None 5, [9])]) (table_codec []))
       [PutObject [1, 1], SaveSnapshot (sample_envelope 1 None 5), RemoveSnapshot [2]]
       (graph_store_new memory_store_new)) [1] = Ok (Some (sample_envelope 1 None 5))"
proof -
  let ?k = "table_codec [(sample_envelope 1 None 5, [9])]"
  have law: "codec_lawful ?k" by (rule table_codec_lawful) simp
  show ?thesis
    unfolding snapshot_store_refines_map[OF law hash_iteration_rev identity_codec_inj refl refl, THEN conjunct1]
    by (simp add: table_codec_def) (simp add: sample_envelope_def)
qed

text \<open>
  C20. Snapshot diagnostics are exact: they return a report whose issues are
  exactly the duplicated identifiers, missing roots, dangling parents, stale
  metadata and snapshots whose ancestry enters a cycle, in sorted order. The
  report passes iff the identifiers are distinct, roots and parents are present,
  the parent links are acyclic and the metadata match.
\<close>

theorem snapshot_diagnostics_exact:
  "\<exists>r. diagnose_snapshot_envelopes vs s input [] = Ok r \<and> set (sr_issues r) = expected_issues vs s input \<and>
     sorted (map (\<lambda>i. (kind_ord i, primary_id i, secondary_id i)) (sr_issues r)) \<and>
     (sr_passed r \<longleftrightarrow> distinct (map se_id vs) \<and>
       {v \<in> set vs. bt_get (mo_map s) (se_graph_root_hash v) = None} = {} \<and>
       {p. \<exists>v \<in> set vs. se_parent_id v = Some p} \<subseteq> se_id ` set vs \<and>
       {e \<in> set (sd_manifest_entries input).
          map_option se_graph_root_hash (find (\<lambda>v. se_id v = sm_snapshot_id e) vs) \<noteq> Some (sm_graph_root_hash e)} = {} \<and>
       {e \<in> set (sd_index_entries input).
          map_option se_graph_root_hash (find (\<lambda>v. se_id v = si_snapshot_id e) vs) \<noteq> Some (si_graph_root_hash e)} = {} \<and>
       acyclic (parent_links vs))"
proof -
  obtain r where r: "diagnose_snapshot_envelopes vs s input [] = Ok r"
    "set (sr_issues r) = expected_issues vs s input"
    "sorted (map (\<lambda>i. (kind_ord i, primary_id i, secondary_id i)) (sr_issues r))"
    "sr_passed r \<longleftrightarrow> sr_issues r = []"
    by (rule diagnose_envelopes_Ok[of vs s input "[]"]) simp
  have e: "{f v | v. v \<in> A \<and> P v} = {} \<longleftrightarrow> {v \<in> A. P v} = {}" for f :: "'a \<Rightarrow> 'b" and A P by blast
  have gap: "{ParentChainGap (se_id v) p | v p. v \<in> set vs \<and> se_parent_id v = Some p \<and> p \<notin> se_id ` set vs} = {} \<longleftrightarrow>
      {p. \<exists>v \<in> set vs. se_parent_id v = Some p} \<subseteq> se_id ` set vs" by blast
  have "sr_passed r \<longleftrightarrow> expected_issues vs s input = {}" using r(2,4) by (metis set_empty)
  with r show ?thesis
    by (intro exI[of _ r])
      (simp only: expected_issues_def Un_empty image_is_empty count_list_distinct no_cycle_iff_acyclic e gap conj_assoc simp_thms)
qed

end
