(* ===== verification/Storage_Records.thy ===== *)
theory Storage_Records
  imports Snapshot_Store
begin

text \<open>
  The named pointers and records beside the snapshots: branches and tags
  (\<^verbatim>\<open>branch.rs\<close>, \<^verbatim>\<open>tag.rs\<close>), tombstones (\<^verbatim>\<open>tombstone.rs\<close>), structural diffs
  (\<^verbatim>\<open>diff.rs\<close>), approvals, assumptions and the verification gate
  (\<^verbatim>\<open>approval.rs\<close>), all of \<^verbatim>\<open>crates/ail-storage/src\<close>. In-memory registries
  are maps; the object-backed stores keep an index into an object store. The
  registries and stores of approvals and assumptions share one contract, the
  first record of an identifier stands, and implement it alike.
\<close>

section \<open>Branches and tags\<close>

record Branch =
  br_name :: string
  br_target_snapshot_id :: ObjectId
  br_created_at :: u64

type_synonym BranchRegistry = "(string, Branch) btree_map"

definition create_branch ::
  "BranchRegistry \<Rightarrow> string \<Rightarrow> ObjectId \<Rightarrow> u64 \<Rightarrow> (StorageError, Branch) result \<times> BranchRegistry" where
  "create_branch g name target created_at =
     (if bt_contains_key g name
      then (Err (Codec (''branch '' @ [CHR 0x27] @ name @ [CHR 0x27] @ '' already exists'')), g)
      else let b = \<lparr>br_name = name, br_target_snapshot_id = target, br_created_at = created_at\<rparr>
        in (Ok b, bt_insert name b g))"

definition get_branch :: "BranchRegistry \<Rightarrow> string \<Rightarrow> (StorageError, Branch option) result" where
  "get_branch g name = Ok (bt_get g name)"

definition update_branch ::
  "BranchRegistry \<Rightarrow> string \<Rightarrow> ObjectId \<Rightarrow> (StorageError, Branch) result \<times> BranchRegistry" where
  "update_branch g name new_target =
     (case bt_get g name of
        None \<Rightarrow> (Err NotFound, g)
      | Some b \<Rightarrow> let b' = b\<lparr>br_target_snapshot_id := new_target\<rparr> in (Ok b', bt_insert name b' g))"

definition delete_branch :: "BranchRegistry \<Rightarrow> string \<Rightarrow> (StorageError, unit) result \<times> BranchRegistry" where
  "delete_branch g name = (Ok (), bt_remove name g)"

text \<open>The values of the map, in its iteration order, sorted by creation time and name.\<close>

definition list_branches ::
  "((string \<times> Branch) list \<Rightarrow> (string \<times> Branch) list) \<Rightarrow> BranchRegistry
    \<Rightarrow> (StorageError, Branch list) result" where
  "list_branches ord g = Ok (sort_key (\<lambda>b. (br_created_at b, br_name b)) (map snd (ord g)))"

record ReleaseMetadata =
  rm_graph_root_hash :: ObjectId
  rm_verification_report_hash :: "u8 list option"
  rm_runtime_profile_hash :: "u8 list option"
  rm_artifact_hashes :: "ObjectId list"

record Tag =
  tg_name :: string
  tg_snapshot_id :: ObjectId
  tg_created_at :: u64
  tg_release_metadata :: "ReleaseMetadata option"

type_synonym TagRegistry = "(string, Tag) btree_map"

definition create_tag ::
  "TagRegistry \<Rightarrow> string \<Rightarrow> ObjectId \<Rightarrow> u64 \<Rightarrow> ReleaseMetadata option
    \<Rightarrow> (StorageError, Tag) result \<times> TagRegistry" where
  "create_tag g name snapshot_id created_at release_metadata =
     (if bt_contains_key g name
      then (Err (Codec (''tag '' @ [CHR 0x27] @ name @ [CHR 0x27] @ '' already exists'')), g)
      else let t = \<lparr>tg_name = name, tg_snapshot_id = snapshot_id, tg_created_at = created_at,
                    tg_release_metadata = release_metadata\<rparr>
        in (Ok t, bt_insert name t g))"

definition get_tag :: "TagRegistry \<Rightarrow> string \<Rightarrow> (StorageError, Tag option) result" where
  "get_tag g name = Ok (bt_get g name)"

definition delete_tag :: "TagRegistry \<Rightarrow> string \<Rightarrow> (StorageError, unit) result \<times> TagRegistry" where
  "delete_tag g name = (Ok (), bt_remove name g)"

definition list_tags ::
  "((string \<times> Tag) list \<Rightarrow> (string \<times> Tag) list) \<Rightarrow> TagRegistry \<Rightarrow> (StorageError, Tag list) result" where
  "list_tags ord g = Ok (sort_key (\<lambda>t. (tg_created_at t, tg_name t)) (map snd (ord g)))"

section \<open>Object-backed records\<close>

text \<open>Encode, put, and look up through the index: the steps the record stores share.\<close>

record IndexedStore =
  ix_store :: MemoryObjectStore
  ix_index :: cas_index

definition indexed_store_new :: "MemoryObjectStore \<Rightarrow> IndexedStore" where
  "indexed_store_new s = \<lparr>ix_store = s, ix_index = []\<rparr>"

definition put_record ::
  "Codec \<Rightarrow> 'r RecordCodec \<Rightarrow> IndexedStore \<Rightarrow> 'r
    \<Rightarrow> (StorageError, ObjectId) result \<times> IndexedStore" where
  "put_record c k st r =
     (case rc_encode k r of
        Inl e \<Rightarrow> (Err e, st)
      | Inr bytes \<Rightarrow> (let (cas, s) = memory_put c (ix_store st) bytes in (cas, st\<lparr>ix_store := s\<rparr>)))"

definition get_record ::
  "'r RecordCodec \<Rightarrow> IndexedStore \<Rightarrow> ObjectId \<Rightarrow> (StorageError, 'r option) result" where
  "get_record k st cas =
     rbind (memory_get (ix_store st) cas) (\<lambda>obj.
       case obj of None \<Rightarrow> Ok None | Some raw \<Rightarrow> rbind (rc_decode k raw) (\<lambda>r. Ok (Some r)))"

subsection \<open>Tombstones\<close>

record Tombstone =
  tb_deleted_by :: ObjectId
  tb_replacement :: "ObjectId option"
  tb_timestamp :: u64

definition write_tombstone ::
  "Codec \<Rightarrow> Tombstone RecordCodec \<Rightarrow> IndexedStore \<Rightarrow> ObjectId \<Rightarrow> Tombstone
    \<Rightarrow> (StorageError, ObjectId) result \<times> IndexedStore" where
  "write_tombstone c k st deleted_id t =
     (case put_record c k st t of
        (Inl e, st') \<Rightarrow> (Err e, st')
      | (Inr cas, st') \<Rightarrow> (Ok cas, st'\<lparr>ix_index := bt_insert deleted_id cas (ix_index st')\<rparr>))"

definition read_tombstone ::
  "Tombstone RecordCodec \<Rightarrow> IndexedStore \<Rightarrow> ObjectId \<Rightarrow> (StorageError, Tombstone option) result" where
  "read_tombstone k st deleted_id =
     (case bt_get (ix_index st) deleted_id of None \<Rightarrow> Ok None | Some cas \<Rightarrow> get_record k st cas)"

definition list_tombstones ::
  "Tombstone RecordCodec \<Rightarrow> iter_order \<Rightarrow> IndexedStore \<Rightarrow> (StorageError, (ObjectId \<times> Tombstone) list) result" where
  "list_tombstones k ord st =
     rfold (\<lambda>result (deleted_id, cas).
       rbind (get_record k st cas) (\<lambda>r.
         case r of None \<Rightarrow> Ok result | Some t \<Rightarrow> Ok (result @ [(deleted_id, t)])))
       [] (ord (ix_index st))"

subsection \<open>Structural diffs\<close>

record StoredStructuralDiff =
  df_id :: ObjectId
  df_change_id :: ObjectId
  df_created_nodes :: "ObjectId list"
  df_modified_nodes :: "ObjectId list"
  df_deleted_nodes :: "ObjectId list"
  df_added_edges :: "(ObjectId \<times> ObjectId) list"
  df_removed_edges :: "(ObjectId \<times> ObjectId) list"
  df_exposed_nodes :: "ObjectId list"
  df_created_at :: u64

definition store_diff ::
  "Codec \<Rightarrow> StoredStructuralDiff RecordCodec \<Rightarrow> IndexedStore \<Rightarrow> StoredStructuralDiff
    \<Rightarrow> (StorageError, ObjectId) result \<times> IndexedStore" where
  "store_diff c k st d =
     (case put_record c k st d of
        (Inl e, st') \<Rightarrow> (Err e, st')
      | (Inr cas, st') \<Rightarrow> (Ok (df_id d), st'\<lparr>ix_index := bt_insert (df_id d) cas (ix_index st')\<rparr>))"

definition load_diff ::
  "StoredStructuralDiff RecordCodec \<Rightarrow> IndexedStore \<Rightarrow> ObjectId \<Rightarrow> (StorageError, StoredStructuralDiff option) result" where
  "load_diff k st i =
     (case bt_get (ix_index st) i of
        None \<Rightarrow> Ok None
      | Some cas \<Rightarrow> rbind (get_record k st cas) (\<lambda>r. case r of None \<Rightarrow> Err NotFound | Some d \<Rightarrow> Ok (Some d)))"

definition list_diffs ::
  "StoredStructuralDiff RecordCodec \<Rightarrow> iter_order \<Rightarrow> IndexedStore \<Rightarrow> (StorageError, StoredStructuralDiff list) result" where
  "list_diffs k ord st =
     rfold (\<lambda>result (_, cas).
       rbind (get_record k st cas) (\<lambda>r.
         case r of None \<Rightarrow> Err NotFound | Some d \<Rightarrow> Ok (result @ [d])))
       [] (ord (ix_index st))"

subsection \<open>Approvals and assumptions\<close>

record ApprovalRecord =
  ap_id :: ObjectId
  ap_subject_change_id :: ObjectId
  ap_canonical_change_hash :: ObjectId
  ap_approver_role :: string
  ap_approves_scope :: string
  ap_timestamp :: u64

type_synonym ApprovalRegistry = "(ObjectId, ApprovalRecord) btree_map"

definition registry_store_approval ::
  "ApprovalRegistry \<Rightarrow> ApprovalRecord \<Rightarrow> (StorageError, unit) result \<times> ApprovalRegistry" where
  "registry_store_approval g r = (Ok (), bt_or_insert (ap_id r) r g)"

definition registry_get_approval ::
  "ApprovalRegistry \<Rightarrow> ObjectId \<Rightarrow> (StorageError, ApprovalRecord option) result" where
  "registry_get_approval g i = Ok (bt_get g i)"

definition registry_list_approvals ::
  "((ObjectId \<times> ApprovalRecord) list \<Rightarrow> (ObjectId \<times> ApprovalRecord) list) \<Rightarrow> ApprovalRegistry
    \<Rightarrow> (StorageError, ApprovalRecord list) result" where
  "registry_list_approvals ord g = Ok (sort_key (\<lambda>r. (ap_timestamp r, ap_id r)) (map snd (ord g)))"

datatype AssumptionStatus = Active | Expired | Revoked

record AssumptionRecord =
  as_id :: ObjectId
  as_boundary_id :: ObjectId
  as_status :: AssumptionStatus
  as_expires_at :: "u64 option"
  as_owner :: string

type_synonym AssumptionRegistry = "(ObjectId, AssumptionRecord) btree_map"

definition registry_store_assumption ::
  "AssumptionRegistry \<Rightarrow> AssumptionRecord \<Rightarrow> (StorageError, unit) result \<times> AssumptionRegistry" where
  "registry_store_assumption g r = (Ok (), bt_or_insert (as_id r) r g)"

definition registry_get_assumption ::
  "AssumptionRegistry \<Rightarrow> ObjectId \<Rightarrow> (StorageError, AssumptionRecord option) result" where
  "registry_get_assumption g i = Ok (bt_get g i)"

definition registry_list_assumptions ::
  "((ObjectId \<times> AssumptionRecord) list \<Rightarrow> (ObjectId \<times> AssumptionRecord) list) \<Rightarrow> AssumptionRegistry
    \<Rightarrow> (StorageError, AssumptionRecord list) result" where
  "registry_list_assumptions ord g = Ok (sort_key as_id (map snd (ord g)))"

definition approval_is_valid :: "ApprovalRecord \<Rightarrow> ObjectId \<Rightarrow> bool" where
  "approval_is_valid r current = (ap_canonical_change_hash r = current)"

definition validate_assumption_boundary ::
  "AssumptionRecord \<Rightarrow> ObjectId list \<Rightarrow> (ObjectId, unit) result" where
  "validate_assumption_boundary r known =
     (if as_boundary_id r \<in> set known then Ok () else Err (as_boundary_id r))"

datatype VerificationGateResult = Pass | Fail "ObjectId list"

definition assumption_failed :: "u64 option \<Rightarrow> AssumptionRecord \<Rightarrow> bool" where
  "assumption_failed now_ms a =
     (if as_status a = Expired \<or> as_status a = Revoked then True
      else case (as_expires_at a, now_ms) of (Some expires_at, Some now) \<Rightarrow> expires_at \<le> now | _ \<Rightarrow> False)"

definition evaluate_verification_gate ::
  "AssumptionRecord list \<Rightarrow> u64 option \<Rightarrow> VerificationGateResult" where
  "evaluate_verification_gate assumptions now_ms =
     (let failed = map as_id (filter (assumption_failed now_ms) assumptions)
      in if failed = [] then Pass else Fail (sort_key (\<lambda>i. i) failed))"

definition backed_store_approval ::
  "Codec \<Rightarrow> ApprovalRecord RecordCodec \<Rightarrow> IndexedStore \<Rightarrow> ApprovalRecord
    \<Rightarrow> (StorageError, unit) result \<times> IndexedStore" where
  "backed_store_approval c k st r =
     (case put_record c k st r of
        (Inl e, st') \<Rightarrow> (Err e, st')
      | (Inr cas, st') \<Rightarrow> (Ok (), st'\<lparr>ix_index := bt_or_insert (ap_id r) cas (ix_index st')\<rparr>))"

definition backed_get_approval ::
  "ApprovalRecord RecordCodec \<Rightarrow> IndexedStore \<Rightarrow> ObjectId \<Rightarrow> (StorageError, ApprovalRecord option) result" where
  "backed_get_approval k st i =
     (case bt_get (ix_index st) i of None \<Rightarrow> Ok None | Some cas \<Rightarrow> get_record k st cas)"

text \<open>The listing loop of both object-backed stores: missing objects are skipped.\<close>

definition collect_records ::
  "'r RecordCodec \<Rightarrow> IndexedStore \<Rightarrow> (ObjectId \<times> ObjectId) list \<Rightarrow> (StorageError, 'r list) result" where
  "collect_records k st pairs =
     rfold (\<lambda>records (_, cas).
       rbind (get_record k st cas) (\<lambda>r. case r of None \<Rightarrow> Ok records | Some x \<Rightarrow> Ok (records @ [x])))
       [] pairs"

definition backed_list_approvals ::
  "ApprovalRecord RecordCodec \<Rightarrow> iter_order \<Rightarrow> IndexedStore \<Rightarrow> (StorageError, ApprovalRecord list) result" where
  "backed_list_approvals k ord st =
     rbind (collect_records k st (ord (ix_index st))) (\<lambda>records.
       Ok (sort_key (\<lambda>r. (ap_timestamp r, ap_id r)) records))"

definition backed_store_assumption ::
  "Codec \<Rightarrow> AssumptionRecord RecordCodec \<Rightarrow> IndexedStore \<Rightarrow> AssumptionRecord
    \<Rightarrow> (StorageError, unit) result \<times> IndexedStore" where
  "backed_store_assumption c k st r =
     (case put_record c k st r of
        (Inl e, st') \<Rightarrow> (Err e, st')
      | (Inr cas, st') \<Rightarrow> (Ok (), st'\<lparr>ix_index := bt_or_insert (as_id r) cas (ix_index st')\<rparr>))"

definition backed_get_assumption ::
  "AssumptionRecord RecordCodec \<Rightarrow> IndexedStore \<Rightarrow> ObjectId \<Rightarrow> (StorageError, AssumptionRecord option) result" where
  "backed_get_assumption k st i =
     (case bt_get (ix_index st) i of None \<Rightarrow> Ok None | Some cas \<Rightarrow> get_record k st cas)"

definition backed_list_assumptions ::
  "AssumptionRecord RecordCodec \<Rightarrow> iter_order \<Rightarrow> IndexedStore \<Rightarrow> (StorageError, AssumptionRecord list) result" where
  "backed_list_assumptions k ord st =
     rbind (collect_records k st (ord (ix_index st))) (\<lambda>records. Ok (sort_key as_id records))"

section \<open>Records behind an index\<close>

definition record_at :: "'r RecordCodec \<Rightarrow> IndexedStore \<Rightarrow> ObjectId \<Rightarrow> 'r option" where
  "record_at k st i =
     (case bt_get (ix_index st) i of
        None \<Rightarrow> None
      | Some cas \<Rightarrow> (case get_record k st cas of Inr r \<Rightarrow> r | Inl _ \<Rightarrow> None))"

definition record_backed :: "Codec \<Rightarrow> 'r RecordCodec \<Rightarrow> MemoryObjectStore \<Rightarrow> ObjectId \<Rightarrow> bool" where
  "record_backed c k s cas \<longleftrightarrow>
     (\<exists>r b. rc_encode k r = Ok b \<and> cas = object_id_from_bytes c b \<and> bt_get (mo_map s) cas = Some b)"

lemma record_backed_put: "record_backed c k s cas \<Longrightarrow> record_backed c k (snd (memory_put c s b)) cas"
  unfolding record_backed_def using mem.load_stable by fast

definition records_ok :: "Codec \<Rightarrow> 'r RecordCodec \<Rightarrow> u8 list set \<Rightarrow> IndexedStore \<Rightarrow> bool" where
  "records_ok c k B st \<longleftrightarrow>
     codec_lawful k \<and> objects_within c B (ix_store st) \<and> bt_inv (ix_index st) \<and>
     (\<forall>i cas. bt_get (ix_index st) i = Some cas \<longrightarrow> record_backed c k (ix_store st) cas)"

lemma record_cases:
  assumes "records_ok c k B st"
  obtains (absent) "bt_get (ix_index st) i = None" "record_at k st i = None"
  | (present) cas r b where "bt_get (ix_index st) i = Some cas" "bt_get (mo_map (ix_store st)) cas = Some b"
      "rc_decode k b = Ok r" "get_record k st cas = Ok (Some r)" "record_at k st i = Some r"
proof (cases "bt_get (ix_index st) i")
  case None
  show thesis by (rule absent) (simp_all add: None record_at_def)
next
  case (Some cas)
  with assms obtain r b where e: "rc_encode k r = Ok b" "bt_get (mo_map (ix_store st)) cas = Some b"
    unfolding records_ok_def record_backed_def by blast
  have d: "rc_decode k b = Ok r" using assms e(1) unfolding records_ok_def codec_lawful_def by blast
  have g: "get_record k st cas = Ok (Some r)" by (simp add: get_record_def memory_get_def e(2) d)
  show thesis by (rule present[of cas b r]) (use Some e d g in \<open>simp_all add: record_at_def\<close>)
qed

lemma record_at_None: "records_ok c k B st \<Longrightarrow> record_at k st i = None \<longleftrightarrow> bt_get (ix_index st) i = None"
  by (erule record_cases[of _ _ _ _ i]) simp_all

lemma record_keep:
  assumes "records_ok c k B st" "bt_get (ix_index st') i = bt_get (ix_index st) i"
    and "\<And>cas b. bt_get (mo_map (ix_store st)) cas = Some b \<Longrightarrow> bt_get (mo_map (ix_store st')) cas = Some b"
  shows "record_at k st' i = record_at k st i"
  using assms(1)
proof (cases rule: record_cases[where i = i])
  case absent
  with assms(2) show ?thesis by (simp add: record_at_def)
next
  case (present cas r b)
  with assms(2) assms(3)[OF present(2)] show ?thesis
    by (simp add: record_at_def get_record_def memory_get_def)
qed

lemma put_record_Ok:
  "rc_encode k r = Ok b \<Longrightarrow>
     put_record c k st r = (Ok (object_id_from_bytes c b), st\<lparr>ix_store := snd (memory_put c (ix_store st) b)\<rparr>)"
  by (simp add: put_record_def memory_put_def Let_def)

lemma put_unindexed_ok:
  assumes "records_ok c k B st" "b \<in> B"
  defines "st' \<equiv> st\<lparr>ix_store := snd (memory_put c (ix_store st) b)\<rparr>"
  shows "records_ok c k B st'" "record_at k st' = record_at k st"
proof -
  show "records_ok c k B st'"
    using assms(1) objects_within_put(1)[of c B "ix_store st" b] assms(2)
    by (auto simp: records_ok_def st'_def intro: record_backed_put)
  show "record_at k st' = record_at k st"
    by (rule ext, rule record_keep[OF assms(1)]) (simp_all add: st'_def mem.load_stable)
qed

lemma put_indexed_ok:
  fixes i :: ObjectId
  assumes "records_ok c k B st" "rc_encode k r = Ok b" "b \<in> B"
  defines "st' \<equiv> st\<lparr>ix_store := snd (memory_put c (ix_store st) b),
    ix_index := bt_insert i (object_id_from_bytes c b) (ix_index st)\<rparr>"
  shows "records_ok c k B st'" "record_at k st' = (record_at k st)(i \<mapsto> r)"
proof -
  have within: "objects_within c B (ix_store st)" "codec_lawful k" using assms(1) by (auto simp: records_ok_def)
  note here = objects_within_put[OF within(1) assms(3)]
  have "record_backed c k (snd (memory_put c (ix_store st) b)) (object_id_from_bytes c b)"
    unfolding record_backed_def using assms(2) here(2) by blast
  then show "records_ok c k B st'"
    using assms(1) here(1) by (auto simp: records_ok_def st'_def intro: record_backed_put split: if_splits)
  have "rc_decode k b = Ok r" using within(2) assms(2) unfolding codec_lawful_def by blast
  with here(2) have "record_at k st' i = Some r"
    by (simp add: record_at_def get_record_def memory_get_def st'_def)
  moreover have "record_at k st' j = record_at k st j" if "j \<noteq> i" for j
    by (rule record_keep[OF assms(1)]) (simp_all add: st'_def mem.load_stable that)
  ultimately show "record_at k st' = (record_at k st)(i \<mapsto> r)" by auto
qed

lemma put_first_ok:
  fixes i :: ObjectId
  assumes "records_ok c k B st" "rc_encode k r = Ok b" "b \<in> B"
  defines "st' \<equiv> st\<lparr>ix_store := snd (memory_put c (ix_store st) b),
    ix_index := bt_or_insert i (object_id_from_bytes c b) (ix_index st)\<rparr>"
  shows "records_ok c k B st'"
    "record_at k st' = (if record_at k st i = None then (record_at k st)(i \<mapsto> r) else record_at k st)"
proof -
  have "st' = (if bt_get (ix_index st) i = None
      then st\<lparr>ix_store := snd (memory_put c (ix_store st) b),
        ix_index := bt_insert i (object_id_from_bytes c b) (ix_index st)\<rparr>
      else st\<lparr>ix_store := snd (memory_put c (ix_store st) b)\<rparr>)"
    by (auto simp: st'_def bt_or_insert_def split: option.split)
  then show "records_ok c k B st'"
    "record_at k st' = (if record_at k st i = None then (record_at k st)(i \<mapsto> r) else record_at k st)"
    using put_indexed_ok[OF assms(1-3)] put_unindexed_ok[OF assms(1,3)] record_at_None[OF assms(1)] by simp_all
qed

lemma records_new_ok:
  "codec_lawful k \<Longrightarrow> inj_on (object_id_from_bytes c) B \<Longrightarrow> records_ok c k B (indexed_store_new memory_store_new)"
  "record_at k (indexed_store_new memory_store_new) = Map.empty"
  by (auto simp: records_ok_def indexed_store_new_def objects_within_def mem.invar_empty mem.load_empty record_at_def)

lemma collect_records_Ok:
  assumes "records_ok c k B st" "hash_iteration ord"
  shows "collect_records k st (ord (ix_index st)) = Ok (map (\<lambda>p. the (record_at k st (fst p))) (ord (ix_index st)))"
proof -
  have m: "set (ord (ix_index st)) = set (ix_index st)"
    using assms(2) by (metis hash_iteration_def mset_eq_setD)
  have inv: "bt_inv (ix_index st)" using assms(1) by (simp add: records_ok_def)
  have "rfold (\<lambda>records (_, cas).
       rbind (get_record k st cas) (\<lambda>r. case r of None \<Rightarrow> Ok records | Some x \<Rightarrow> Ok (records @ [x])))
       acc ps = Ok (acc @ map (\<lambda>p. the (record_at k st (fst p))) ps)" if "set ps \<subseteq> set (ix_index st)" for acc ps
    using that
  proof (induction ps arbitrary: acc)
    case (Cons p ps)
    have x: "bt_get (ix_index st) (fst p) = Some (snd p)"
      using Cons.prems bt_get_mem[OF inv, of "fst p" "snd p"] by simp
    have "get_record k st (snd p) = Ok (Some (the (record_at k st (fst p))))"
      by (rule record_cases[OF assms(1), of "fst p"]) (use x in simp_all)
    with Cons show ?case by (simp add: case_prod_beta)
  qed simp
  from this[of "ord (ix_index st)" "[]"] show ?thesis by (simp add: collect_records_def m)
qed

text \<open>Tombstones and diffs: the last write of an identifier is read back, the others stay.\<close>

lemma read_record_Ok:
  assumes "records_ok c k B st"
  shows "(case bt_get (ix_index st) i of None \<Rightarrow> Ok None | Some cas \<Rightarrow> get_record k st cas) = Ok (record_at k st i)"
  using assms by (rule record_cases[of c k B st i]) simp_all

lemma read_write_tombstone:
  assumes "records_ok c k B st" "rc_encode k t = Ok b" "b \<in> B"
  shows "read_tombstone k (snd (write_tombstone c k st i t)) j = (if j = i then Ok (Some t) else read_tombstone k st j)"
proof -
  have w: "snd (write_tombstone c k st i t) = st\<lparr>ix_store := snd (memory_put c (ix_store st) b),
      ix_index := bt_insert i (object_id_from_bytes c b) (ix_index st)\<rparr>"
    by (simp add: write_tombstone_def put_record_Ok[OF assms(2)])
  note put = put_indexed_ok[OF assms, of i]
  show ?thesis
    unfolding read_tombstone_def read_record_Ok[OF put(1), folded w] read_record_Ok[OF assms(1)] put(2)[folded w] by simp
qed

lemma load_diff_Ok:
  assumes "records_ok c k B st"
  shows "load_diff k st i = Ok (record_at k st i)"
  using assms by (rule record_cases[of c k B st i]) (simp_all add: load_diff_def)

lemma load_store_diff:
  assumes "records_ok c k B st" "rc_encode k d = Ok b" "b \<in> B"
  shows "load_diff k (snd (store_diff c k st d)) j = (if j = df_id d then Ok (Some d) else load_diff k st j)"
proof -
  have w: "snd (store_diff c k st d) = st\<lparr>ix_store := snd (memory_put c (ix_store st) b),
      ix_index := bt_insert (df_id d) (object_id_from_bytes c b) (ix_index st)\<rparr>"
    by (simp add: store_diff_def put_record_Ok[OF assms(2)])
  note put = put_indexed_ok[OF assms, of "df_id d"]
  show ?thesis
    unfolding load_diff_Ok[OF put(1), folded w] load_diff_Ok[OF assms(1)] put(2)[folded w] by simp
qed

section \<open>The first record of an identifier stands\<close>

locale first_write_store =
  fixes inv :: "'s \<Rightarrow> bool"
    and ok :: "'r \<Rightarrow> bool"
    and key :: "'r \<Rightarrow> ObjectId"
    and lookup :: "'s \<Rightarrow> ObjectId \<Rightarrow> 'r option"
    and add :: "'s \<Rightarrow> 'r \<Rightarrow> 's"
  assumes inv_add: "inv s \<Longrightarrow> ok r \<Longrightarrow> inv (add s r)"
    and lookup_add: "inv s \<Longrightarrow> ok r \<Longrightarrow>
      lookup (add s r) = (if lookup s (key r) = None then (lookup s)(key r \<mapsto> r) else lookup s)"
    and lookup_key: "inv s \<Longrightarrow> lookup s i = Some r \<Longrightarrow> key r = i"
begin

lemma inv_adds: "inv s \<Longrightarrow> list_all ok rs \<Longrightarrow> inv (fold (\<lambda>r s. add s r) rs s)"
  by (induction rs arbitrary: s) (simp_all add: inv_add)

lemma lookup_adds:
  assumes "inv s" "list_all ok rs"
  shows "lookup (fold (\<lambda>r s. add s r) rs s) i =
    (case lookup s i of Some r \<Rightarrow> Some r | None \<Rightarrow> find (\<lambda>r. key r = i) rs)"
  using assms
proof (induction rs arbitrary: s)
  case Nil
  show ?case by (simp split: option.split)
next
  case (Cons r rs)
  then show ?case by (simp add: inv_add lookup_add split: option.split)
qed

text \<open>Records under identifiers already taken change nothing.\<close>

lemma lookup_repeat:
  assumes "inv s" "list_all ok (rs @ rs')" "key ` set rs' \<subseteq> key ` set rs"
  shows "lookup (fold (\<lambda>r s. add s r) (rs @ rs') s) = lookup (fold (\<lambda>r s. add s r) rs s)"
proof
  fix i
  have none: "find (\<lambda>r. key r = i) rs' = None" if "find (\<lambda>r. key r = i) rs = None"
  proof -
    from that have "i \<notin> key ` set rs" by (auto simp: find_None)
    with assms(3) have "i \<notin> key ` set rs'" by blast
    then show ?thesis by (auto simp: find_None)
  qed
  have all: "list_all ok rs" using assms(2) by simp
  have eq: "find (\<lambda>r. key r = i) (rs @ rs') = find (\<lambda>r. key r = i) rs"
    using none by (simp add: find_append split: option.split)
  show "lookup (fold (\<lambda>r s. add s r) (rs @ rs') s) i = lookup (fold (\<lambda>r s. add s r) rs s) i"
    unfolding lookup_adds[OF assms(1,2)] lookup_adds[OF assms(1) all] eq ..
qed

end

definition keyed_map :: "('r \<Rightarrow> 'k) \<Rightarrow> ('k::linorder, 'r) btree_map \<Rightarrow> bool" where
  "keyed_map key m \<longleftrightarrow> bt_inv m \<and> (\<forall>i r. bt_get m i = Some r \<longrightarrow> key r = i)"

definition keyed_records ::
  "Codec \<Rightarrow> 'r RecordCodec \<Rightarrow> u8 list set \<Rightarrow> ('r \<Rightarrow> ObjectId) \<Rightarrow> IndexedStore \<Rightarrow> bool" where
  "keyed_records c k B key st \<longleftrightarrow>
     records_ok c k B st \<and> (\<forall>i r. record_at k st i = Some r \<longrightarrow> key r = i)"

abbreviation encodable :: "'r RecordCodec \<Rightarrow> u8 list set \<Rightarrow> 'r \<Rightarrow> bool" where
  "encodable k B r \<equiv> \<exists>b \<in> B. rc_encode k r = Ok b"

lemma keyed_map_add:
  assumes "keyed_map key m"
  shows "keyed_map key (bt_or_insert (key r) r m)"
    "bt_get (bt_or_insert (key r) r m) = (if bt_get m (key r) = None then (bt_get m)(key r \<mapsto> r) else bt_get m)"
  using assms by (auto simp: keyed_map_def fun_eq_iff split: if_splits option.splits)

lemma keyed_records_add:
  assumes "keyed_records c k B key st" "encodable k B r"
    and "\<And>b. rc_encode k r = Ok b \<Longrightarrow> st' = st\<lparr>ix_store := snd (memory_put c (ix_store st) b),
      ix_index := bt_or_insert (key r) (object_id_from_bytes c b) (ix_index st)\<rparr>"
  shows "keyed_records c k B key st'"
    "record_at k st' = (if record_at k st (key r) = None then (record_at k st)(key r \<mapsto> r) else record_at k st)"
proof -
  from assms(2) obtain b where b: "rc_encode k r = Ok b" "b \<in> B" by blast
  have ok: "records_ok c k B st" and keys: "\<And>i r. record_at k st i = Some r \<Longrightarrow> key r = i"
    using assms(1) by (auto simp: keyed_records_def)
  note put = put_first_ok[OF ok b, of "key r", folded assms(3)[OF b(1)]]
  show "record_at k st' = (if record_at k st (key r) = None then (record_at k st)(key r \<mapsto> r) else record_at k st)"
    by (rule put(2))
  with put(1) keys show "keyed_records c k B key st'"
    by (auto simp: keyed_records_def split: if_splits)
qed

interpretation approval_reg: first_write_store "keyed_map ap_id" "\<lambda>_. True" ap_id bt_get
    "\<lambda>g r. snd (registry_store_approval g r)"
proof
  show "ap_id r = i" if "keyed_map ap_id m" "bt_get m i = Some r" for m i r
    using that by (simp add: keyed_map_def)
qed (simp_all add: registry_store_approval_def keyed_map_add)

interpretation assumption_reg: first_write_store "keyed_map as_id" "\<lambda>_. True" as_id bt_get
    "\<lambda>g r. snd (registry_store_assumption g r)"
proof
  show "as_id r = i" if "keyed_map as_id m" "bt_get m i = Some r" for m i r
    using that by (simp add: keyed_map_def)
qed (simp_all add: registry_store_assumption_def keyed_map_add)

interpretation approval_obj: first_write_store "keyed_records c k B ap_id" "encodable k B" ap_id "record_at k"
    "\<lambda>st r. snd (backed_store_approval c k st r)"
  for c k B
proof
  fix s r
  assume s: "keyed_records c k B ap_id s" and r: "encodable k B r"
  note add = keyed_records_add[OF s r, of "snd (backed_store_approval c k s r)"]
  show "keyed_records c k B ap_id (snd (backed_store_approval c k s r))"
    by (rule add(1)) (simp add: backed_store_approval_def put_record_Ok)
  show "record_at k (snd (backed_store_approval c k s r)) =
      (if record_at k s (ap_id r) = None then (record_at k s)(ap_id r \<mapsto> r) else record_at k s)"
    by (rule add(2)) (simp add: backed_store_approval_def put_record_Ok)
qed (simp add: keyed_records_def)

interpretation assumption_obj: first_write_store "keyed_records c k B as_id" "encodable k B" as_id "record_at k"
    "\<lambda>st r. snd (backed_store_assumption c k st r)"
  for c k B
proof
  fix s r
  assume s: "keyed_records c k B as_id s" and r: "encodable k B r"
  note add = keyed_records_add[OF s r, of "snd (backed_store_assumption c k s r)"]
  show "keyed_records c k B as_id (snd (backed_store_assumption c k s r))"
    by (rule add(1)) (simp add: backed_store_assumption_def put_record_Ok)
  show "record_at k (snd (backed_store_assumption c k s r)) =
      (if record_at k s (as_id r) = None then (record_at k s)(as_id r \<mapsto> r) else record_at k s)"
    by (rule add(2)) (simp add: backed_store_assumption_def put_record_Ok)
qed (simp add: keyed_records_def)

section \<open>Sorted listings do not depend on the iteration order\<close>

lemma sort_key_same_set:
  assumes "distinct xs" "distinct ys" "set xs = set ys" "inj_on f (set xs)"
  shows "sort_key f xs = sort_key f ys"
proof -
  have "mset xs = mset ys" using assms(1-3) by (simp add: set_eq_iff_mset_eq_distinct)
  then show ?thesis
    by (intro sort_key_inj_key_eq) (use assms in simp_all)
qed

lemma keyed_map_values:
  assumes "keyed_map key m" "hash_iteration ord"
  shows "distinct (map snd (ord m))" "set (map snd (ord m)) = ran (bt_get m)"
proof -
  have mm: "mset (ord m) = mset m" using assms(2) by (simp add: hash_iteration_def)
  have inv: "bt_inv m" using assms(1) by (simp add: keyed_map_def)
  have mem: "p \<in> set (ord m) \<longleftrightarrow> bt_get m (fst p) = Some (snd p)" for p
    using bt_get_mem[OF inv, of "fst p" "snd p"] mset_eq_setD[OF mm] by simp
  have keys: "map key (map snd (ord m)) = map fst (ord m)"
    using mem assms(1) by (auto simp: keyed_map_def)
  have "mset (map fst (ord m)) = mset (map fst m)" unfolding mset_map mm ..
  with bt_distinct_keys[OF inv] have "distinct (map fst (ord m))" by (metis mset_eq_imp_distinct_iff)
  with keys show "distinct (map snd (ord m))" by (metis distinct_map)
  show "set (map snd (ord m)) = ran (bt_get m)" using mem by (force simp: ran_def)
qed

lemma keyed_records_values:
  assumes "keyed_records c k B key st" "hash_iteration ord"
  obtains vs where "collect_records k st (ord (ix_index st)) = Ok vs" "distinct vs" "set vs = ran (record_at k st)"
proof -
  let ?m = "ix_index st"
  let ?vs = "map (\<lambda>p. the (record_at k st (fst p))) (ord ?m)"
  have ok: "records_ok c k B st" and inv: "bt_inv ?m"
    using assms(1) by (auto simp: keyed_records_def records_ok_def)
  have mm: "mset (ord ?m) = mset ?m" using assms(2) by (simp add: hash_iteration_def)
  have mem: "p \<in> set (ord ?m) \<longleftrightarrow> bt_get ?m (fst p) = Some (snd p)" for p
    using bt_get_mem[OF inv, of "fst p" "snd p"] mset_eq_setD[OF mm] by simp
  have get: "\<exists>r. record_at k st (fst p) = Some r \<and> key r = fst p" if "p \<in> set (ord ?m)" for p
  proof -
    from that mem record_at_None[OF ok, of "fst p"] obtain r where r: "record_at k st (fst p) = Some r" by auto
    with assms(1) show ?thesis by (simp add: keyed_records_def)
  qed
  have keys: "map key ?vs = map fst (ord ?m)"
    unfolding map_map by (rule map_cong[OF refl]) (auto dest!: get)
  have "mset (map fst (ord ?m)) = mset (map fst ?m)" unfolding mset_map mm ..
  with bt_distinct_keys[OF inv] have "distinct (map fst (ord ?m))" by (metis mset_eq_imp_distinct_iff)
  with keys have "distinct ?vs" by (metis distinct_map)
  moreover have "set ?vs = ran (record_at k st)"
  proof
    show "set ?vs \<subseteq> ran (record_at k st)" by (auto dest!: get simp: ran_def)
    show "ran (record_at k st) \<subseteq> set ?vs"
    proof
      fix r assume "r \<in> ran (record_at k st)"
      then obtain i where i: "record_at k st i = Some r" by (auto simp: ran_def)
      with record_at_None[OF ok, of i] obtain cas where "bt_get ?m i = Some cas" by auto
      with mem[of "(i, cas)"] have "(i, cas) \<in> set (ord ?m)" by simp
      then have "the (record_at k st (fst (i, cas))) \<in> set ?vs" unfolding set_map by (rule imageI)
      with i show "r \<in> set ?vs" by simp
    qed
  qed
  ultimately show thesis by (rule that[OF collect_records_Ok[OF ok assms(2)]])
qed

text \<open>Branch and tag registries stay keyed by name, and list every pointer once.\<close>

lemma keyed_map_Nil: "keyed_map key []"
  by (simp add: keyed_map_def)

lemma keyed_map_insert: "keyed_map key m \<Longrightarrow> key r = i \<Longrightarrow> keyed_map key (bt_insert i r m)"
  by (auto simp: keyed_map_def split: if_splits)

lemma keyed_map_remove: "keyed_map key m \<Longrightarrow> keyed_map key (bt_remove i m)"
  by (auto simp: keyed_map_def split: if_splits)

lemma branch_ops_keyed:
  assumes "keyed_map br_name g"
  shows "keyed_map br_name (snd (create_branch g n t a))" "keyed_map br_name (snd (update_branch g n t))"
    "keyed_map br_name (snd (delete_branch g n))"
proof -
  show "keyed_map br_name (snd (create_branch g n t a))" "keyed_map br_name (snd (delete_branch g n))"
    by (simp_all add: create_branch_def delete_branch_def Let_def keyed_map_insert keyed_map_remove assms)
  show "keyed_map br_name (snd (update_branch g n t))"
  proof (cases "bt_get g n")
    case (Some b)
    with assms have "br_name b = n" by (simp add: keyed_map_def)
    with Some show ?thesis by (simp add: update_branch_def Let_def keyed_map_insert assms)
  qed (simp add: update_branch_def assms)
qed

lemma tag_ops_keyed:
  assumes "keyed_map tg_name g"
  shows "keyed_map tg_name (snd (create_tag g n t a m))" "keyed_map tg_name (snd (delete_tag g n))"
  by (simp_all add: create_tag_def delete_tag_def Let_def keyed_map_insert keyed_map_remove assms)

lemma keyed_map_same_name:
  assumes "keyed_map key m" "x \<in> ran (bt_get m)" "y \<in> ran (bt_get m)" "key x = key y"
  shows "x = y"
proof -
  from assms(2,3) obtain i j where ij: "bt_get m i = Some x" "bt_get m j = Some y" by (auto simp: ran_def)
  with assms(1) have "key x = i" "key y = j" by (auto simp: keyed_map_def)
  with ij assms(4) show ?thesis by simp
qed

lemma list_branches_Ok:
  assumes "keyed_map br_name g" "hash_iteration ord"
  obtains bs where "list_branches ord g = Ok bs" "set bs = ran (bt_get g)"
    "sorted (map (\<lambda>b. (br_created_at b, br_name b)) bs)"
    "\<And>ord'. hash_iteration ord' \<Longrightarrow> list_branches ord' g = Ok bs"
proof (rule that[OF list_branches_def])
  show "set (sort_key (\<lambda>b. (br_created_at b, br_name b)) (map snd (ord g))) = ran (bt_get g)"
    using keyed_map_values(2)[OF assms] by simp
  fix ord' :: "(string \<times> Branch) list \<Rightarrow> (string \<times> Branch) list"
  assume o': "hash_iteration ord'"
  note v = keyed_map_values[OF assms] and v' = keyed_map_values[OF assms(1) o']
  have "inj_on (\<lambda>b. (br_created_at b, br_name b)) (ran (bt_get g))"
    by (rule inj_onI) (use keyed_map_same_name[OF assms(1)] in simp)
  with v v' have "sort_key (\<lambda>b. (br_created_at b, br_name b)) (map snd (ord' g)) =
      sort_key (\<lambda>b. (br_created_at b, br_name b)) (map snd (ord g))"
    by (intro sort_key_same_set) simp_all
  then show "list_branches ord' g = Ok (sort_key (\<lambda>b. (br_created_at b, br_name b)) (map snd (ord g)))"
    by (simp add: list_branches_def)
qed simp

lemma list_tags_Ok:
  assumes "keyed_map tg_name g" "hash_iteration ord"
  shows "\<exists>ts. list_tags ord g = Ok ts \<and> set ts = ran (bt_get g)"
  using keyed_map_values(2)[OF assms] by (simp add: list_tags_def)

text \<open>A tag never moves: creating the name again is refused and changes nothing.\<close>

lemma create_tag_existing:
  assumes "get_tag g n = Ok (Some t)"
  shows "snd (create_tag g n s a m) = g" "\<exists>e. fst (create_tag g n s a m) = Err e"
  using assms by (simp_all add: get_tag_def create_tag_def bt_contains_key_def)

lemma same_listing:
  assumes "keyed_records c k B key st" "keyed_map key g" "record_at k st = bt_get g"
    and "hash_iteration ord" "hash_iteration ord'" "inj_on f (ran (bt_get g))"
  shows "\<exists>vs. collect_records k st (ord (ix_index st)) = Ok vs \<and> sort_key f vs = sort_key f (map snd (ord' g))"
proof -
  obtain vs where vs: "collect_records k st (ord (ix_index st)) = Ok vs" "distinct vs" "set vs = ran (record_at k st)"
    by (rule keyed_records_values[OF assms(1,4)])
  have "sort_key f vs = sort_key f (map snd (ord' g))"
    by (rule sort_key_same_set) (use vs(2,3) assms(3,6) keyed_map_values[OF assms(2,5)] in simp_all)
  with vs(1) show ?thesis by blast
qed

definition sample_approval :: "u64 \<Rightarrow> ApprovalRecord" where
  "sample_approval t =
     \<lparr>ap_id = [5], ap_subject_change_id = [6], ap_canonical_change_hash = [7], ap_approver_role = ''role:maintainer'',
      ap_approves_scope = ''public_api_changed'', ap_timestamp = t\<rparr>"

definition sample_assumption :: "AssumptionStatus \<Rightarrow> AssumptionRecord" where
  "sample_assumption s =
     \<lparr>as_id = [4], as_boundary_id = [3], as_status = s, as_expires_at = None, as_owner = ''team''\<rparr>"

section \<open>Properties\<close>

text \<open>
  C25. The object-backed approval store refines the in-memory registry. After
  storing any records, both return, for an identifier, the first record stored
  under it, and both list the same records in the same order, whatever order
  their maps iterate in. The index lives in the store value only: a store opened
  anew over the same objects finds none of the approvals.
\<close>

theorem approval_store_refines_registry:
  assumes "codec_lawful k" "hash_iteration ord" "hash_iteration ord'"
    and "list_all (\<lambda>r. \<exists>b. rc_encode k r = Ok b) rs"
    and "inj_on (object_id_from_bytes c) {b. \<exists>r \<in> set rs. rc_encode k r = Ok b}"
    and "st = fold (\<lambda>r st. snd (backed_store_approval c k st r)) rs (indexed_store_new memory_store_new)"
    and "g = fold (\<lambda>r g. snd (registry_store_approval g r)) rs []"
  shows "registry_get_approval g i = Ok (find (\<lambda>r. ap_id r = i) rs) \<and>
    backed_get_approval k st i = registry_get_approval g i \<and>
    backed_list_approvals k ord st = registry_list_approvals ord' g \<and>
    backed_get_approval k (indexed_store_new (ix_store st)) i = Ok None"
proof -
  let ?B = "{b. \<exists>r \<in> set rs. rc_encode k r = Ok b}"
  have enc: "list_all (encodable k ?B) rs" using assms(4) unfolding list_all_iff by blast
  have all: "list_all (\<lambda>_. True) rs" by (simp add: list_all_iff)
  have new: "keyed_records c k ?B ap_id (indexed_store_new memory_store_new)"
    using records_new_ok(1)[OF assms(1,5)] by (simp add: keyed_records_def records_new_ok(2))
  have st: "keyed_records c k ?B ap_id st"
    unfolding assms(6) by (rule approval_obj.inv_adds[OF new enc])
  have g: "keyed_map ap_id g"
    unfolding assms(7) by (rule approval_reg.inv_adds[OF keyed_map_Nil all])
  have at: "record_at k st i = find (\<lambda>r. ap_id r = i) rs" for i
    unfolding assms(6) approval_obj.lookup_adds[OF new enc] by (simp add: records_new_ok(2))
  have reg: "bt_get g i = find (\<lambda>r. ap_id r = i) rs" for i
    unfolding assms(7) approval_reg.lookup_adds[OF keyed_map_Nil all] by simp
  have "record_at k st = bt_get g" by (rule ext) (simp only: at reg)
  note list = same_listing[OF st g this assms(2,3)]
  have "inj_on (\<lambda>r. (ap_timestamp r, ap_id r)) (ran (bt_get g))"
    by (rule inj_onI) (use keyed_map_same_name[OF g] in simp)
  from list[OF this] have "backed_list_approvals k ord st = registry_list_approvals ord' g"
    by (auto simp only: backed_list_approvals_def registry_list_approvals_def rbind_simps)
  moreover have "backed_get_approval k st i = Ok (record_at k st i)"
    unfolding backed_get_approval_def by (rule read_record_Ok[of c k ?B]) (use st in \<open>simp add: keyed_records_def\<close>)
  moreover have "backed_get_approval k (indexed_store_new (ix_store st)) i = Ok None"
    by (simp add: backed_get_approval_def indexed_store_new_def)
  ultimately show ?thesis by (simp add: at reg registry_get_approval_def)
qed

theorem approval_store_refines_registry_witness:
  "\<exists>r. backed_get_approval (table_codec [(sample_approval 7, [1]), (sample_approval 8, [2])])
     (fold (\<lambda>r st. snd (backed_store_approval identity_codec
         (table_codec [(sample_approval 7, [1]), (sample_approval 8, [2])]) st r))
       [sample_approval 7, sample_approval 8] (indexed_store_new memory_store_new)) [5] = Ok (Some r) \<and>
     ap_timestamp r = 7"
proof -
  let ?k = "table_codec [(sample_approval 7, [1]), (sample_approval 8, [2])]"
  have law: "codec_lawful ?k" by (rule table_codec_lawful) simp
  have enc: "list_all (\<lambda>r. \<exists>b. rc_encode ?k r = Ok b) [sample_approval 7, sample_approval 8]"
    by (simp add: table_codec_def)
  from approval_store_refines_registry[OF law hash_iteration_rev hash_iteration_id enc identity_codec_inj refl refl, of "[5]"]
  show ?thesis by (simp add: sample_approval_def)
qed

text \<open>
  C26. The verification gate over stored assumptions. A store that received the
  assumptions \<^term>\<open>rs\<close> and then records under the same identifiers lists exactly
  the first record of every identifier, and the gate on this listing passes iff
  none of them is expired, revoked or past its expiry, and otherwise reports the
  offenders in order. A revocation stored under an identifier that is already
  taken therefore does not reach the gate.
\<close>

theorem gate_over_stored_assumptions:
  assumes "codec_lawful k" "hash_iteration ord"
    and "list_all (\<lambda>r. \<exists>b. rc_encode k r = Ok b) (rs @ rs')"
    and "inj_on (object_id_from_bytes c) {b. \<exists>r \<in> set (rs @ rs'). rc_encode k r = Ok b}"
    and "as_id ` set rs' \<subseteq> as_id ` set rs"
    and "st = fold (\<lambda>r st. snd (backed_store_assumption c k st r)) (rs @ rs') (indexed_store_new memory_store_new)"
  shows "\<exists>as. backed_list_assumptions k ord st = Ok as \<and>
    set as = {r. find (\<lambda>x. as_id x = as_id r) rs = Some r} \<and>
    evaluate_verification_gate as now =
      (if {r \<in> set as. assumption_failed now r} = {} then Pass
       else Fail (sorted_list_of_set (as_id ` {r \<in> set as. assumption_failed now r})))"
proof -
  let ?B = "{b. \<exists>r \<in> set (rs @ rs'). rc_encode k r = Ok b}"
  have enc: "list_all (encodable k ?B) (rs @ rs')" using assms(3) unfolding list_all_iff by blast
  then have enc1: "list_all (encodable k ?B) rs" by simp
  have new: "keyed_records c k ?B as_id (indexed_store_new memory_store_new)"
    using records_new_ok(1)[OF assms(1,4)] by (simp add: keyed_records_def records_new_ok(2))
  have st: "keyed_records c k ?B as_id st"
    unfolding assms(6) by (rule assumption_obj.inv_adds[OF new enc])
  have at: "record_at k st i = find (\<lambda>r. as_id r = i) rs" for i
    unfolding assms(6) assumption_obj.lookup_repeat[OF new enc assms(5)] assumption_obj.lookup_adds[OF new enc1]
    by (simp add: records_new_ok(2))
  obtain vs where vs: "collect_records k st (ord (ix_index st)) = Ok vs" "distinct vs" "set vs = ran (record_at k st)"
    by (rule keyed_records_values[OF st assms(2)])
  let ?as = "sort_key as_id vs"
  have mem: "r \<in> set vs \<longleftrightarrow> find (\<lambda>x. as_id x = as_id r) rs = Some r" for r
    unfolding vs(3) ran_def at using find_Some_mem by fastforce
  have "inj_on as_id (set vs)" by (rule inj_onI) (simp add: mem)
  then have d: "distinct (map as_id (filter P ?as))" for P
    using vs(2) by (simp add: distinct_map inj_on_def)
  have "evaluate_verification_gate ?as now =
      (if {r \<in> set ?as. assumption_failed now r} = {} then Pass
       else Fail (sorted_list_of_set (as_id ` {r \<in> set ?as. assumption_failed now r})))"
    using sorted_list_of_set_sort_remdups[of "map as_id (filter (assumption_failed now) ?as)"]
      distinct_remdups_id[OF d]
    by (auto simp: evaluate_verification_gate_def Let_def filter_empty_conv)
  moreover have "backed_list_assumptions k ord st = Ok ?as"
    by (simp add: backed_list_assumptions_def vs(1))
  ultimately show ?thesis using mem by (intro exI[of _ ?as]) auto
qed

theorem gate_over_stored_assumptions_witness:
  "\<exists>as. backed_list_assumptions (table_codec [(sample_assumption Active, [1]), (sample_assumption Revoked, [2])]) rev
     (fold (\<lambda>r st. snd (backed_store_assumption identity_codec
         (table_codec [(sample_assumption Active, [1]), (sample_assumption Revoked, [2])]) st r))
       ([sample_assumption Active] @ [sample_assumption Revoked]) (indexed_store_new memory_store_new)) = Ok as \<and>
     evaluate_verification_gate as (Some 9) = Pass"
proof -
  let ?k = "table_codec [(sample_assumption Active, [1]), (sample_assumption Revoked, [2])]"
  let ?st = "fold (\<lambda>r st. snd (backed_store_assumption identity_codec ?k st r))
    ([sample_assumption Active] @ [sample_assumption Revoked]) (indexed_store_new memory_store_new)"
  have law: "codec_lawful ?k" by (rule table_codec_lawful) simp
  have enc: "list_all (\<lambda>r. \<exists>b. rc_encode ?k r = Ok b) ([sample_assumption Active] @ [sample_assumption Revoked])"
    by (simp add: table_codec_def)
  have sub: "as_id ` set [sample_assumption Revoked] \<subseteq> as_id ` set [sample_assumption Active]"
    by (simp add: sample_assumption_def)
  from gate_over_stored_assumptions[OF law hash_iteration_rev enc identity_codec_inj sub refl, of "Some 9"]
  obtain as where as: "backed_list_assumptions ?k rev ?st = Ok as"
    "set as = {r. find (\<lambda>x. as_id x = as_id r) [sample_assumption Active] = Some r}"
    "evaluate_verification_gate as (Some 9) =
      (if {r \<in> set as. assumption_failed (Some 9) r} = {} then Pass
       else Fail (sorted_list_of_set (as_id ` {r \<in> set as. assumption_failed (Some 9) r})))"
    by blast
  have "set as \<subseteq> {sample_assumption Active}" unfolding as(2) by auto
  moreover have "\<not> assumption_failed (Some 9) (sample_assumption Active)"
    by (simp add: assumption_failed_def sample_assumption_def)
  ultimately have "{r \<in> set as. assumption_failed (Some 9) r} = {}" by blast
  with as(1,3) show ?thesis by auto
qed

end
