(* ===== verification/Retention.thy ===== *)
theory Retention
  imports Storage_Records
begin

text \<open>
  Which snapshots are kept (\<^verbatim>\<open>crates/ail-storage/src/retention.rs\<close>): the
  policy with its saturating 64-bit arithmetic, the holds of branches, tags and
  audits, the walk over the ancestry of the branches, and the policy diagnostics.
  The lemmas give the age rule without machine arithmetic and the holds as
  reachability along parent links.
\<close>

section \<open>Retention policy\<close>

definition MILLIS_PER_DAY :: u64 where
  "MILLIS_PER_DAY = 86400000"

text \<open>\<^verbatim>\<open>u64::saturating_mul\<close>, \<^verbatim>\<open>u64::saturating_sub\<close> and \<^verbatim>\<open>u64::checked_mul\<close>.\<close>

definition checked_mul :: "u64 \<Rightarrow> u64 \<Rightarrow> u64 option" where
  "checked_mul a b = (if unat a * unat b \<le> unat (- 1 :: u64) then Some (a * b) else None)"

definition saturating_mul :: "u64 \<Rightarrow> u64 \<Rightarrow> u64" where
  "saturating_mul a b = (case checked_mul a b of Some r \<Rightarrow> r | None \<Rightarrow> - 1)"

definition saturating_sub :: "u64 \<Rightarrow> u64 \<Rightarrow> u64" where
  "saturating_sub a b = (if b \<le> a then a - b else 0)"

record RetentionPolicy =
  rp_max_age_days :: "u64 option"
  rp_keep_releases :: bool
  rp_keep_tagged :: bool

definition within_age :: "RetentionPolicy \<Rightarrow> SnapshotEnvelope \<Rightarrow> u64 \<Rightarrow> bool" where
  "within_age policy snap now_ms =
     (case rp_max_age_days policy of
        Some max_days \<Rightarrow>
          (let max_age_ms = saturating_mul max_days MILLIS_PER_DAY;
               cutoff = saturating_sub now_ms max_age_ms
           in cutoff \<le> se_created_at snap)
      | None \<Rightarrow> False)"

definition is_retained :: "RetentionPolicy \<Rightarrow> SnapshotEnvelope \<Rightarrow> u64 \<Rightarrow> bool" where
  "is_retained policy snap now_ms =
     (if rp_keep_releases policy \<and> se_parent_id snap = None then True
      else if rp_keep_tagged policy \<and> se_applied_change_id snap \<noteq> None then True
      else within_age policy snap now_ms)"

section \<open>Holds\<close>

record SnapshotHolds =
  sh_branch_heads :: "ObjectId list"
  sh_tag_locks :: "ObjectId list"
  sh_audit_holds :: "ObjectId list"

definition is_held :: "SnapshotHolds \<Rightarrow> ObjectId \<Rightarrow> bool" where
  "is_held h i \<longleftrightarrow> i \<in> set (sh_branch_heads h) \<or> i \<in> set (sh_tag_locks h) \<or> i \<in> set (sh_audit_holds h)"

definition as_set :: "SnapshotHolds \<Rightarrow> ObjectId set" where
  "as_set h = set (sh_branch_heads h) \<union> set (sh_tag_locks h) \<union> set (sh_audit_holds h)"

type_synonym branch_order = "(string \<times> Branch) list \<Rightarrow> (string \<times> Branch) list"
type_synonym tag_order = "(string \<times> Tag) list \<Rightarrow> (string \<times> Tag) list"

definition collect_branch_holds :: "branch_order \<Rightarrow> BranchRegistry \<Rightarrow> (StorageError, ObjectId list) result" where
  "collect_branch_holds ord g = rbind (list_branches ord g) (\<lambda>bs. Ok (map br_target_snapshot_id bs))"

definition collect_tag_holds :: "tag_order \<Rightarrow> TagRegistry \<Rightarrow> (StorageError, ObjectId list) result" where
  "collect_tag_holds ord g = rbind (list_tags ord g) (\<lambda>ts. Ok (map tg_snapshot_id ts))"

definition parent_link :: "(ObjectId, ObjectId option) btree_map \<Rightarrow> ObjectId \<Rightarrow> ObjectId option" where
  "parent_link parent_map i = (case bt_get parent_map i of Some p \<Rightarrow> p | None \<Rightarrow> None)"

lemma parent_link_key: "parent_link m i = Some p \<Longrightarrow> i \<in> fst ` set m"
  by (force simp: parent_link_def bt_get_def split: option.splits dest: map_of_SomeD)

text \<open>The walk from one branch head: stop at an identifier that is already held.\<close>

function hold_chain ::
  "(ObjectId, ObjectId option) btree_map \<Rightarrow> ObjectId option \<Rightarrow> ObjectId set \<Rightarrow> ObjectId set" where
  "hold_chain parent_map None held = held"
| "hold_chain parent_map (Some i) held =
     (if i \<in> held then held else hold_chain parent_map (parent_link parent_map i) (insert i held))"
  by pat_completeness auto

termination
proof (relation "measures [\<lambda>(m, _, h). card (fst ` set m - h), \<lambda>(_, cur, _). if cur = None then 0 else 1]",
    goal_cases)
  case (2 m i h)
  show ?case
  proof (cases "parent_link m i")
    case None
    have "card (fst ` set m - insert i h) \<le> card (fst ` set m - h)" by (rule card_mono) auto
    with None show ?thesis by auto
  next
    case (Some p)
    have "card (fst ` set m - insert i h) < card (fst ` set m - h)"
      by (rule psubset_card_mono) (use 2 parent_link_key[OF Some] in auto)
    then show ?thesis by simp
  qed
qed simp

definition collect_branch_holds_with_ancestry ::
  "SnapshotEnvelope RecordCodec \<Rightarrow> branch_order \<Rightarrow> iter_order \<Rightarrow> BranchRegistry \<Rightarrow> ObjectBackedGraphStore
    \<Rightarrow> (StorageError, ObjectId list) result" where
  "collect_branch_holds_with_ancestry k bord ord g st =
     rbind (list_branches bord g) (\<lambda>branches.
       if branches = [] then Ok []
       else rbind (list_snapshots k ord st) (\<lambda>all_snapshots.
         let parent_map = bt_collect (map (\<lambda>s. (se_id s, se_parent_id s)) all_snapshots)
         in Ok (sorted_list_of_set
              (fold (\<lambda>b held. hold_chain parent_map (Some (br_target_snapshot_id b)) held) branches {}))))"

section \<open>Policy diagnostics\<close>

record RetentionPolicyIssueDescriptor =
  rd_code :: string
  rd_category :: string
  rd_severity :: string
  rd_subject :: string
  rd_reason :: string
  rd_snapshot_ordinal :: "u64 option"
  rd_message :: string

definition invalid_window_zero :: RetentionPolicyIssueDescriptor where
  "invalid_window_zero =
     \<lparr>rd_code = ''retention.policy.max_age_zero'', rd_category = ''retention.policy.invalid_window'',
      rd_severity = ''error'', rd_subject = ''policy'', rd_reason = ''max_age_days_zero'',
      rd_snapshot_ordinal = None, rd_message = ''retention max_age_days must be greater than zero''\<rparr>"

definition invalid_window_overflow :: RetentionPolicyIssueDescriptor where
  "invalid_window_overflow =
     \<lparr>rd_code = ''retention.policy.max_age_overflow'', rd_category = ''retention.policy.invalid_window'',
      rd_severity = ''error'', rd_subject = ''policy'', rd_reason = ''max_age_days_overflow'',
      rd_snapshot_ordinal = None, rd_message = ''retention max_age_days exceeds millisecond window capacity''\<rparr>"

definition snapshot_protected :: "u64 \<Rightarrow> string \<Rightarrow> RetentionPolicyIssueDescriptor" where
  "snapshot_protected ordinal reason =
     \<lparr>rd_code = ''retention.snapshot.protected'', rd_category = ''retention.snapshot.protected'',
      rd_severity = ''info'', rd_subject = ''snapshot'', rd_reason = reason,
      rd_snapshot_ordinal = Some ordinal,
      rd_message = ''snapshot is protected by retention policy or explicit hold''\<rparr>"

definition snapshot_prune_eligible :: "u64 \<Rightarrow> RetentionPolicyIssueDescriptor" where
  "snapshot_prune_eligible ordinal =
     \<lparr>rd_code = ''retention.snapshot.prune_eligible'', rd_category = ''retention.snapshot.prune_eligible'',
      rd_severity = ''info'', rd_subject = ''snapshot'', rd_reason = ''unprotected'',
      rd_snapshot_ordinal = Some ordinal, rd_message = ''snapshot is eligible for pruning''\<rparr>"

definition issue_phase :: "RetentionPolicyIssueDescriptor \<Rightarrow> nat" where
  "issue_phase d = (if rd_snapshot_ordinal d \<noteq> None then 1 else 0)"

definition code_ord :: "RetentionPolicyIssueDescriptor \<Rightarrow> nat" where
  "code_ord d =
     (if rd_code d = ''retention.policy.max_age_zero'' then 0
      else if rd_code d = ''retention.policy.max_age_overflow'' then 1
      else if rd_code d = ''retention.snapshot.protected'' then 2
      else if rd_code d = ''retention.snapshot.prune_eligible'' then 3 else 255)"

definition validate_retention_policy :: "RetentionPolicy \<Rightarrow> RetentionPolicyIssueDescriptor list" where
  "validate_retention_policy policy =
     (case rp_max_age_days policy of
        None \<Rightarrow> []
      | Some max_age_days \<Rightarrow>
          (if max_age_days = 0 then [invalid_window_zero] else []) @
          (if checked_mul max_age_days MILLIS_PER_DAY = None then [invalid_window_overflow] else []))"

definition snapshot_retention_reason ::
  "SnapshotEnvelope \<Rightarrow> RetentionPolicy \<Rightarrow> ObjectId set \<Rightarrow> ObjectId set \<Rightarrow> ObjectId set \<Rightarrow> u64 \<Rightarrow> string option" where
  "snapshot_retention_reason snap policy branch_holds tag_holds audit_holds now_ms =
     (if se_id snap \<in> branch_holds then Some ''branch_hold''
      else if se_id snap \<in> tag_holds then Some ''tag_hold''
      else if se_id snap \<in> audit_holds then Some ''audit_hold''
      else if rp_keep_releases policy \<and> se_parent_id snap = None then Some ''release''
      else if rp_keep_tagged policy \<and> se_applied_change_id snap \<noteq> None then Some ''tagged_change''
      else if within_age policy snap now_ms then Some ''age_window''
      else None)"

definition sort_retention_issue_descriptors ::
  "RetentionPolicyIssueDescriptor list \<Rightarrow> RetentionPolicyIssueDescriptor list" where
  "sort_retention_issue_descriptors =
     sort_key (\<lambda>d. (issue_phase d, rd_snapshot_ordinal d, code_ord d, rd_reason d, rd_message d))"

definition by_time :: "SnapshotEnvelope list \<Rightarrow> SnapshotEnvelope list" where
  "by_time = sort_key (\<lambda>s. (se_created_at s, se_id s))"

definition describe_snapshot ::
  "RetentionPolicy \<Rightarrow> SnapshotHolds \<Rightarrow> u64 \<Rightarrow> nat \<times> SnapshotEnvelope \<Rightarrow> RetentionPolicyIssueDescriptor" where
  "describe_snapshot policy holds now_ms p =
     (case snapshot_retention_reason (snd p) policy (set (sh_branch_heads holds)) (set (sh_tag_locks holds))
             (set (sh_audit_holds holds)) now_ms of
        Some reason \<Rightarrow> snapshot_protected (of_nat (fst p)) reason
      | None \<Rightarrow> snapshot_prune_eligible (of_nat (fst p)))"

definition describe_retention_policy_issues ::
  "SnapshotEnvelope list \<Rightarrow> RetentionPolicy \<Rightarrow> SnapshotHolds \<Rightarrow> u64 \<Rightarrow> RetentionPolicyIssueDescriptor list" where
  "describe_retention_policy_issues snapshots policy holds now_ms =
     sort_retention_issue_descriptors
       (validate_retention_policy policy @
        map (describe_snapshot policy holds now_ms) (enumerate 0 (by_time snapshots)))"

record RetentionDiagnosticsReport =
  rr_issues :: "RetentionPolicyIssueDescriptor list"
  rr_snapshots_examined :: u64
  rr_has_errors :: bool

definition diagnose_retention_policy ::
  "SnapshotEnvelope RecordCodec \<Rightarrow> iter_order \<Rightarrow> ObjectBackedGraphStore \<Rightarrow> RetentionPolicy \<Rightarrow> SnapshotHolds \<Rightarrow> u64
    \<Rightarrow> (StorageError, RetentionDiagnosticsReport) result" where
  "diagnose_retention_policy k ord st policy holds now_ms =
     rbind (list_snapshots k ord st) (\<lambda>snapshots.
       let issues = describe_retention_policy_issues snapshots policy holds now_ms
       in Ok \<lparr>rr_issues = issues, rr_snapshots_examined = of_nat (length snapshots),
              rr_has_errors = list_ex (\<lambda>d. rd_severity d = ''error'') issues\<rparr>)"

section \<open>Age window\<close>

lemma unat_le_max: "unat (w :: u64) \<le> unat (- 1 :: u64)"
  by (metis word_le_nat_alt word_n1_ge)

lemma unat_checked_mul:
  assumes "checked_mul a b = Some r"
  shows "unat r = unat a * unat b"
proof -
  have le: "unat a * unat b \<le> unat (- 1 :: u64)" and r: "r = a * b"
    using assms by (auto simp: checked_mul_def split: if_splits)
  have "unat a * unat b < 2 ^ LENGTH(64)" using le unsigned_less[of "- 1 :: u64"] by (rule le_less_trans)
  then show ?thesis by (simp add: r unat_word_ariths)
qed

lemma unat_saturating_sub: "unat (saturating_sub a b) = unat a - unat b"
  by (simp add: saturating_sub_def unat_sub word_le_nat_alt)

lemma within_age_iff:
  "within_age policy snap now \<longleftrightarrow>
     (\<exists>d. rp_max_age_days policy = Some d \<and> unat now \<le> unat (se_created_at snap) + unat d * unat MILLIS_PER_DAY)"
proof (cases "rp_max_age_days policy")
  case (Some d)
  have "within_age policy snap now \<longleftrightarrow>
      unat now \<le> unat (se_created_at snap) + unat (saturating_mul d MILLIS_PER_DAY)"
    by (simp add: within_age_def Some Let_def word_le_nat_alt unat_saturating_sub le_diff_conv)
  also have "\<dots> \<longleftrightarrow> unat now \<le> unat (se_created_at snap) + unat d * unat MILLIS_PER_DAY"
  proof (cases "checked_mul d MILLIS_PER_DAY")
    case None
    then have "unat (- 1 :: u64) < unat d * unat MILLIS_PER_DAY" "saturating_mul d MILLIS_PER_DAY = - 1"
      by (auto simp: checked_mul_def saturating_mul_def not_le split: if_splits)
    with unat_le_max[of now] show ?thesis by (simp add: trans_le_add2)
  next
    case Some: (Some m)
    then have "saturating_mul d MILLIS_PER_DAY = m" by (simp add: saturating_mul_def)
    with unat_checked_mul[OF Some] show ?thesis by simp
  qed
  finally show ?thesis by (simp add: Some)
qed (simp add: within_age_def)

section \<open>Ancestry\<close>

declare hold_chain.simps [simp del]

abbreviation link_rel :: "(ObjectId, ObjectId option) btree_map \<Rightarrow> (ObjectId \<times> ObjectId) set" where
  "link_rel m \<equiv> {(i, p). parent_link m i = Some p}"

lemma hold_chain_reach:
  assumes "\<And>j p. j \<in> held \<Longrightarrow> parent_link m j = Some p \<Longrightarrow> p \<in> held \<or> cur = Some p"
  shows "hold_chain m cur held = held \<union> (case cur of None \<Rightarrow> {} | Some i \<Rightarrow> (link_rel m)\<^sup>* `` {i})"
  using assms
proof (induction m cur held rule: hold_chain.induct)
  case (2 m i held)
  show ?case
  proof (cases "i \<in> held")
    case True
    have "j \<in> held" if "(i, j) \<in> (link_rel m)\<^sup>*" for j
      using that by (induction rule: rtrancl_induct) (use True 2(2) in auto)
    with True show ?thesis by (auto simp: hold_chain.simps(2))
  next
    case False
    have pre: "p \<in> insert i held \<or> parent_link m i = Some p"
      if "j \<in> insert i held" "parent_link m j = Some p" for j p
      using that 2(2)[of j p] by auto
    have step: "(link_rel m)\<^sup>* `` {i} =
        insert i (case parent_link m i of None \<Rightarrow> {} | Some p \<Rightarrow> (link_rel m)\<^sup>* `` {p})"
      by (auto elim: converse_rtranclE intro: converse_rtrancl_into_rtrancl split: option.splits)
    from 2(1)[OF False pre] False step show ?thesis by (simp add: hold_chain.simps(2))
  qed
qed (simp add: hold_chain.simps(1))

lemma hold_chains_reach:
  assumes "\<And>j p. j \<in> held \<Longrightarrow> parent_link m j = Some p \<Longrightarrow> p \<in> held"
  shows "fold (\<lambda>b held. hold_chain m (Some (f b)) held) bs held = held \<union> (link_rel m)\<^sup>* `` (f ` set bs)"
  using assms
proof (induction bs arbitrary: held)
  case (Cons b bs)
  have h: "hold_chain m (Some (f b)) held = held \<union> (link_rel m)\<^sup>* `` {f b}"
    using hold_chain_reach[of held m "Some (f b)"] Cons.prems by simp
  have "p \<in> held \<union> (link_rel m)\<^sup>* `` {f b}"
    if "j \<in> held \<union> (link_rel m)\<^sup>* `` {f b}" "parent_link m j = Some p" for j p
    using that Cons.prems[of j p] by (auto intro: rtrancl_into_rtrancl)
  from Cons.IH[OF this] h show ?case by (simp add: Un_assoc) blast
qed simp

definition snapshot_parents :: "(ObjectId \<rightharpoonup> SnapshotEnvelope) \<Rightarrow> (ObjectId \<times> ObjectId) set" where
  "snapshot_parents m = {(i, p). \<exists>v. m i = Some v \<and> se_parent_id v = Some p}"

lemma parent_map_stored:
  assumes "distinct (map se_id vs)" "\<And>v. v \<in> set vs \<longleftrightarrow> m (se_id v) = Some v" "\<And>i v. m i = Some v \<Longrightarrow> se_id v = i"
  shows "link_rel (bt_collect (map (\<lambda>s. (se_id s, se_parent_id s)) vs)) = snapshot_parents m"
proof -
  have find: "find (\<lambda>v. se_id v = i) vs = m i" for i
  proof (cases "m i")
    case None
    then show ?thesis using assms(2) by (force simp: find_None)
  next
    case (Some v)
    with assms(2)[of v] assms(3)[OF Some] have "v \<in> set vs" "se_id v = i" by auto
    with find_unique_key[OF assms(1)] Some show ?thesis by fastforce
  qed
  have "bt_get (bt_collect (map (\<lambda>s. (se_id s, se_parent_id s)) vs)) i = map_option se_parent_id (m i)" for i
  proof -
    let ?kvs = "map (\<lambda>s. (se_id s, se_parent_id s)) vs"
    have "distinct (map fst ?kvs)" using assms(1) by (simp add: comp_def)
    moreover from this have "distinct (map fst (rev ?kvs))" unfolding rev_map[symmetric] by simp
    ultimately have "map_of (rev ?kvs) = map_of ?kvs" by (subst map_of_inject_set) simp_all
    then show ?thesis by (simp add: bt_get_collect map_of_map_pair find)
  qed
  then show ?thesis by (auto simp: parent_link_def snapshot_parents_def split: option.splits)
qed

text \<open>
  The collected holds are the branch heads and everything reachable from them
  along the parent links of the stored snapshots, in order.
\<close>

lemma collect_ancestry_Ok:
  assumes "graph_store_ok c k B st" "hash_iteration ord" "keyed_map br_name g" "hash_iteration bord"
  shows "collect_branch_holds_with_ancestry k bord ord g st =
    Ok (sorted_list_of_set ((snapshot_parents (stored k st))\<^sup>* `` (br_target_snapshot_id ` ran (bt_get g))))"
proof -
  obtain bs where bs: "list_branches bord g = Ok bs" "set bs = ran (bt_get g)"
    by (rule list_branches_Ok[OF assms(3,4)]) blast
  obtain vs where vs: "list_snapshots k ord st = Ok vs" "distinct (map se_id vs)"
    "\<And>v. v \<in> set vs \<longleftrightarrow> stored k st (se_id v) = Some v"
    by (rule list_snapshots_Ok[OF assms(1,2)]) blast
  note links = parent_map_stored[OF vs(2,3) stored_id[OF assms(1)]]
  show ?thesis
  proof (cases "bs = []")
    case True
    then have "ran (bt_get g) = {}" using bs(2) by simp
    with True bs(1) show ?thesis by (simp add: collect_branch_holds_with_ancestry_def)
  next
    case False
    have "fold (\<lambda>b held. hold_chain (bt_collect (map (\<lambda>s. (se_id s, se_parent_id s)) vs))
        (Some (br_target_snapshot_id b)) held) bs {} =
      (snapshot_parents (stored k st))\<^sup>* `` (br_target_snapshot_id ` ran (bt_get g))"
      by (subst hold_chains_reach) (simp_all only: links bs(2) Un_empty_left empty_iff)
    with False bs(1) vs(1) show ?thesis by (simp add: collect_branch_holds_with_ancestry_def Let_def)
  qed
qed

lemma finite_snapshot_parents:
  assumes "graph_store_ok c k B st"
  shows "finite (snapshot_parents (stored k st))"
proof (rule finite_subset)
  let ?f = "\<lambda>i. (i, the (se_parent_id (the (stored k st i))))"
  show "snapshot_parents (stored k st) \<subseteq> ?f ` fst ` set (gs_snapshot_index st)"
  proof clarify
    fix i p assume "(i, p) \<in> snapshot_parents (stored k st)"
    then obtain v where v: "stored k st i = Some v" "se_parent_id v = Some p" by (auto simp: snapshot_parents_def)
    with stored_dom[OF assms, of i] obtain cas where "bt_get (gs_snapshot_index st) i = Some cas" by auto
    then have "i \<in> fst ` set (gs_snapshot_index st)" by (force simp: bt_get_def dest: map_of_SomeD)
    then have "?f i \<in> ?f ` fst ` set (gs_snapshot_index st)" by (rule imageI)
    with v show "(i, p) \<in> ?f ` fst ` set (gs_snapshot_index st)" by simp
  qed
qed simp

lemma finite_ran_bt_get: "finite (ran (bt_get m))"
  by (rule finite_subset[of _ "snd ` set m"]) (force simp: ran_def bt_get_def dest: map_of_SomeD)+

lemma finite_ancestry:
  "graph_store_ok c k B st \<Longrightarrow> finite ((snapshot_parents (stored k st))\<^sup>* `` (f ` ran (bt_get g)))"
  by (intro finite_rtrancl_Image finite_snapshot_parents finite_imageI finite_ran_bt_get)

section \<open>Properties\<close>

text \<open>
  The retention rule over the integers. Despite the saturating 64-bit
  arithmetic, a snapshot is retained iff it is a kept genesis snapshot, a kept
  snapshot with a change, or created at most the given number of days before
  now, counted without overflow or underflow.
\<close>

lemma retention_rule_exact:
  "is_retained policy snap now \<longleftrightarrow>
     rp_keep_releases policy \<and> se_parent_id snap = None \<or>
     rp_keep_tagged policy \<and> se_applied_change_id snap \<noteq> None \<or>
     (\<exists>d. rp_max_age_days policy = Some d \<and> unat now \<le> unat (se_created_at snap) + unat d * 86400000)"
  by (auto simp: is_retained_def within_age_iff MILLIS_PER_DAY_def)

end
