(* ===== verification/Snapshot_Gc.thy ===== *)
theory Snapshot_Gc
  imports Retention Remote
begin

text \<open>
  Garbage collection and compaction of snapshots
  (\<^verbatim>\<open>crates/ail-storage/src/retention.rs\<close>). Collection removes the index
  entries of unprotected snapshots and then the objects that no retained
  snapshot reaches; compaction replaces a range of snapshots by one. The lemmas
  say exactly what survives. The order in which the hash maps list their entries
  is a parameter.
\<close>

section \<open>Garbage collection\<close>

record GcReport =
  gc_snapshots_examined :: u64
  gc_snapshots_removed :: u64
  gc_snapshots_retained :: u64

record ObjectGcReport =
  og_objects_examined :: u64
  og_objects_deleted :: u64
  og_bytes_freed :: u64

definition delete_snapshot ::
  "ObjectBackedGraphStore \<Rightarrow> ObjectId \<Rightarrow> (StorageError, unit) result \<times> ObjectBackedGraphStore" where
  "delete_snapshot st i = (Ok (), remove_snapshot_from_index st i)"

definition gc_step ::
  "ObjectId set \<Rightarrow> SnapshotEnvelope \<Rightarrow> GcReport \<times> ObjectBackedGraphStore \<Rightarrow> GcReport \<times> ObjectBackedGraphStore" where
  "gc_step retained_ids snap acc =
     (case acc of (report, st) \<Rightarrow>
        if se_id snap \<in> retained_ids
        then (report\<lparr>gc_snapshots_retained := gc_snapshots_retained report + 1\<rparr>, st)
        else (report\<lparr>gc_snapshots_removed := gc_snapshots_removed report + 1\<rparr>, snd (delete_snapshot st (se_id snap))))"

definition gc_unreferenced ::
  "SnapshotEnvelope RecordCodec \<Rightarrow> iter_order \<Rightarrow> ObjectBackedGraphStore \<Rightarrow> RetentionPolicy \<Rightarrow> SnapshotHolds \<Rightarrow> u64
    \<Rightarrow> (StorageError, GcReport) result \<times> ObjectBackedGraphStore" where
  "gc_unreferenced k ord st policy holds now_ms =
     (case list_snapshots k ord st of
        Inl e \<Rightarrow> (Err e, st)
      | Inr snapshots \<Rightarrow>
          (let report = \<lparr>gc_snapshots_examined = of_nat (length snapshots), gc_snapshots_removed = 0,
                         gc_snapshots_retained = 0\<rparr>;
               hold_set = as_set holds;
               retained_ids = se_id ` set (filter (\<lambda>s. is_retained policy s now_ms \<or> se_id s \<in> hold_set) snapshots);
               (report', st') = fold (gc_step retained_ids) snapshots (report, st)
           in (Ok report', st')))"

definition collect_reachable_object_ids_for_snapshots ::
  "Codec \<Rightarrow> SnapshotEnvelope RecordCodec \<Rightarrow> SnapshotEnvelope list \<Rightarrow> (StorageError, ObjectId set) result" where
  "collect_reachable_object_ids_for_snapshots c k retained =
     rfold (\<lambda>reachable envelope.
       rbind (rc_encode k envelope) (\<lambda>bytes.
         Ok (insert (se_graph_root_hash envelope) (insert (object_id_from_bytes c bytes) reachable))))
       {} retained"

definition list_object_ids :: "(ObjectId list \<Rightarrow> ObjectId list) \<Rightarrow> MemoryObjectStore \<Rightarrow> (StorageError, ObjectId list) result" where
  "list_object_ids iord s = Ok (iord (map fst (mo_map s)))"

definition run_gc_step ::
  "ObjectId set \<Rightarrow> ObjectId \<Rightarrow> ObjectGcReport \<times> MemoryObjectStore \<Rightarrow> ObjectGcReport \<times> MemoryObjectStore" where
  "run_gc_step reachable i acc =
     (case acc of (report, s) \<Rightarrow>
        if i \<in> reachable then (report, s)
        else (case memory_delete s i of
                (Inr (Some bytes), s') \<Rightarrow>
                  (report\<lparr>og_objects_deleted := og_objects_deleted report + 1,
                          og_bytes_freed := og_bytes_freed report + bytes\<rparr>, s')
              | (_, s') \<Rightarrow> (report, s')))"

definition run_gc ::
  "(ObjectId list \<Rightarrow> ObjectId list) \<Rightarrow> MemoryObjectStore \<Rightarrow> ObjectId set
    \<Rightarrow> (StorageError, ObjectGcReport) result \<times> MemoryObjectStore" where
  "run_gc iord s reachable =
     (case list_object_ids iord s of
        Inl e \<Rightarrow> (Err e, s)
      | Inr all_ids \<Rightarrow>
          (let report = \<lparr>og_objects_examined = of_nat (length all_ids), og_objects_deleted = 0, og_bytes_freed = 0\<rparr>;
               (report', s') = fold (run_gc_step reachable) all_ids (report, s)
           in (Ok report', s')))"

section \<open>Compaction\<close>

record CompactionReport =
  cr_snapshots_merged :: u64
  cr_covering_snapshot_id :: ObjectId

definition covering_snapshot :: "Codec \<Rightarrow> SnapshotEnvelope list \<Rightarrow> SnapshotEnvelope" where
  "covering_snapshot c ranged =
     (let first = hd ranged; final = last ranged in
      \<lparr>se_id = object_id_from_bytes c (concat (map se_id ranged)),
       se_graph_root_hash = se_graph_root_hash final,
       se_parent_id = se_parent_id first,
       se_applied_change_id = se_applied_change_id final,
       se_created_at = se_created_at final,
       se_verification_report_hash = se_verification_report_hash final,
       se_audit_record_ids = sorted_list_of_set (set (concat (map se_audit_record_ids ranged))),
       se_migration_metadata_ids = sorted_list_of_set (set (concat (map se_migration_metadata_ids ranged)))\<rparr>)"

definition compact_snapshots ::
  "Codec \<Rightarrow> SnapshotEnvelope RecordCodec \<Rightarrow> iter_order \<Rightarrow> ObjectBackedGraphStore \<Rightarrow> nat \<Rightarrow> nat
    \<Rightarrow> (StorageError, CompactionReport) result \<times> ObjectBackedGraphStore" where
  "compact_snapshots c k ord st range_start range_end =
     (if range_end < range_start then (Err NotFound, st)
      else case list_snapshots k ord st of
        Inl e \<Rightarrow> (Err e, st)
      | Inr listed \<Rightarrow>
          (let all_snapshots = by_time listed in
           if length all_snapshots \<le> range_end then (Err NotFound, st)
           else let ranged = drop range_start (take (Suc range_end) all_snapshots) in
           if ranged = [] then (Err NotFound, st)
           else let covering = covering_snapshot c ranged in
           case save_snapshot c k st covering of
             (Inl e, st1) \<Rightarrow> (Err e, st1)
           | (Inr _, st1) \<Rightarrow>
               (Ok \<lparr>cr_snapshots_merged = of_nat (length ranged), cr_covering_snapshot_id = se_id covering\<rparr>,
                fold (\<lambda>s st. snd (delete_snapshot st (se_id s))) ranged st1)))"

section \<open>A graph store that supports deletion\<close>

locale mutable_graph_store =
  fixes inv :: "'s \<Rightarrow> bool"
    and at :: "'s \<Rightarrow> ObjectId \<Rightarrow> SnapshotEnvelope option"
    and remove :: "'s \<Rightarrow> ObjectId \<Rightarrow> 's"
  assumes inv_remove: "inv s \<Longrightarrow> inv (remove s i)"
    and at_remove: "inv s \<Longrightarrow> at (remove s i) = (at s)(i := None)"
begin

lemma removes:
  assumes "inv s"
  shows "inv (fold (\<lambda>v s. if P v then s else remove s (se_id v)) vs s)"
    and "at (fold (\<lambda>v s. if P v then s else remove s (se_id v)) vs s) i =
      (if i \<in> se_id ` {v \<in> set vs. \<not> P v} then None else at s i)"
  using assms
proof (induction vs arbitrary: s)
  case (Cons v vs)
  { case 1 with Cons.IH(1) show ?case by (simp add: inv_remove) }
  { case 2 with Cons.IH(2) show ?case by (auto simp: inv_remove at_remove) }
qed simp_all

end

interpretation graph: mutable_graph_store "graph_store_ok c k B" "stored k" remove_snapshot_from_index
  for c k B
  by unfold_locales (simp_all add: remove_snapshot_ok)

lemma gs_store_removes:
  "gs_store (fold (\<lambda>v st. if P v then st else remove_snapshot_from_index st (se_id v)) vs st) = gs_store st"
  by (induction vs arbitrary: st) (simp_all add: remove_snapshot_from_index_def)

section \<open>Collecting snapshots\<close>

lemma gc_fold:
  "fold (gc_step R) vs (report, st) =
     (report\<lparr>gc_snapshots_removed := gc_snapshots_removed report + of_nat (length (filter (\<lambda>v. se_id v \<notin> R) vs)),
             gc_snapshots_retained := gc_snapshots_retained report + of_nat (length (filter (\<lambda>v. se_id v \<in> R) vs))\<rparr>,
      fold (\<lambda>v st. if se_id v \<in> R then st else remove_snapshot_from_index st (se_id v)) vs st)"
  by (induction vs arbitrary: report st) (simp_all add: gc_step_def delete_snapshot_def add_ac)

definition survives :: "RetentionPolicy \<Rightarrow> SnapshotHolds \<Rightarrow> u64 \<Rightarrow> SnapshotEnvelope \<Rightarrow> bool" where
  "survives policy holds now v \<longleftrightarrow> is_retained policy v now \<or> is_held holds (se_id v)"

definition surviving ::
  "RetentionPolicy \<Rightarrow> SnapshotHolds \<Rightarrow> u64 \<Rightarrow> (ObjectId \<rightharpoonup> SnapshotEnvelope) \<Rightarrow> (ObjectId \<rightharpoonup> SnapshotEnvelope)" where
  "surviving policy holds now m = (\<lambda>i. case m i of Some v \<Rightarrow> if survives policy holds now v then Some v else None | None \<Rightarrow> None)"

lemma as_set_held: "i \<in> as_set h \<longleftrightarrow> is_held h i"
  by (auto simp: as_set_def is_held_def)

lemma removed_ids:
  assumes "\<And>v. v \<in> set vs \<longleftrightarrow> m (se_id v) = Some v" "\<And>i v. m i = Some v \<Longrightarrow> se_id v = i"
    and "\<And>v. v \<in> set vs \<Longrightarrow> se_id v \<in> R \<longleftrightarrow> survives policy holds now v"
  shows "(if i \<in> se_id ` {v \<in> set vs. se_id v \<notin> R} then None else m i) = surviving policy holds now m i"
proof (cases "m i")
  case None
  then show ?thesis by (simp add: surviving_def)
next
  case (Some v)
  have v: "se_id v = i" "v \<in> set vs" using assms(1)[of v] assms(2)[OF Some] Some by auto
  have "w = v" if "w \<in> set vs" "i = se_id w" for w
    using that assms(1)[of w] Some by simp
  with v assms(3)[OF v(2)] have "i \<in> se_id ` {v \<in> set vs. se_id v \<notin> R} \<longleftrightarrow> \<not> survives policy holds now v"
    by blast
  then show ?thesis by (simp add: surviving_def Some)
qed

lemma gc_unreferenced_Ok:
  assumes "graph_store_ok c k B st" "hash_iteration ord"
  obtains report st' vs where "gc_unreferenced k ord st policy holds now = (Ok report, st')"
    "graph_store_ok c k B st'" "gs_store st' = gs_store st" "stored k st' = surviving policy holds now (stored k st)"
    "list_snapshots k ord st = Ok vs"
    "gc_snapshots_examined report = of_nat (length vs)"
    "gc_snapshots_retained report = of_nat (length (filter (survives policy holds now) vs))"
    "gc_snapshots_removed report = of_nat (length (filter (\<lambda>v. \<not> survives policy holds now v) vs))"
proof -
  obtain vs where vs: "list_snapshots k ord st = Ok vs" "distinct (map se_id vs)"
    "\<And>v. v \<in> set vs \<longleftrightarrow> stored k st (se_id v) = Some v"
    by (rule list_snapshots_Ok[OF assms]) blast
  define R where "R = se_id ` set (filter (\<lambda>s. is_retained policy s now \<or> se_id s \<in> as_set holds) vs)"
  have R: "se_id v \<in> R \<longleftrightarrow> survives policy holds now v" if v: "v \<in> set vs" for v
  proof -
    have "w = v" if "w \<in> set vs" "se_id v = se_id w" for w
      using vs(3)[of w] vs(3)[of v] that v by simp
    with v show ?thesis unfolding R_def set_filter survives_def as_set_held by blast
  qed
  let ?st' = "fold (\<lambda>v st. if se_id v \<in> R then st else remove_snapshot_from_index st (se_id v)) vs st"
  have at: "stored k ?st' = surviving policy holds now (stored k st)"
    by (rule ext, subst graph.removes(2)[OF assms(1)], rule removed_ids[OF vs(3) stored_id[OF assms(1)] R])
  have flt: "filter (\<lambda>v. se_id v \<in> R) vs = filter (survives policy holds now) vs"
    "filter (\<lambda>v. se_id v \<notin> R) vs = filter (\<lambda>v. \<not> survives policy holds now v) vs"
    by (rule filter_cong[OF refl], simp add: R)+
  have gc: "gc_unreferenced k ord st policy holds now = (Ok
        \<lparr>gc_snapshots_examined = of_nat (length vs),
         gc_snapshots_removed = 0 + of_nat (length (filter (\<lambda>v. se_id v \<notin> R) vs)),
         gc_snapshots_retained = 0 + of_nat (length (filter (\<lambda>v. se_id v \<in> R) vs))\<rparr>, ?st')"
    unfolding gc_unreferenced_def vs(1) sum.case Let_def R_def[symmetric] gc_fold by simp
  show thesis
    by (rule that[OF gc graph.removes(1)[OF assms(1)] gs_store_removes at vs(1)])
      (simp_all only: GcReport.select_convs flt add_0)
qed

section \<open>Collecting objects\<close>

lemma run_gc_step_get:
  "bt_get (mo_map (snd (run_gc_step R i acc))) j =
     (if j = i \<and> i \<notin> R then None else bt_get (mo_map (snd acc)) j)"
  by (simp add: run_gc_step_def memory_delete_def case_prod_beta split: option.split)

lemma run_gc_fold_get:
  "bt_get (mo_map (snd (fold (run_gc_step R) ids acc))) j =
     (if j \<in> set ids \<and> j \<notin> R then None else bt_get (mo_map (snd acc)) j)"
  by (induction ids arbitrary: acc) (auto simp: run_gc_step_get)

lemma run_gc_step_addressed:
  "store_addressed c (snd acc) \<Longrightarrow> store_addressed c (snd (run_gc_step R i acc))"
  by (auto simp: run_gc_step_def memory_delete_def case_prod_beta store_addressed_def list_all_iff bt_remove_def
      split: option.split)

lemma run_gc_fold_addressed:
  "store_addressed c (snd acc) \<Longrightarrow> store_addressed c (snd (fold (run_gc_step R) ids acc))"
  by (induction ids arbitrary: acc) (simp_all add: run_gc_step_addressed)

lemma run_gc_Ok:
  assumes "hash_iteration iord" "objects_within c B s"
  obtains report s' where "run_gc iord s R = (Ok report, s')" "objects_within c B s'"
    "\<And>j. bt_get (mo_map s') j = (if j \<in> R then bt_get (mo_map s) j else None)"
proof -
  let ?ids = "iord (map fst (mo_map s))"
  have ids: "set ?ids = fst ` set (mo_map s)"
    using assms(1) by (metis hash_iteration_def mset_eq_setD set_map)
  let ?r0 = "\<lparr>og_objects_examined = of_nat (length ?ids), og_objects_deleted = 0, og_bytes_freed = 0\<rparr>"
  let ?s' = "snd (fold (run_gc_step R) ?ids (?r0, s))"
  have absent: "bt_get (mo_map s) j = None" if "j \<notin> fst ` set (mo_map s)" for j
    using that by (simp add: bt_get_def map_of_eq_None_iff)
  have get: "bt_get (mo_map ?s') j = (if j \<in> R then bt_get (mo_map s) j else None)" for j
    using absent[of j] by (simp add: run_gc_fold_get ids)
  have "store_addressed c ?s'"
    by (rule run_gc_fold_addressed) (use assms(2) in \<open>simp add: objects_within_def\<close>)
  with assms(2) have "objects_within c B ?s'" by (auto simp: objects_within_def get split: if_splits)
  moreover have "run_gc iord s R = (Ok (fst (fold (run_gc_step R) ?ids (?r0, s))), ?s')"
    by (simp add: run_gc_def list_object_ids_def Let_def case_prod_beta)
  ultimately show thesis using get that by blast
qed

lemma collect_reachable_Ok:
  assumes "\<And>v. v \<in> set vs \<Longrightarrow> rc_encode k v = Ok (enc v)"
  shows "collect_reachable_object_ids_for_snapshots c k vs =
    Ok (se_graph_root_hash ` set vs \<union> (\<lambda>v. object_id_from_bytes c (enc v)) ` set vs)"
proof -
  have "rfold (\<lambda>reachable envelope. rbind (rc_encode k envelope) (\<lambda>bytes.
         Ok (insert (se_graph_root_hash envelope) (insert (object_id_from_bytes c bytes) reachable)))) R vs =
      Ok (R \<union> se_graph_root_hash ` set vs \<union> (\<lambda>v. object_id_from_bytes c (enc v)) ` set vs)" for R
    using assms
  proof (induction vs arbitrary: R)
    case (Cons v vs)
    then show ?case by (simp add: insert_commute Un_assoc)
  qed simp
  from this[of "{}"] show ?thesis by (simp add: collect_reachable_object_ids_for_snapshots_def)
qed

text \<open>The sequence of calls that the documentation of the collector prescribes.\<close>

definition gc_cycle ::
  "Codec \<Rightarrow> SnapshotEnvelope RecordCodec \<Rightarrow> iter_order \<Rightarrow> (ObjectId list \<Rightarrow> ObjectId list) \<Rightarrow> ObjectBackedGraphStore
    \<Rightarrow> RetentionPolicy \<Rightarrow> SnapshotHolds \<Rightarrow> u64 \<Rightarrow> (StorageError, ObjectGcReport) result \<times> ObjectBackedGraphStore" where
  "gc_cycle c k ord iord st policy holds now_ms =
     (case gc_unreferenced k ord st policy holds now_ms of
        (Inl e, st1) \<Rightarrow> (Err e, st1)
      | (Inr _, st1) \<Rightarrow>
          (case rbind (list_snapshots k ord st1) (collect_reachable_object_ids_for_snapshots c k) of
             Inl e \<Rightarrow> (Err e, st1)
           | Inr reachable \<Rightarrow>
               (let (r, s) = run_gc iord (gs_store st1) reachable in (r, st1\<lparr>gs_store := s\<rparr>))))"

definition reachable_objects ::
  "Codec \<Rightarrow> SnapshotEnvelope RecordCodec \<Rightarrow> (ObjectId \<rightharpoonup> SnapshotEnvelope) \<Rightarrow> ObjectId set" where
  "reachable_objects c k m =
     {j. \<exists>v \<in> ran m. j = se_graph_root_hash v \<or> (\<exists>b. rc_encode k v = Ok b \<and> j = object_id_from_bytes c b)}"

lemma stored_encodes:
  assumes "graph_store_ok c k B st" "stored k st i = Some v"
  obtains b where "rc_encode k v = Ok b" "bt_get (gs_snapshot_index st) i = Some (object_id_from_bytes c b)"
    "bt_get (mo_map (gs_store st)) (object_id_from_bytes c b) = Some b"
  using assms(1) by (rule stored_cases[where i = i]) (use assms(2) that in auto)

lemma reachable_objects_image:
  assumes "\<And>v. v \<in> set vs \<Longrightarrow> rc_encode k v = Ok (enc v)" "set vs = ran m"
  shows "reachable_objects c k m = se_graph_root_hash ` set vs \<union> (\<lambda>v. object_id_from_bytes c (enc v)) ` set vs"
proof -
  have "(\<exists>b. rc_encode k v = Ok b \<and> j = object_id_from_bytes c b) \<longleftrightarrow> j = object_id_from_bytes c (enc v)"
    if "v \<in> set vs" for v j using assms(1)[OF that] by simp
  then show ?thesis unfolding reachable_objects_def assms(2)[symmetric] by blast
qed

lemma gc_cycle_Ok:
  fixes policy holds now
  assumes "graph_store_ok c k B st" "hash_iteration ord" "hash_iteration iord"
  defines "m \<equiv> surviving policy holds now (stored k st)"
  obtains report st' where "gc_cycle c k ord iord st policy holds now = (Ok report, st')"
    "graph_store_ok c k B st'" "stored k st' = m"
    "\<And>j. bt_get (mo_map (gs_store st')) j =
      (if j \<in> reachable_objects c k m then bt_get (mo_map (gs_store st)) j else None)"
proof -
  obtain r st1 where g: "gc_unreferenced k ord st policy holds now = (Ok r, st1)" "graph_store_ok c k B st1"
    "gs_store st1 = gs_store st" "stored k st1 = m"
    unfolding m_def by (rule gc_unreferenced_Ok[OF assms(1,2)]) blast
  obtain vs where vs: "list_snapshots k ord st1 = Ok vs" "\<And>v. v \<in> set vs \<longleftrightarrow> m (se_id v) = Some v"
    unfolding g(4)[symmetric] by (rule list_snapshots_Ok[OF g(2) assms(2)]) blast
  define enc where "enc v = (case rc_encode k v of Inr b \<Rightarrow> b | Inl _ \<Rightarrow> [])" for v
  have enc: "rc_encode k v = Ok (enc v)" if "v \<in> set vs" for v
  proof -
    from that have "stored k st1 (se_id v) = Some v" by (simp add: vs(2) g(4))
    then obtain b where "rc_encode k v = Ok b" by (rule stored_encodes[OF g(2)])
    then show ?thesis by (simp add: enc_def)
  qed
  have ids: "se_id v = i" if "m i = Some v" for i v using stored_id[OF g(2)] that by (simp add: g(4))
  have ran: "set vs = ran m" using vs(2) ids by (auto simp: ran_def)
  note reach = reachable_objects_image[OF enc ran, symmetric]
  obtain rep s' where rg: "run_gc iord (gs_store st1) (reachable_objects c k m) = (Ok rep, s')" "objects_within c B s'"
    "\<And>j. bt_get (mo_map s') j = (if j \<in> reachable_objects c k m then bt_get (mo_map (gs_store st1)) j else None)"
    by (rule run_gc_Ok[OF assms(3), of c B "gs_store st1"]) (use g(2) in \<open>auto simp: graph_store_ok_def\<close>)
  let ?st' = "st1\<lparr>gs_store := s'\<rparr>"
  have cyc: "gc_cycle c k ord iord st policy holds now = (Ok rep, ?st')"
    by (simp add: gc_cycle_def g(1) vs(1) collect_reachable_Ok[OF enc] reach[of c] rg(1))
  have keep: "bt_get (mo_map s') cas = Some b"
    if "bt_get (gs_snapshot_index st1) i = Some cas" "bt_get (mo_map (gs_store st1)) cas = Some b" for i cas b
  proof -
    from that(1) stored_dom[OF g(2), of i] obtain v where v: "stored k st1 i = Some v" by auto
    obtain d where d: "rc_encode k v = Ok d" "bt_get (gs_snapshot_index st1) i = Some (object_id_from_bytes c d)"
      by (rule stored_encodes[OF g(2) v])
    have "v \<in> ran m" using v unfolding g(4) by (rule ranI)
    moreover have "cas = object_id_from_bytes c d" using d(2) that(1) by simp
    ultimately have "cas \<in> reachable_objects c k m" using d(1) unfolding reachable_objects_def by blast
    with that(2) show ?thesis by (simp add: rg(3))
  qed
  have st': "stored k ?st' = m"
    unfolding g(4)[symmetric] by (rule ext, rule stored_keep[OF g(2)]) (simp_all add: keep)
  have "entry_backed c k s' i cas" if "bt_get (gs_snapshot_index st1) i = Some cas" for i cas
  proof -
    have "entry_backed c k (gs_store st1) i cas" using g(2) that by (simp add: graph_store_ok_def)
    with keep[OF that] show ?thesis unfolding entry_backed_def by blast
  qed
  with g(2) rg(2) have ok: "graph_store_ok c k B ?st'" by (simp add: graph_store_ok_def)
  show thesis by (rule that[OF cyc ok st']) (simp add: rg(3) g(3))
qed

section \<open>Bundles after a collection\<close>

lemma collect_dependencies_missing:
  assumes "d \<in> set ds" "d \<noteq> root" "bt_get (mo_map s) d = None" "\<not> bt_contains_key objects d"
  shows "collect_dependencies (memory_get s) root ds objects = Err NotFound"
  using assms
proof (induction ds arbitrary: objects)
  case (Cons e ds)
  show ?case
  proof (cases "e = root \<or> bt_contains_key objects e")
    case True
    with Cons show ?thesis by auto
  next
    case False
    show ?thesis
    proof (cases "bt_get (mo_map s) e")
      case None
      with False show ?thesis by (simp add: memory_get_def)
    next
      case (Some b)
      with Cons.prems have "d \<noteq> e" by auto
      with Cons.prems have "d \<in> set ds" "\<not> bt_contains_key (bt_insert e b objects) d"
        by (auto simp: bt_contains_key_def)
      with Cons.IH[OF this(1) Cons.prems(2,3)] False Some show ?thesis by (simp add: memory_get_def)
    qed
  qed
qed simp

section \<open>Compaction\<close>

lemma set_by_time [simp]: "set (by_time vs) = set vs" and length_by_time [simp]: "length (by_time vs) = length vs"
  by (simp_all add: by_time_def)

lemma compact_snapshots_Ok:
  assumes "graph_store_ok c k B st" "list_snapshots k ord st = Ok vs" "i \<le> j" "j < length vs"
    and "ranged = drop i (take (Suc j) (by_time vs))"
    and "rc_encode k (covering_snapshot c ranged) = Ok b" "b \<in> B"
    and "cid = se_id (covering_snapshot c ranged)"
  obtains st' where "compact_snapshots c k ord st i j =
      (Ok \<lparr>cr_snapshots_merged = of_nat (Suc j - i), cr_covering_snapshot_id = cid\<rparr>, st')"
    "graph_store_ok c k B st'"
    "stored k st' = ((stored k st)(cid \<mapsto> covering_snapshot c ranged)) |` (- se_id ` set ranged)"
proof -
  have len: "length ranged = Suc j - i" using assms(4) by (simp add: assms(5))
  with assms(3) have ne: "ranged \<noteq> []" by auto
  obtain st1 where s1: "save_snapshot c k st (covering_snapshot c ranged) = (Ok cid, st1)"
    by (simp add: save_snapshot_Ok[OF assms(6)] assms(8))
  have save: "graph_store_ok c k B st1" "stored k st1 = (stored k st)(cid \<mapsto> covering_snapshot c ranged)"
    using save_snapshot_ok[OF assms(1,6,7)] by (simp_all add: s1 assms(8))
  let ?st' = "fold (\<lambda>s st. snd (delete_snapshot st (se_id s))) ranged st1"
  have del: "?st' = fold (\<lambda>v st. if False then st else remove_snapshot_from_index st (se_id v)) ranged st1"
    by (simp add: delete_snapshot_def)
  have "compact_snapshots c k ord st i j =
      (Ok \<lparr>cr_snapshots_merged = of_nat (Suc j - i), cr_covering_snapshot_id = cid\<rparr>, ?st')"
    unfolding compact_snapshots_def assms(2) sum.case Let_def assms(5)[symmetric] s1 prod.case
    using assms(3,4,8) ne by (simp add: len)
  moreover have "graph_store_ok c k B ?st'" unfolding del by (rule graph.removes(1)[OF save(1)])
  moreover have "stored k ?st' = ((stored k st)(cid \<mapsto> covering_snapshot c ranged)) |` (- se_id ` set ranged)"
    unfolding del
    by (rule ext, subst graph.removes(2)[OF save(1)]) (simp add: save(2) restrict_map_def)
  ultimately show thesis by (rule that)
qed

section \<open>Diagnostics and collection\<close>

lemma retention_reason_None:
  "snapshot_retention_reason v policy (set (sh_branch_heads h)) (set (sh_tag_locks h)) (set (sh_audit_holds h)) now = None
     \<longleftrightarrow> \<not> survives policy h now v"
  by (auto simp: snapshot_retention_reason_def survives_def is_held_def is_retained_def)

lemma describe_snapshot_eligible:
  "describe_snapshot policy h now p = snapshot_prune_eligible w \<longleftrightarrow>
     \<not> survives policy h now (snd p) \<and> of_nat (fst p) = w"
proof (cases "snapshot_retention_reason (snd p) policy (set (sh_branch_heads h)) (set (sh_tag_locks h)) (set (sh_audit_holds h)) now")
  case None
  with retention_reason_None[of "snd p" policy h now] show ?thesis
    by (simp add: describe_snapshot_def snapshot_prune_eligible_def)
next
  case (Some reason)
  have "\<not> \<not> survives policy h now (snd p)" using Some unfolding retention_reason_None[symmetric] by simp
  with Some show ?thesis
    by (simp add: describe_snapshot_def snapshot_prune_eligible_def snapshot_protected_def)
qed

lemma of_nat_u64_inj:
  assumes "m \<le> unat (- 1 :: u64)" "n \<le> unat (- 1 :: u64)" "(of_nat m :: u64) = of_nat n"
  shows "m = n"
proof -
  have id: "unat (of_nat l :: u64) = l" if "l \<le> unat (- 1 :: u64)" for l
  proof -
    have "l < 2 ^ LENGTH(64)" using that unsigned_less[of "- 1 :: u64"] by (rule le_less_trans)
    then show ?thesis unfolding unat_of_nat by (rule mod_less)
  qed
  have "m = unat (of_nat m :: u64)" by (rule id[OF assms(1), symmetric])
  also have "\<dots> = unat (of_nat n :: u64)" by (rule arg_cong[OF assms(3)])
  also have "\<dots> = n" by (rule id[OF assms(2)])
  finally show ?thesis .
qed

lemma prune_eligible_iff:
  assumes "length vs \<le> unat (- 1 :: u64)" "n < length vs"
  shows "snapshot_prune_eligible (of_nat n) \<in> set (describe_retention_policy_issues vs policy h now) \<longleftrightarrow>
    \<not> survives policy h now (by_time vs ! n)"
proof -
  have valid: "snapshot_prune_eligible w \<notin> set (validate_retention_policy policy)" for w
    by (simp add: validate_retention_policy_def snapshot_prune_eligible_def invalid_window_zero_def
        invalid_window_overflow_def split: option.split)
  have "snapshot_prune_eligible (of_nat n) \<in> set (describe_retention_policy_issues vs policy h now) \<longleftrightarrow>
      (\<exists>p \<in> set (enumerate 0 (by_time vs)). describe_snapshot policy h now p = snapshot_prune_eligible (of_nat n))"
    using valid by (auto simp: describe_retention_policy_issues_def sort_retention_issue_descriptors_def image_iff eq_commute)
  also have "\<dots> \<longleftrightarrow> (\<exists>m < length vs. \<not> survives policy h now (by_time vs ! m) \<and> (of_nat m :: u64) = of_nat n)"
    by (auto simp: describe_snapshot_eligible in_set_enumerate_eq Bex_def)
  also have "\<dots> \<longleftrightarrow> \<not> survives policy h now (by_time vs ! n)"
  proof
    assume "\<exists>m < length vs. \<not> survives policy h now (by_time vs ! m) \<and> (of_nat m :: u64) = of_nat n"
    then obtain m where m: "m < length vs" "\<not> survives policy h now (by_time vs ! m)" "(of_nat m :: u64) = of_nat n" by blast
    have "m = n"
      by (rule of_nat_u64_inj[OF order.trans[OF less_imp_le[OF m(1)] assms(1)]
            order.trans[OF less_imp_le[OF assms(2)] assms(1)] m(3)])
    with m(2) show "\<not> survives policy h now (by_time vs ! n)" by (simp only: simp_thms)
  qed (use assms(2) in blast)
  finally show ?thesis .
qed

section \<open>A small store\<close>

text \<open>
  Two snapshots, the second on top of the first and with an audit record, under
  two collision-free hashes: the bytes themselves, and the bytes with a mark.
\<close>

definition marked_codec :: Codec where
  "marked_codec = \<lparr>cbor_node = (\<lambda>_. []), cbor_op = (\<lambda>_. []), blake3 = (\<lambda>b. b @ [0])\<rparr>"

definition audited_envelope :: SnapshotEnvelope where
  "audited_envelope = (sample_envelope 2 (Some 1) 6)\<lparr>se_audit_record_ids := [[7]]\<rparr>"

definition sample_covering :: SnapshotEnvelope where
  "sample_covering = covering_snapshot marked_codec [sample_envelope 1 None 5]"

definition sample_record_codec :: "SnapshotEnvelope RecordCodec" where
  "sample_record_codec =
     table_codec [(sample_envelope 1 None 5, [9]), (audited_envelope, [8]), (sample_covering, [6])]"

definition sample_graph_store :: "Codec \<Rightarrow> ObjectBackedGraphStore" where
  "sample_graph_store c =
     fold (run_graph_op c sample_record_codec (table_codec []))
       [PutObject [1, 1], SaveSnapshot (sample_envelope 1 None 5), PutObject [2, 2], PutObject [7],
        SaveSnapshot audited_envelope]
       (graph_store_new memory_store_new)"

lemma marked_codec_inj: "inj_on (object_id_from_bytes marked_codec) A"
  by (simp add: object_id_from_bytes_def marked_codec_def inj_on_def)

lemma sample_ids:
  "se_id (sample_envelope 1 None 5) = [1]" "se_id audited_envelope = [2]" "se_id sample_covering = [1, 0]"
  "se_parent_id audited_envelope = Some [1]"
  by (simp_all add: audited_envelope_def sample_envelope_def sample_covering_def covering_snapshot_def Let_def
      object_id_from_bytes_def marked_codec_def)

lemma sample_encodes:
  "rc_encode sample_record_codec (sample_envelope 1 None 5) = Ok [9]" "rc_encode sample_record_codec audited_envelope = Ok [8]"
  "rc_encode sample_record_codec sample_covering = Ok [6]"
proof -
  have ne: "x \<noteq> y" if "se_id x \<noteq> se_id y" for x y :: SnapshotEnvelope using that by auto
  have "audited_envelope \<noteq> sample_envelope 1 None 5" "sample_covering \<noteq> sample_envelope 1 None 5"
    "sample_covering \<noteq> audited_envelope"
    by (rule ne, simp add: sample_ids)+
  then show "rc_encode sample_record_codec (sample_envelope 1 None 5) = Ok [9]"
    "rc_encode sample_record_codec audited_envelope = Ok [8]" "rc_encode sample_record_codec sample_covering = Ok [6]"
    by (simp_all add: sample_record_codec_def table_codec_def)
qed

lemma sample_decodes:
  "rc_decode sample_record_codec [9] = Ok (sample_envelope 1 None 5)"
  "rc_decode sample_record_codec [8] = Ok audited_envelope"
  by (simp_all add: sample_record_codec_def table_codec_def)

lemma sample_graph_store_ok:
  assumes "inj_on (object_id_from_bytes c) UNIV"
  shows "graph_store_ok c sample_record_codec UNIV (sample_graph_store c)"
    "stored sample_record_codec (sample_graph_store c) = [[1] \<mapsto> sample_envelope 1 None 5, [2] \<mapsto> audited_envelope]"
proof -
  have "codec_lawful sample_record_codec" unfolding sample_record_codec_def by (rule table_codec_lawful) simp
  note new = graph_store_new_ok[OF this assms]
  note sim = graph_history_simulates[OF new(1) subset_UNIV, where kl = "table_codec []" and
      xs = "[PutObject [1, 1], SaveSnapshot (sample_envelope 1 None 5), PutObject [2, 2], PutObject [7],
        SaveSnapshot audited_envelope]", folded sample_graph_store_def]
  show "graph_store_ok c sample_record_codec UNIV (sample_graph_store c)" by (rule conjunct1[OF sim])
  show "stored sample_record_codec (sample_graph_store c) = [[1] \<mapsto> sample_envelope 1 None 5, [2] \<mapsto> audited_envelope]"
    unfolding conjunct2[OF sim] new(2) by (simp add: sample_encodes sample_ids)
qed

lemmas sample_store_eval = sample_graph_store_def save_snapshot_Ok[OF sample_encodes(1)]
  save_snapshot_Ok[OF sample_encodes(2)] graph_store_new_def memory_store_new_def memory_put_def Let_def
  object_id_from_bytes_def bt_or_insert_def bt_get_def sample_ids

lemma sample_objects:
  "gs_store (sample_graph_store identity_codec) =
     \<lparr>mo_map = [([1, 1], [1, 1]), ([2, 2], [2, 2]), ([7], [7]), ([8], [8]), ([9], [9])]\<rparr>"
  by (simp add: sample_store_eval identity_codec_def)

lemma sample_listing:
  assumes "inj_on (object_id_from_bytes c) UNIV"
  shows "list_snapshots sample_record_codec (\<lambda>m. m) (sample_graph_store c) = Ok [sample_envelope 1 None 5, audited_envelope]"
proof -
  have idx: "gs_snapshot_index (sample_graph_store c) =
      [([1], object_id_from_bytes c [9]), ([2], object_id_from_bytes c [8])]"
    by (simp add: sample_graph_store_def save_snapshot_Ok[OF sample_encodes(1)] save_snapshot_Ok[OF sample_encodes(2)]
        graph_store_new_def sample_ids)
  note ok = sample_graph_store_ok[OF assms]
  show ?thesis
    unfolding list_snapshots_def idx
    by (subst load_indexed_Ok[where f = "\<lambda>p. the (stored sample_record_codec (sample_graph_store c) (fst p))"])
      (auto simp: load_stored_snapshot[OF ok(1)] ok(2) idx bt_get_Cons)
qed

lemma sample_by_time: "by_time [sample_envelope 1 None 5, audited_envelope] = [sample_envelope 1 None 5, audited_envelope]"
proof -
  have "se_created_at (sample_envelope 1 None 5) = 5" "se_created_at audited_envelope = 6"
    by (simp_all add: audited_envelope_def sample_envelope_def)
  then show ?thesis by (simp add: by_time_def)
qed

definition no_retention :: RetentionPolicy where
  "no_retention = \<lparr>rp_max_age_days = None, rp_keep_releases = False, rp_keep_tagged = False\<rparr>"

section \<open>Properties\<close>

text \<open>
  C13. A collection keeps the history of every branch. With the holds collected
  from the branch registry including ancestry, the collection cycle, which
  removes unprotected snapshots and then unreachable objects, succeeds; every
  stored snapshot that a branch head reaches along parent links still loads with
  the same envelope, and its graph root object is untouched.
\<close>

theorem gc_keeps_branch_history:
  assumes "graph_store_ok c k B st" "hash_iteration ord" "hash_iteration iord"
    and "keyed_map br_name g" "hash_iteration bord"
    and "collect_branch_holds_with_ancestry k bord ord g st = Ok (sh_branch_heads holds)"
    and "get_branch g name = Ok (Some b)"
    and "(br_target_snapshot_id b, i) \<in> (snapshot_parents (stored k st))\<^sup>*"
    and "load_snapshot k st i = Ok (Some v)"
  shows "\<exists>report st'. gc_cycle c k ord iord st policy holds now = (Ok report, st') \<and>
    load_snapshot k st' i = Ok (Some v) \<and>
    memory_get (gs_store st') (se_graph_root_hash v) = memory_get (gs_store st) (se_graph_root_hash v)"
proof -
  let ?m = "surviving policy holds now (stored k st)"
  have v: "stored k st i = Some v" using assms(9) load_stored_snapshot[OF assms(1)] by simp
  have "b \<in> ran (bt_get g)" using assms(7) by (auto simp: get_branch_def ran_def)
  with assms(8) have i: "i \<in> (snapshot_parents (stored k st))\<^sup>* `` (br_target_snapshot_id ` ran (bt_get g))" by blast
  from assms(6) have heads: "sh_branch_heads holds = sorted_list_of_set
      ((snapshot_parents (stored k st))\<^sup>* `` (br_target_snapshot_id ` ran (bt_get g)))"
    unfolding collect_ancestry_Ok[OF assms(1,2,4,5)] by simp
  have "i \<in> set (sh_branch_heads holds)"
    unfolding heads set_sorted_list_of_set[OF finite_ancestry[OF assms(1)]] by (rule i)
  then have "survives policy holds now v" using stored_id[OF assms(1) v] by (simp add: survives_def is_held_def)
  then have m: "?m i = Some v" by (simp add: surviving_def v)
  obtain report st' where gc: "gc_cycle c k ord iord st policy holds now = (Ok report, st')"
    "graph_store_ok c k B st'" "stored k st' = ?m"
    "\<And>j. bt_get (mo_map (gs_store st')) j =
      (if j \<in> reachable_objects c k ?m then bt_get (mo_map (gs_store st)) j else None)"
    by (rule gc_cycle_Ok[OF assms(1-3)]) blast
  have "se_graph_root_hash v \<in> reachable_objects c k ?m" using m by (auto simp: reachable_objects_def ran_def)
  then have "memory_get (gs_store st') (se_graph_root_hash v) = memory_get (gs_store st) (se_graph_root_hash v)"
    by (simp add: memory_get_def gc(4))
  with gc(1) m load_stored_snapshot[OF gc(2), of i] show ?thesis by (simp add: gc(3))
qed

theorem gc_keeps_branch_history_witness:
  "\<exists>holds report st'. collect_branch_holds_with_ancestry sample_record_codec rev rev
       (snd (create_branch [] ''main'' [2] 0)) (sample_graph_store identity_codec) = Ok (sh_branch_heads holds) \<and>
     gc_cycle identity_codec sample_record_codec rev rev (sample_graph_store identity_codec) no_retention holds 100 = (Ok report, st') \<and>
     load_snapshot sample_record_codec st' [1] = Ok (Some (sample_envelope 1 None 5))"
proof -
  let ?g = "snd (create_branch [] ''main'' [2] 0)"
  let ?P = "snapshot_parents (stored sample_record_codec (sample_graph_store identity_codec))"
  note ok = sample_graph_store_ok[OF identity_codec_inj]
  have g: "keyed_map br_name ?g" by (rule branch_ops_keyed(1)[OF keyed_map_Nil])
  let ?holds = "\<lparr>sh_branch_heads = sorted_list_of_set (?P\<^sup>* `` (br_target_snapshot_id ` ran (bt_get ?g))),
    sh_tag_locks = [], sh_audit_holds = []\<rparr>"
  have c: "collect_branch_holds_with_ancestry sample_record_codec rev rev ?g (sample_graph_store identity_codec) = Ok (sh_branch_heads ?holds)"
    using collect_ancestry_Ok[OF ok(1) hash_iteration_rev g hash_iteration_rev] by simp
  have b: "get_branch ?g ''main'' = Ok (Some \<lparr>br_name = ''main'', br_target_snapshot_id = [2], br_created_at = 0\<rparr>)"
    by (simp add: create_branch_def get_branch_def bt_contains_key_def Let_def bt_get_Cons)
  have "([2], [1]) \<in> ?P" by (simp add: snapshot_parents_def ok(2) sample_ids)
  then have r: "(br_target_snapshot_id \<lparr>br_name = ''main'', br_target_snapshot_id = [2], br_created_at = 0\<rparr>, [1]) \<in> ?P\<^sup>*"
    by simp
  have l: "load_snapshot sample_record_codec (sample_graph_store identity_codec) [1] = Ok (Some (sample_envelope 1 None 5))"
    using load_stored_snapshot[OF ok(1), of "[1]"] by (simp add: ok(2))
  from gc_keeps_branch_history[OF ok(1) hash_iteration_rev hash_iteration_rev g hash_iteration_rev c b r l, of no_retention 100] c
  show ?thesis by blast
qed

text \<open>
  C33. A collection loses declared dependencies. If a bundle of a stored snapshot
  can be built before the collection, and the snapshot declares a dependency, an
  applied change, audit record or migration record, that is neither the graph
  root nor the encoding of a surviving snapshot, then after the collection the
  snapshot itself still loads but its bundle cannot be built any more.
\<close>

theorem gc_loses_dependencies:
  assumes "graph_store_ok c k B st" "hash_iteration ord" "hash_iteration iord"
    and "load_snapshot k st i = Ok (Some v)" "survives policy holds now v"
    and "rc_encode k v = Ok b" "dec_snapshot ck b = Some v"
    and "from_store_with_snapshot_dependencies ck (object_id_from_bytes c b) (memory_get (gs_store st)) = Ok bundle"
    and "d \<in> set (snapshot_envelope_dependencies ck b)"
    and "d \<notin> reachable_objects c k (surviving policy holds now (stored k st))"
  shows "\<exists>report st'. gc_cycle c k ord iord st policy holds now = (Ok report, st') \<and>
    load_snapshot k st' i = Ok (Some v) \<and>
    from_store_with_snapshot_dependencies ck (object_id_from_bytes c b) (memory_get (gs_store st')) = Err NotFound"
proof -
  let ?m = "surviving policy holds now (stored k st)"
  have v: "stored k st i = Some v" using assms(4) load_stored_snapshot[OF assms(1)] by simp
  with assms(5) have m: "?m i = Some v" by (simp add: surviving_def)
  obtain report st' where gc: "gc_cycle c k ord iord st policy holds now = (Ok report, st')"
    "graph_store_ok c k B st'" "stored k st' = ?m"
    "\<And>j. bt_get (mo_map (gs_store st')) j =
      (if j \<in> reachable_objects c k ?m then bt_get (mo_map (gs_store st)) j else None)"
    by (rule gc_cycle_Ok[OF assms(1-3)]) blast
  have root: "object_id_from_bytes c b \<in> reachable_objects c k ?m"
    using m assms(6) by (auto simp: reachable_objects_def ran_def)
  have "bt_get (mo_map (gs_store st)) (object_id_from_bytes c b) = Some b"
    by (rule stored_encodes[OF assms(1) v]) (simp add: assms(6))
  with root have "memory_get (gs_store st') (object_id_from_bytes c b) = Ok (Some b)" by (simp add: memory_get_def gc(4))
  moreover have "collect_dependencies (memory_get (gs_store st')) (object_id_from_bytes c b)
      (snapshot_envelope_dependencies ck b) [] = Err NotFound"
    by (rule collect_dependencies_missing[OF assms(9)])
      (use root assms(10) in \<open>auto simp: gc(4) bt_contains_key_def\<close>)
  ultimately have "from_store_with_snapshot_dependencies ck (object_id_from_bytes c b) (memory_get (gs_store st')) = Err NotFound"
    by (simp add: from_store_with_snapshot_dependencies_def)
  with gc(1) m load_stored_snapshot[OF gc(2), of i] show ?thesis by (simp add: gc(3))
qed

theorem gc_loses_dependencies_witness:
  "\<exists>report st'. gc_cycle identity_codec sample_record_codec rev rev (sample_graph_store identity_codec) no_retention
       \<lparr>sh_branch_heads = [], sh_tag_locks = [[2]], sh_audit_holds = []\<rparr> 100 = (Ok report, st') \<and>
     load_snapshot sample_record_codec st' [2] = Ok (Some audited_envelope) \<and>
     from_store_with_snapshot_dependencies (sample_crypto\<lparr>dec_snapshot := (\<lambda>b. if b = [8] then Some audited_envelope else None)\<rparr>)
       [8] (memory_get (gs_store st')) = Err NotFound"
proof -
  let ?ck = "sample_crypto\<lparr>dec_snapshot := (\<lambda>b. if b = [8] then Some audited_envelope else None)\<rparr>"
  let ?holds = "\<lparr>sh_branch_heads = [], sh_tag_locks = [[2]], sh_audit_holds = []\<rparr>"
  let ?m = "surviving no_retention ?holds 100 (stored sample_record_codec (sample_graph_store identity_codec))"
  note ok = sample_graph_store_ok[OF identity_codec_inj]
  have id: "object_id_from_bytes identity_codec b = b" for b by (simp add: object_id_from_bytes_def identity_codec_def)
  have l: "load_snapshot sample_record_codec (sample_graph_store identity_codec) [2] = Ok (Some audited_envelope)"
    using load_stored_snapshot[OF ok(1), of "[2]"] by (simp add: ok(2))
  have sv: "survives no_retention ?holds 100 audited_envelope" "\<not> survives no_retention ?holds 100 (sample_envelope 1 None 5)"
    by (simp_all add: survives_def is_held_def sample_ids is_retained_def no_retention_def within_age_def)
  have m: "?m = [[2] \<mapsto> audited_envelope]" by (rule ext) (simp add: surviving_def ok(2) sv)
  have root: "se_graph_root_hash audited_envelope = [2, 2]" by (simp add: audited_envelope_def sample_envelope_def)
  have deps: "snapshot_envelope_dependencies ?ck [8] = [[2, 2], [7]]"
    by (simp add: snapshot_envelope_dependencies_def root option_list_def) (simp add: audited_envelope_def sample_envelope_def)
  have built: "from_store_with_snapshot_dependencies ?ck (object_id_from_bytes identity_codec [8]) (memory_get (gs_store (sample_graph_store identity_codec))) =
      Ok \<lparr>ob_root = [8], ob_objects = [([2, 2], [2, 2]), ([7], [7]), ([8], [8])]\<rparr>"
    by (simp add: from_store_with_snapshot_dependencies_def deps id sample_objects memory_get_def bt_get_def bt_contains_key_def)
  have d: "[7] \<in> set (snapshot_envelope_dependencies ?ck [8])" by (simp add: deps)
  have lost: "[7] \<notin> reachable_objects identity_codec sample_record_codec ?m"
    unfolding m by (simp add: reachable_objects_def root sample_encodes id)
  have dec: "dec_snapshot ?ck [8] = Some audited_envelope" by simp
  from gc_loses_dependencies[OF ok(1) hash_iteration_rev hash_iteration_rev l sv(1) sample_encodes(2) dec built d lost]
  show ?thesis unfolding id .
qed

text \<open>
  C27. The retention diagnostics predict the collection: in a store of fewer than
  two to the sixty-fourth snapshots, the report marks the n-th snapshot in time
  order as eligible for pruning iff the collection with the same policy, holds
  and clock removes it, and the collection keeps it unchanged otherwise.
\<close>

theorem retention_report_predicts_gc:
  assumes "graph_store_ok c k B st" "hash_iteration ord" "list_snapshots k ord st = Ok vs"
    and "length vs \<le> unat (- 1 :: u64)" "n < length vs" "v = by_time vs ! n"
  shows "\<exists>r report st'. diagnose_retention_policy k ord st policy holds now = Ok r \<and>
    gc_unreferenced k ord st policy holds now = (Ok report, st') \<and>
    load_snapshot k st' (se_id v) =
      Ok (if snapshot_prune_eligible (of_nat n) \<in> set (rr_issues r) then None else Some v)"
proof -
  obtain r where r: "diagnose_retention_policy k ord st policy holds now = Ok r"
    "rr_issues r = describe_retention_policy_issues vs policy holds now"
    by (simp add: diagnose_retention_policy_def assms(3) Let_def)
  have mem: "snapshot_prune_eligible (of_nat n) \<in> set (rr_issues r) \<longleftrightarrow> \<not> survives policy holds now v"
    using prune_eligible_iff[OF assms(4,5)] by (simp add: r(2) assms(6))
  have "v \<in> set vs" using assms(5,6) by (metis length_by_time nth_mem set_by_time)
  moreover obtain vs' where "list_snapshots k ord st = Ok vs'" "\<And>v. v \<in> set vs' \<longleftrightarrow> stored k st (se_id v) = Some v"
    by (rule list_snapshots_Ok[OF assms(1,2)]) blast
  ultimately have v: "stored k st (se_id v) = Some v" using assms(3) by simp
  obtain report st' where gc: "gc_unreferenced k ord st policy holds now = (Ok report, st')"
    "graph_store_ok c k B st'" "stored k st' = surviving policy holds now (stored k st)"
    by (rule gc_unreferenced_Ok[OF assms(1,2)]) blast
  have "load_snapshot k st' (se_id v) =
      Ok (if snapshot_prune_eligible (of_nat n) \<in> set (rr_issues r) then None else Some v)"
    by (simp add: load_stored_snapshot[OF gc(2)] gc(3) surviving_def v mem)
  with r(1) gc(1) show ?thesis by blast
qed

theorem retention_report_predicts_gc_witness:
  "\<exists>r report st'. diagnose_retention_policy sample_record_codec (\<lambda>m. m) (sample_graph_store identity_codec) no_retention
       \<lparr>sh_branch_heads = [], sh_tag_locks = [[2]], sh_audit_holds = []\<rparr> 100 = Ok r \<and>
     gc_unreferenced sample_record_codec (\<lambda>m. m) (sample_graph_store identity_codec) no_retention
       \<lparr>sh_branch_heads = [], sh_tag_locks = [[2]], sh_audit_holds = []\<rparr> 100 = (Ok report, st') \<and>
     load_snapshot sample_record_codec st' [1] =
       Ok (if snapshot_prune_eligible (of_nat 0) \<in> set (rr_issues r) then None else Some (sample_envelope 1 None 5))"
proof -
  have len: "length [sample_envelope 1 None 5, audited_envelope] \<le> unat (- 1 :: u64)"
    using unat_le_max[of 2] by simp
  have n: "0 < length [sample_envelope 1 None 5, audited_envelope]" by simp
  have v: "sample_envelope 1 None 5 = by_time [sample_envelope 1 None 5, audited_envelope] ! 0"
    by (simp add: sample_by_time)
  from retention_report_predicts_gc[OF sample_graph_store_ok(1)[OF identity_codec_inj] hash_iteration_id sample_listing[OF identity_codec_inj] len n v]
  show ?thesis unfolding sample_ids .
qed

text \<open>
  C34. Compaction and its gap. Compacting a range of the snapshots in time order
  stores the covering snapshot and removes the range, but snapshots outside the
  range keep their parent links: a child of a removed snapshot still names it,
  and the diagnostics then report a gap in its parent chain.
\<close>

theorem compaction_leaves_parent_gap:
  assumes "graph_store_ok c k B st" "hash_iteration ord" "list_snapshots k ord st = Ok vs"
    and "i \<le> j" "j < length vs" "ranged = drop i (take (Suc j) (by_time vs))"
    and "rc_encode k (covering_snapshot c ranged) = Ok b" "b \<in> B"
    and "se_id (covering_snapshot c ranged) \<notin> se_id ` set vs"
    and "v \<in> set vs" "v \<notin> set ranged" "se_parent_id v = Some p" "p \<in> se_id ` set ranged"
  shows "\<exists>report st' r. compact_snapshots c k ord st i j = (Ok report, st') \<and>
    cr_covering_snapshot_id report = se_id (covering_snapshot c ranged) \<and>
    load_snapshot k st' (se_id (covering_snapshot c ranged)) = Ok (Some (covering_snapshot c ranged)) \<and>
    load_snapshot k st' (se_id v) = Ok (Some v) \<and> load_snapshot k st' p = Ok None \<and>
    diagnose_snapshot_store k ord st' (gs_store st') input = Ok r \<and>
    ParentChainGap (se_id v) p \<in> set (sr_issues r) \<and> \<not> sr_passed r"
proof -
  let ?cov = "covering_snapshot c ranged"
  obtain st' where st': "compact_snapshots c k ord st i j =
      (Ok \<lparr>cr_snapshots_merged = of_nat (Suc j - i), cr_covering_snapshot_id = se_id ?cov\<rparr>, st')"
    "graph_store_ok c k B st'" "stored k st' = ((stored k st)(se_id ?cov \<mapsto> ?cov)) |` (- se_id ` set ranged)"
    by (rule compact_snapshots_Ok[OF assms(1,3-8) refl]) blast
  obtain vs' where vs': "list_snapshots k ord st = Ok vs'" "\<And>v. v \<in> set vs' \<longleftrightarrow> stored k st (se_id v) = Some v"
    by (rule list_snapshots_Ok[OF assms(1,2)]) blast
  have mem: "w \<in> set vs \<longleftrightarrow> stored k st (se_id w) = Some w" for w using vs' assms(3) by simp
  have sub: "set ranged \<subseteq> set vs" unfolding assms(6) by (metis set_by_time set_drop_subset set_take_subset subset_trans)
  have "se_id v \<notin> se_id ` set ranged"
  proof
    assume "se_id v \<in> se_id ` set ranged"
    then obtain w where w: "w \<in> set ranged" "se_id v = se_id w" by blast
    with sub have "w \<in> set vs" by blast
    with mem[of w] mem[of v] assms(10) w(2) have "w = v" by simp
    with w(1) assms(11) show False by simp
  qed
  moreover have "se_id v \<noteq> se_id ?cov" using assms(9,10) by (metis imageI)
  ultimately have v: "stored k st' (se_id v) = Some v" using mem[of v] assms(10) by (simp add: st'(3))
  have "se_id ?cov \<notin> se_id ` set ranged" using assms(9) sub by blast
  then have cov: "stored k st' (se_id ?cov) = Some ?cov" by (simp add: st'(3))
  have p: "stored k st' p = None" using assms(13) by (auto simp: st'(3) restrict_map_def)
  obtain ws where ws: "list_snapshots k ord st' = Ok ws" "\<And>w. w \<in> set ws \<longleftrightarrow> stored k st' (se_id w) = Some w"
    by (rule list_snapshots_Ok[OF st'(2) assms(2)]) blast
  obtain r where r: "diagnose_snapshot_envelopes ws (gs_store st') input [] = Ok r"
    "set (sr_issues r) = set [] \<union> expected_issues ws (gs_store st') input" "sr_passed r \<longleftrightarrow> sr_issues r = []"
    by (rule diagnose_envelopes_Ok[of ws "gs_store st'" input "[]"])
  have "v \<in> set ws" "p \<notin> se_id ` set ws" using ws(2) v p by auto
  with assms(12) have "ParentChainGap (se_id v) p \<in> expected_issues ws (gs_store st') input"
    unfolding expected_issues_def by blast
  with r have gap: "ParentChainGap (se_id v) p \<in> set (sr_issues r)" "\<not> sr_passed r" by auto
  have "diagnose_snapshot_store k ord st' (gs_store st') input = Ok r"
    by (simp add: diagnose_snapshot_store_def ws(1) r(1))
  with st'(1) gap v cov p show ?thesis by (simp add: load_stored_snapshot[OF st'(2)])
qed

theorem compaction_leaves_parent_gap_witness:
  "\<exists>report st' r. compact_snapshots marked_codec sample_record_codec (\<lambda>m. m) (sample_graph_store marked_codec) 0 0 = (Ok report, st') \<and>
     load_snapshot sample_record_codec st' [2] = Ok (Some audited_envelope) \<and> load_snapshot sample_record_codec st' [1] = Ok None \<and>
     diagnose_snapshot_store sample_record_codec (\<lambda>m. m) st' (gs_store st') \<lparr>sd_manifest_entries = [], sd_index_entries = []\<rparr> = Ok r \<and>
     ParentChainGap [2] [1] \<in> set (sr_issues r)"
proof -
  let ?vs = "[sample_envelope 1 None 5, audited_envelope]"
  note ok = sample_graph_store_ok[OF marked_codec_inj]
  have range: "[sample_envelope 1 None 5] = drop 0 (take (Suc 0) (by_time ?vs))" by (simp add: sample_by_time)
  have j: "0 < length ?vs" by simp
  have enc: "rc_encode sample_record_codec (covering_snapshot marked_codec [sample_envelope 1 None 5]) = Ok [6]"
    using sample_encodes(3) by (simp only: sample_covering_def)
  have fresh: "se_id (covering_snapshot marked_codec [sample_envelope 1 None 5]) \<notin> se_id ` set ?vs"
    unfolding sample_covering_def[symmetric] by (simp add: sample_ids)
  have v: "audited_envelope \<in> set ?vs" "audited_envelope \<notin> set [sample_envelope 1 None 5]"
    using sample_ids(1,2) by auto
  have p: "[1] \<in> se_id ` set [sample_envelope 1 None 5]" by (simp add: sample_ids)
  from compaction_leaves_parent_gap[OF ok(1) hash_iteration_id sample_listing[OF marked_codec_inj] order.refl j range enc UNIV_I
      fresh v sample_ids(4) p, of "\<lparr>sd_manifest_entries = [], sd_index_entries = []\<rparr>"]
  show ?thesis unfolding sample_ids by blast
qed

end
