(* ===== verification/Anf_Model.thy ===== *)
theory Anf_Model
  imports Semantic_Graph AIL_Strings
begin

text \<open>
  The compiler's A-normal form: \<^verbatim>\<open>anf.rs\<close> and the literals of
  \<^verbatim>\<open>core_ir/primitives.rs\<close> with the analyses the optimisation passes rely on:
  constructor patterns (\<^verbatim>\<open>pattern_string.rs\<close>), purity, node count and variable
  use (\<^verbatim>\<open>optimize/purity.rs\<close>), and free variables
  (\<^verbatim>\<open>wasm_abi/bindings.rs\<close>).  A 64-bit float is its bit pattern; a match arm is
  the pair of its pattern and body, a select clause the triple of channel,
  binding and body.  The Rust constructors \<^verbatim>\<open>Let\<close>, \<^verbatim>\<open>If\<close> are \<open>LetE\<close>, \<open>IfE\<close>, and the
  literal \<^verbatim>\<open>Int\<close> is \<open>IntL\<close>.
\<close>

section \<open>Expressions\<close>

datatype LiteralValue =
  Bool bool | IntL "64 word" | Float "64 word" | Text string | Unit | Bytes "u8 list"

text \<open>The derived \<^verbatim>\<open>PartialEq\<close>: floats compare as IEEE 754 numbers.\<close>

definition f64_is_nan :: "64 word \<Rightarrow> bool" where
  "f64_is_nan w \<longleftrightarrow> 0x7FF0000000000000 < take_bit 63 w"

definition f64_eq :: "64 word \<Rightarrow> 64 word \<Rightarrow> bool" where
  "f64_eq a b \<longleftrightarrow> \<not> f64_is_nan a \<and> \<not> f64_is_nan b \<and> (a = b \<or> take_bit 63 a = 0 \<and> take_bit 63 b = 0)"

fun literal_eq :: "LiteralValue \<Rightarrow> LiteralValue \<Rightarrow> bool" where
  "literal_eq (Float a) (Float b) = f64_eq a b"
| "literal_eq a b = (a = b)"

datatype (plugins only: size code) 'l AnfTree =
  Literal 'l
| Var string
| LetE string "'l AnfTree" "'l AnfTree"
| IfE string "'l AnfTree" "'l AnfTree"
| Call string "string list"
| FieldGet string string
| Return "'l AnfTree"
| Seq "'l AnfTree list"
| Match string "(string \<times> 'l AnfTree) list"
| Lambda "string list" "string list" "'l AnfTree"
| RecordNew "(string \<times> 'l AnfTree) list"
| FieldUpdate string string "'l AnfTree"
| TupleNew "'l AnfTree list"
| VariantNew string "'l AnfTree option"
| ListNew "'l AnfTree list"
| Loop "'l AnfTree"
| Break "'l AnfTree"
| Continue
| WhileLoop string "'l AnfTree"
| ShortCircuitAnd string "'l AnfTree"
| ShortCircuitOr string "'l AnfTree"
| EffectCall string string "string list"
| Dispatch string string "string list"
| TaskSpawn string "string list"
| ChannelSend string string
| ChannelReceive string
| RuntimeCheck string string string
| ResourceAcquire string "string list"
| ResourceRelease string
| TaskAwait string
| TaskCancel string
| TaskGroup "'l AnfTree"
| ChannelNew "u64 option"
| Select "(string \<times> string \<times> 'l AnfTree) list"
| Timeout string "'l AnfTree"
| CellNew string
| CellGet string
| CellSet string string
| Assume string string
| Abort string
| IndexGet string string
| MapNew "(string \<times> string) list"
| SetNew "string list"
| ForEach string string "'l AnfTree"
| Fold string string string
| Placeholder

type_synonym AnfExpr = "LiteralValue AnfTree"

record AnfBinding =
  ab_source_ref :: NodeRef
  ab_name :: string
  ab_expr :: AnfExpr

section \<open>Constructor patterns\<close>

definition strip_suffix_char :: "char \<Rightarrow> string \<Rightarrow> string option" where
  "strip_suffix_char c s = (if s \<noteq> [] \<and> last s = c then Some (butlast s) else None)"

definition parse_constructor_pattern :: "string \<Rightarrow> (string \<times> string option) option" where
  "parse_constructor_pattern pat =
    (let trimmed = trim pat in
     case trimmed of [] \<Rightarrow> None
     | first_char # _ \<Rightarrow>
         if \<not> is_uppercase first_char then None
         else (case find_char CHR ''('' trimmed of
             None \<Rightarrow> Some (trimmed, None)
           | Some p \<Rightarrow>
               (let tag = trim (take p trimmed); after = trim (drop (p + 1) trimmed) in
                case strip_suffix_char CHR '')'' after of
                  None \<Rightarrow> None
                | Some after \<Rightarrow>
                    (let binding = trim after in
                     if CHR ''('' \<in> set binding \<or> CHR '','' \<in> set binding then None
                     else Some (tag, Some binding)))))"

definition arm_payload_binding :: "string \<Rightarrow> string option" where
  "arm_payload_binding pat =
    (case parse_constructor_pattern pat of
       Some (_, Some name) \<Rightarrow> (if name = ''_'' then None else Some name)
     | _ \<Rightarrow> None)"

definition is_unsupported_pattern_shape :: "string \<Rightarrow> bool" where
  "is_unsupported_pattern_shape pat =
    (let trimmed = trim pat in
     case trimmed of [] \<Rightarrow> False
     | c # _ \<Rightarrow>
         if c = CHR ''{'' then True
         else if is_uppercase c then
           (case find_char CHR ''('' trimmed of None \<Rightarrow> False
            | Some p \<Rightarrow>
                (let payload = trim (drop (p + 1) trimmed);
                     payload = trim (case strip_suffix_char CHR '')'' payload of None \<Rightarrow> payload | Some r \<Rightarrow> r) in
                 CHR ''('' \<in> set payload \<or> CHR '','' \<in> set payload))
         else False)"

section \<open>Purity\<close>

fun is_pure :: "'l AnfTree \<Rightarrow> bool" where
  "is_pure (Literal l) = True"
| "is_pure (Var x) = True"
| "is_pure (Call f args) = True"
| "is_pure (FieldGet r f) = True"
| "is_pure (RecordNew fs) = True"
| "is_pure (TupleNew es) = True"
| "is_pure (VariantNew t p) = True"
| "is_pure (ListNew es) = True"
| "is_pure (Lambda ps cs b) = True"
| "is_pure (LetE x value body) = (is_pure value \<and> is_pure body)"
| "is_pure (IfE c t e) = (is_pure t \<and> is_pure e)"
| "is_pure (Seq es) = list_all is_pure es"
| "is_pure (Match s arms) = list_all (\<lambda>(pat, body). is_pure body) arms"
| "is_pure _ = False"

record PurityBlockReason =
  pbr_shape :: string
  pbr_reason :: string

definition blocked :: "string \<Rightarrow> string \<Rightarrow> PurityBlockReason option" where
  "blocked shape reason = Some \<lparr>pbr_shape = shape, pbr_reason = reason\<rparr>"

fun first_some :: "('a \<Rightarrow> 'b option) \<Rightarrow> 'a list \<Rightarrow> 'b option" where
  "first_some f [] = None"
| "first_some f (x # xs) = (case f x of None \<Rightarrow> first_some f xs | Some y \<Rightarrow> Some y)"

lemma first_some_cong [fundef_cong]:
  "xs = ys \<Longrightarrow> (\<And>x. x \<in> set ys \<Longrightarrow> f x = g x) \<Longrightarrow> first_some f xs = first_some g ys"
  by (induction ys arbitrary: xs) (auto split: option.splits)

lemma first_some_None: "first_some f xs = None \<longleftrightarrow> (\<forall>x \<in> set xs. f x = None)"
  by (induction xs) (auto split: option.splits)

fun purity_blocking_reason :: "'l AnfTree \<Rightarrow> PurityBlockReason option" where
  "purity_blocking_reason (LetE x value body) =
    (case purity_blocking_reason value of None \<Rightarrow> purity_blocking_reason body | Some r \<Rightarrow> Some r)"
| "purity_blocking_reason (IfE c t e) =
    (case purity_blocking_reason t of None \<Rightarrow> purity_blocking_reason e | Some r \<Rightarrow> Some r)"
| "purity_blocking_reason (Seq es) = first_some purity_blocking_reason es"
| "purity_blocking_reason (Match s arms) = first_some (\<lambda>(pat, body). purity_blocking_reason body) arms"
| "purity_blocking_reason (Return e) = blocked ''Return'' ''alters control flow''"
| "purity_blocking_reason (FieldUpdate r f v) = blocked ''FieldUpdate'' ''writes derived state''"
| "purity_blocking_reason (Loop b) = blocked ''Loop'' ''may not terminate''"
| "purity_blocking_reason (WhileLoop c b) = blocked ''Loop'' ''may not terminate''"
| "purity_blocking_reason (Break v) = blocked ''LoopControl'' ''alters loop control flow''"
| "purity_blocking_reason Continue = blocked ''LoopControl'' ''alters loop control flow''"
| "purity_blocking_reason (ShortCircuitAnd l r) = blocked ''ShortCircuit'' ''conditional evaluation order is observable''"
| "purity_blocking_reason (ShortCircuitOr l r) = blocked ''ShortCircuit'' ''conditional evaluation order is observable''"
| "purity_blocking_reason (EffectCall c f a) = blocked ''EffectCall'' ''external effect''"
| "purity_blocking_reason (Dispatch h m a) = blocked ''EffectCall'' ''external effect''"
| "purity_blocking_reason (TaskSpawn f a) = blocked ''Task'' ''scheduler interaction''"
| "purity_blocking_reason (TaskAwait t) = blocked ''Task'' ''scheduler interaction''"
| "purity_blocking_reason (TaskCancel t) = blocked ''Task'' ''scheduler interaction''"
| "purity_blocking_reason (TaskGroup b) = blocked ''Task'' ''scheduler interaction''"
| "purity_blocking_reason (ChannelSend c v) = blocked ''Channel'' ''communication effect''"
| "purity_blocking_reason (ChannelReceive c) = blocked ''Channel'' ''communication effect''"
| "purity_blocking_reason (ChannelNew n) = blocked ''Channel'' ''communication effect''"
| "purity_blocking_reason (Select bs) = blocked ''Channel'' ''communication effect''"
| "purity_blocking_reason (RuntimeCheck r c m) = blocked ''RuntimeCheck'' ''runtime validation or trap''"
| "purity_blocking_reason (Assume p r) = blocked ''RuntimeCheck'' ''runtime validation or trap''"
| "purity_blocking_reason (Abort m) = blocked ''RuntimeCheck'' ''runtime validation or trap''"
| "purity_blocking_reason Placeholder = blocked ''RuntimeCheck'' ''runtime validation or trap''"
| "purity_blocking_reason (ResourceAcquire r a) = blocked ''Resource'' ''resource lifetime effect''"
| "purity_blocking_reason (ResourceRelease h) = blocked ''Resource'' ''resource lifetime effect''"
| "purity_blocking_reason (Timeout d b) = blocked ''Timeout'' ''time-dependent control flow''"
| "purity_blocking_reason (CellNew i) = blocked ''Cell'' ''mutable cell access''"
| "purity_blocking_reason (CellGet c) = blocked ''Cell'' ''mutable cell access''"
| "purity_blocking_reason (CellSet c v) = blocked ''Cell'' ''mutable cell access''"
| "purity_blocking_reason (IndexGet c i) = blocked ''IndexGet'' ''bounds-sensitive access''"
| "purity_blocking_reason (MapNew es) = blocked ''CollectionNew'' ''collection allocation semantics not modeled as pure''"
| "purity_blocking_reason (SetNew es) = blocked ''CollectionNew'' ''collection allocation semantics not modeled as pure''"
| "purity_blocking_reason (ForEach x c b) = blocked ''Iterator'' ''iterator evaluation semantics not modeled as pure''"
| "purity_blocking_reason (Fold i l f) = blocked ''Iterator'' ''iterator evaluation semantics not modeled as pure''"
| "purity_blocking_reason _ = None"

text \<open>The reason reported to the diagnostics is absent exactly for the expressions the passes treat as pure.\<close>

lemma purity_reason_None_iff: "purity_blocking_reason e = None \<longleftrightarrow> is_pure e"
  by (induction e rule: is_pure.induct)
    (auto simp: blocked_def first_some_None list_all_iff split: option.splits)

section \<open>Size and variables\<close>

fun anf_node_count :: "'l AnfTree \<Rightarrow> nat" where
  "anf_node_count (LetE x value body) = 1 + anf_node_count value + anf_node_count body"
| "anf_node_count (IfE c t e) = 1 + anf_node_count t + anf_node_count e"
| "anf_node_count (Return e) = 1 + anf_node_count e"
| "anf_node_count (Loop b) = 1 + anf_node_count b"
| "anf_node_count (Break v) = 1 + anf_node_count v"
| "anf_node_count (TaskGroup b) = 1 + anf_node_count b"
| "anf_node_count (Timeout d b) = 1 + anf_node_count b"
| "anf_node_count (Lambda ps cs b) = 1 + anf_node_count b"
| "anf_node_count (Seq es) = 1 + sum_list (map anf_node_count es)"
| "anf_node_count (TupleNew es) = 1 + sum_list (map anf_node_count es)"
| "anf_node_count (ListNew es) = 1 + sum_list (map anf_node_count es)"
| "anf_node_count (RecordNew fs) = 1 + sum_list (map (\<lambda>(f, e). anf_node_count e) fs)"
| "anf_node_count (FieldUpdate r f v) = 1 + anf_node_count v"
| "anf_node_count (VariantNew t p) = 1 + (case p of None \<Rightarrow> 0 | Some e \<Rightarrow> anf_node_count e)"
| "anf_node_count (Match s arms) = 1 + sum_list (map (\<lambda>(pat, body). anf_node_count body) arms)"
| "anf_node_count (Select bs) = 1 + sum_list (map (\<lambda>(ch, x, body). anf_node_count body) bs)"
| "anf_node_count _ = 1"

fun uses_var :: "'l AnfTree \<Rightarrow> string \<Rightarrow> bool" where
  "uses_var (Var x) name = (x = name)"
| "uses_var (LetE x value body) name = (uses_var value name \<or> x \<noteq> name \<and> uses_var body name)"
| "uses_var (IfE c t e) name = (c = name \<or> uses_var t name \<or> uses_var e name)"
| "uses_var (Call f args) name = (name \<in> set args)"
| "uses_var (FieldGet r f) name = (r = name)"
| "uses_var (Return e) name = uses_var e name"
| "uses_var (Loop b) name = uses_var b name"
| "uses_var (Break v) name = uses_var v name"
| "uses_var (TaskGroup b) name = uses_var b name"
| "uses_var (Timeout d b) name = uses_var b name"
| "uses_var (ShortCircuitAnd l r) name = (l = name \<or> uses_var r name)"
| "uses_var (ShortCircuitOr l r) name = (l = name \<or> uses_var r name)"
| "uses_var (Seq es) name = list_ex (\<lambda>e. uses_var e name) es"
| "uses_var (TupleNew es) name = list_ex (\<lambda>e. uses_var e name) es"
| "uses_var (ListNew es) name = list_ex (\<lambda>e. uses_var e name) es"
| "uses_var (Match s arms) name = (s = name \<or> list_ex (\<lambda>(pat, body). uses_var body name) arms)"
| "uses_var (Lambda ps cs b) name = (name \<in> set cs \<or> name \<notin> set ps \<and> uses_var b name)"
| "uses_var (RecordNew fs) name = list_ex (\<lambda>(f, e). uses_var e name) fs"
| "uses_var (FieldUpdate r f v) name = (r = name \<or> uses_var v name)"
| "uses_var (VariantNew t p) name = (case p of None \<Rightarrow> False | Some e \<Rightarrow> uses_var e name)"
| "uses_var (WhileLoop c b) name = (c = name \<or> uses_var b name)"
| "uses_var (EffectCall c f args) name = (name \<in> set args)"
| "uses_var (Dispatch h m args) name = (name \<in> set args)"
| "uses_var (TaskSpawn f args) name = (name \<in> set args)"
| "uses_var (ResourceAcquire r args) name = (name \<in> set args)"
| "uses_var (ChannelSend c v) name = (c = name \<or> v = name)"
| "uses_var (CellSet c v) name = (c = name \<or> v = name)"
| "uses_var (ChannelReceive c) name = (c = name)"
| "uses_var (ResourceRelease h) name = (h = name)"
| "uses_var (TaskAwait t) name = (t = name)"
| "uses_var (TaskCancel t) name = (t = name)"
| "uses_var (CellGet c) name = (c = name)"
| "uses_var (CellNew i) name = (i = name)"
| "uses_var (RuntimeCheck r c m) name = (c = name)"
| "uses_var (Select bs) name = list_ex (\<lambda>(ch, x, body). ch = name \<or> uses_var body name) bs"
| "uses_var (Fold i l f) name = (i = name \<or> l = name \<or> f = name)"
| "uses_var (IndexGet c i) name = (c = name \<or> i = name)"
| "uses_var (MapNew es) name = list_ex (\<lambda>(k, v). k = name \<or> v = name) es"
| "uses_var (SetNew es) name = (name \<in> set es)"
| "uses_var (ForEach x c b) name = (c = name \<or> x \<noteq> name \<and> uses_var b name)"
| "uses_var _ name = False"

text \<open>\<^verbatim>\<open>bound\<close> is the scope stack; \<^verbatim>\<open>out\<close> collects each free name once, in order of first occurrence.\<close>

definition push_free :: "string list \<Rightarrow> string \<Rightarrow> string list \<Rightarrow> string list" where
  "push_free bound name out = (if name \<notin> set bound \<and> name \<notin> set out then out @ [name] else out)"

fun collect_free_vars :: "'l AnfTree \<Rightarrow> string list \<Rightarrow> string list \<Rightarrow> string list" where
  "collect_free_vars (Var x) bound out = push_free bound x out"
| "collect_free_vars (LetE x value body) bound out =
    collect_free_vars body (x # bound) (collect_free_vars value bound out)"
| "collect_free_vars (IfE c t e) bound out =
    collect_free_vars e bound (collect_free_vars t bound (push_free bound c out))"
| "collect_free_vars (Call f args) bound out = fold (push_free bound) args out"
| "collect_free_vars (EffectCall c f args) bound out = fold (push_free bound) args out"
| "collect_free_vars (Return e) bound out = collect_free_vars e bound out"
| "collect_free_vars (ShortCircuitAnd l r) bound out = collect_free_vars r bound out"
| "collect_free_vars (ShortCircuitOr l r) bound out = collect_free_vars r bound out"
| "collect_free_vars (Loop b) bound out = collect_free_vars b bound out"
| "collect_free_vars (Break v) bound out = collect_free_vars v bound out"
| "collect_free_vars (FieldUpdate r f v) bound out = collect_free_vars v bound out"
| "collect_free_vars (WhileLoop c b) bound out = collect_free_vars b bound (push_free bound c out)"
| "collect_free_vars (Seq es) bound out = fold (\<lambda>e out. collect_free_vars e bound out) es out"
| "collect_free_vars (TupleNew es) bound out = fold (\<lambda>e out. collect_free_vars e bound out) es out"
| "collect_free_vars (ListNew es) bound out = fold (\<lambda>e out. collect_free_vars e bound out) es out"
| "collect_free_vars (Match s arms) bound out =
    fold (\<lambda>(pat, body) out.
      collect_free_vars body
        (case arm_payload_binding pat of Some name \<Rightarrow> name # bound | None \<Rightarrow> bound) out) arms out"
| "collect_free_vars (Lambda ps cs b) bound out =
    (if cs = [] then collect_free_vars b (rev ps @ bound) out
     else fold (push_free bound) cs out)"
| "collect_free_vars (RecordNew fs) bound out = fold (\<lambda>(f, e) out. collect_free_vars e bound out) fs out"
| "collect_free_vars (VariantNew t p) bound out =
    (case p of None \<Rightarrow> out | Some e \<Rightarrow> collect_free_vars e bound out)"
| "collect_free_vars _ bound out = out"

definition binding_params :: "AnfBinding \<Rightarrow> string list" where
  "binding_params b = collect_free_vars (ab_expr b) [] []"

fun lambda_body_params :: "AnfExpr \<Rightarrow> string list" where
  "lambda_body_params (Lambda ps cs b) = ps"
| "lambda_body_params _ = []"

section \<open>Free variables\<close>

fun free_vars :: "'l AnfTree \<Rightarrow> string set" where
  "free_vars (Literal l) = {}"
| "free_vars (Var x) = {x}"
| "free_vars (LetE x value body) = free_vars value \<union> (free_vars body - {x})"
| "free_vars (IfE c t e) = insert c (free_vars t \<union> free_vars e)"
| "free_vars (Call f args) = set args"
| "free_vars (FieldGet r f) = {r}"
| "free_vars (Return e) = free_vars e"
| "free_vars (Seq es) = (\<Union>e \<in> set es. free_vars e)"
| "free_vars (Match s arms) =
    insert s (\<Union>(pat, body) \<in> set arms.
      free_vars body - (case arm_payload_binding pat of None \<Rightarrow> {} | Some x \<Rightarrow> {x}))"
| "free_vars (Lambda ps cs b) = free_vars b - set ps"
| "free_vars (RecordNew fs) = (\<Union>(f, e) \<in> set fs. free_vars e)"
| "free_vars (FieldUpdate r f v) = insert r (free_vars v)"
| "free_vars (TupleNew es) = (\<Union>e \<in> set es. free_vars e)"
| "free_vars (VariantNew t p) = (case p of None \<Rightarrow> {} | Some e \<Rightarrow> free_vars e)"
| "free_vars (ListNew es) = (\<Union>e \<in> set es. free_vars e)"
| "free_vars (Loop b) = free_vars b"
| "free_vars (Break v) = free_vars v"
| "free_vars Continue = {}"
| "free_vars (WhileLoop c b) = insert c (free_vars b)"
| "free_vars (ShortCircuitAnd l r) = insert l (free_vars r)"
| "free_vars (ShortCircuitOr l r) = insert l (free_vars r)"
| "free_vars (EffectCall c f args) = set args"
| "free_vars (Dispatch h m args) = set args"
| "free_vars (TaskSpawn f args) = set args"
| "free_vars (ChannelSend c v) = {c, v}"
| "free_vars (ChannelReceive c) = {c}"
| "free_vars (RuntimeCheck r c m) = {c}"
| "free_vars (ResourceAcquire r args) = set args"
| "free_vars (ResourceRelease h) = {h}"
| "free_vars (TaskAwait t) = {t}"
| "free_vars (TaskCancel t) = {t}"
| "free_vars (TaskGroup b) = free_vars b"
| "free_vars (ChannelNew n) = {}"
| "free_vars (Select bs) = (\<Union>(ch, x, body) \<in> set bs. insert ch (free_vars body - {x}))"
| "free_vars (Timeout d b) = insert d (free_vars b)"
| "free_vars (CellNew i) = {i}"
| "free_vars (CellGet c) = {c}"
| "free_vars (CellSet c v) = {c, v}"
| "free_vars (Assume p r) = {}"
| "free_vars (Abort m) = {}"
| "free_vars (IndexGet c i) = {c, i}"
| "free_vars (MapNew es) = (\<Union>(k, v) \<in> set es. {k, v})"
| "free_vars (SetNew es) = set es"
| "free_vars (ForEach x c b) = insert c (free_vars b - {x})"
| "free_vars (Fold i l f) = {i, l, f}"
| "free_vars Placeholder = {}"

text \<open>Expressions in which every variable stands where \<^const>\<open>collect_free_vars\<close> looks.\<close>

fun collectable :: "'l AnfTree \<Rightarrow> bool" where
  "collectable (Literal l) = True"
| "collectable (Var x) = True"
| "collectable (LetE x value body) = (collectable value \<and> collectable body)"
| "collectable (IfE c t e) = (collectable t \<and> collectable e)"
| "collectable (Call f args) = True"
| "collectable (EffectCall c f args) = True"
| "collectable (Return e) = collectable e"
| "collectable (Loop b) = collectable b"
| "collectable (Break v) = collectable v"
| "collectable Continue = True"
| "collectable (WhileLoop c b) = collectable b"
| "collectable (Seq es) = list_all collectable es"
| "collectable (TupleNew es) = list_all collectable es"
| "collectable (ListNew es) = list_all collectable es"
| "collectable (Lambda ps cs b) =
    (if cs = [] then collectable b else set cs = free_vars b - set ps)"
| "collectable (RecordNew fs) = list_all (\<lambda>(f, e). collectable e) fs"
| "collectable (VariantNew t p) = (case p of None \<Rightarrow> True | Some e \<Rightarrow> collectable e)"
| "collectable (ChannelNew n) = True"
| "collectable (Assume p r) = True"
| "collectable (Abort m) = True"
| "collectable Placeholder = True"
| "collectable _ = False"

lemma set_push_free [simp]: "set (push_free bound x out) = set out \<union> ({x} - set bound)"
  by (auto simp: push_free_def)

lemma set_fold_collect:
  assumes "\<And>e out. e \<in> set es \<Longrightarrow> set (c e out) = set out \<union> (F e - X)"
  shows "set (fold c es out) = set out \<union> ((\<Union>e \<in> set es. F e) - X)"
  using assms by (induction es arbitrary: out) auto

lemma set_fold_push [simp]: "set (fold (push_free bound) xs out) = set out \<union> (set xs - set bound)"
  by (induction xs arbitrary: out) auto

lemma set_collect_free_vars:
  "collectable e \<Longrightarrow> set (collect_free_vars e bound out) = set out \<union> (free_vars e - set bound)"
proof (induction e bound out rule: collect_free_vars.induct)
  case (18 fs bound out)
  have "set (fold (\<lambda>(f, e) out. collect_free_vars e bound out) fs out) = set out \<union> ((\<Union>p \<in> set fs. free_vars (snd p)) - set bound)"
    using 18 by (intro set_fold_collect) (auto simp: list_all_iff)
  then show ?case by (auto simp: case_prod_beta)
next
  case (17 ps cs b bound out)
  then show ?case by (auto split: if_splits)
qed (auto simp: list_all_iff set_fold_collect[where F = free_vars] split: option.splits)

lemma distinct_push_free: "distinct out \<Longrightarrow> distinct (push_free bound x out)"
  by (simp add: push_free_def)

lemma fold_keeps: "(\<And>x out. x \<in> set xs \<Longrightarrow> P out \<Longrightarrow> P (c x out)) \<Longrightarrow> P out \<Longrightarrow> P (fold c xs out)"
  by (induction xs arbitrary: out) auto

lemma distinct_collect_free_vars: "distinct out \<Longrightarrow> distinct (collect_free_vars e bound out)"
  by (induction e bound out rule: collect_free_vars.induct)
    (auto simp: distinct_push_free split: option.splits intro!: fold_keeps[where P = distinct])

end
