(* ===== verification/Anf_Optimize.thy ===== *)
theory Anf_Optimize
  imports Anf_Model "HOL-Library.Signed_Division"
begin

text \<open>
  The optimisation passes of \<^verbatim>\<open>ail-compiler/src/optimize\<close>: constant folding with
  dead-let elimination (\<^verbatim>\<open>const_fold.rs\<close>), removal of discarded sequence elements
  (\<^verbatim>\<open>dce.rs\<close>), common subexpressions (\<^verbatim>\<open>cse.rs\<close>) and inlining of small functions
  (\<^verbatim>\<open>inline.rs\<close>).  A signed 64-bit integer is a 64-bit word read by \<^const>\<open>sint\<close>.
  The constant environment is a map; the passes restore it on the way out of a
  binding, so it is passed down.
\<close>

unbundle bit_operations_syntax

section \<open>Signed 64-bit arithmetic\<close>

type_synonym i64 = "64 word"

abbreviation i64_MIN :: int where "i64_MIN \<equiv> - (2 ^ 63)"
abbreviation i64_MAX :: int where "i64_MAX \<equiv> 2 ^ 63 - 1"

definition checked :: "int \<Rightarrow> i64 option" where
  "checked r = (if i64_MIN \<le> r \<and> r \<le> i64_MAX then Some (of_int r) else None)"

definition saturated :: "int \<Rightarrow> i64" where
  "saturated r = of_int (if r < i64_MIN then i64_MIN else if r > i64_MAX then i64_MAX else r)"

definition checked_div :: "i64 \<Rightarrow> i64 \<Rightarrow> i64 option" where
  "checked_div a b = (if b = 0 then None else checked (sint a sdiv sint b))"

definition checked_rem :: "i64 \<Rightarrow> i64 \<Rightarrow> i64 option" where
  "checked_rem a b = (if b = 0 \<or> sint a = i64_MIN \<and> sint b = - 1 then None else Some (of_int (sint a smod sint b)))"

text \<open>\<^verbatim>\<open>amount as u32\<close>, of which the shift uses the low six bits.\<close>

definition shift_amount :: "i64 \<Rightarrow> nat" where
  "shift_amount amount = unat ((ucast amount :: u32) AND 63)"

definition unwrap_or :: "'a option \<Rightarrow> 'a \<Rightarrow> 'a" where
  "unwrap_or r fallback = (case r of None \<Rightarrow> fallback | Some x \<Rightarrow> x)"

section \<open>Constant folding\<close>

type_synonym const_env = "string \<Rightarrow> LiteralValue option"

definition restore_env :: "const_env \<Rightarrow> string \<Rightarrow> LiteralValue option \<Rightarrow> const_env" where
  "restore_env env name previous =
    (case previous of Some l \<Rightarrow> env(name := Some l) | None \<Rightarrow> env(name := None))"

lemma restore_env_undoes: "restore_env (env(name := l)) name (env name) = env"
  by (auto simp: restore_env_def fun_upd_idem split: option.splits)

definition int_arg :: "const_env \<Rightarrow> string \<Rightarrow> i64 option" where
  "int_arg env arg =
    (case env arg of Some (IntL v) \<Rightarrow> Some v | Some (Bool b) \<Rightarrow> Some (if b then 1 else 0) | _ \<Rightarrow> None)"

fun int_args :: "const_env \<Rightarrow> string list \<Rightarrow> i64 list option" where
  "int_args env [] = Some []"
| "int_args env (a # as) =
    (case int_arg env a of None \<Rightarrow> None
     | Some v \<Rightarrow> (case int_args env as of None \<Rightarrow> None | Some vs \<Rightarrow> Some (v # vs)))"

definition fold_unary :: "string \<Rightarrow> i64 \<Rightarrow> LiteralValue option" where
  "fold_unary func value =
    (if func \<in> {''int.bit_not'', ''int_bit_not''} then Some (IntL (NOT value))
     else if func \<in> {''int.saturating_neg'', ''int_saturating_neg''} then Some (IntL (saturated (- sint value)))
     else if func \<in> {''int.wrapping_neg'', ''int_wrapping_neg''} then Some (IntL (- value))
     else None)"

definition fold_binary :: "string \<Rightarrow> i64 \<Rightarrow> i64 \<Rightarrow> LiteralValue option" where
  "fold_binary func a b =
    (if func \<in> {''i64.add'', ''+'', ''add''} then Some (IntL (a + b))
     else if func \<in> {''i64.sub'', ''-'', ''sub''} then Some (IntL (a - b))
     else if func \<in> {''i64.mul'', ''*'', ''mul''} then Some (IntL (a * b))
     else if func \<in> {''i64.div_s'', ''/'', ''div''} then map_option IntL (checked_div a b)
     else if func \<in> {''i64.rem_s'', ''%'', ''mod''} then map_option IntL (checked_rem a b)
     else if func \<in> {''i64.and'', ''and'', ''int.bit_and'', ''int_bit_and''} then Some (IntL (a AND b))
     else if func \<in> {''i64.or'', ''or'', ''int.bit_or'', ''int_bit_or''} then Some (IntL (a OR b))
     else if func \<in> {''i64.xor'', ''xor'', ''int.bit_xor'', ''int_bit_xor''} then Some (IntL (a XOR b))
     else if func \<in> {''int.shift_left'', ''int_shift_left''} then Some (IntL (push_bit (shift_amount b) a))
     else if func \<in> {''int.shift_right'', ''int_shift_right''} then Some (IntL (signed_drop_bit (shift_amount b) a))
     else if func \<in> {''int.shift_right_unsigned'', ''int_shift_right_unsigned''}
       then Some (IntL (drop_bit (shift_amount b) a))
     else if func \<in> {''int.min'', ''int_min''} then Some (IntL (if sint b < sint a then b else a))
     else if func \<in> {''int.max'', ''int_max''} then Some (IntL (if sint b < sint a then a else b))
     else if func \<in> {''int.abs_or'', ''int_abs_or''} then Some (IntL (unwrap_or (checked \<bar>sint a\<bar>) b))
     else if func \<in> {''int.neg_or'', ''int_neg_or''} then Some (IntL (unwrap_or (checked (- sint a)) b))
     else if func \<in> {''int.wrapping_add'', ''int_wrapping_add''} then Some (IntL (a + b))
     else if func \<in> {''int.wrapping_sub'', ''int_wrapping_sub''} then Some (IntL (a - b))
     else if func \<in> {''int.wrapping_mul'', ''int_wrapping_mul''} then Some (IntL (a * b))
     else if func \<in> {''int.saturating_add'', ''int_saturating_add''} then Some (IntL (saturated (sint a + sint b)))
     else if func \<in> {''int.saturating_sub'', ''int_saturating_sub''} then Some (IntL (saturated (sint a - sint b)))
     else if func \<in> {''int.saturating_mul'', ''int_saturating_mul''} then Some (IntL (saturated (sint a * sint b)))
     else if func \<in> {''i64.eq'', ''=='', ''eq''} then Some (Bool (a = b))
     else if func \<in> {''i64.ne'', ''!='', ''ne''} then Some (Bool (a \<noteq> b))
     else if func \<in> {''i64.lt_s'', ''<'', ''lt''} then Some (Bool (sint a < sint b))
     else if func \<in> {''i64.le_s'', ''<='', ''le''} then Some (Bool (sint a \<le> sint b))
     else if func \<in> {''i64.gt_s'', ''>'', ''gt''} then Some (Bool (sint a > sint b))
     else if func \<in> {''i64.ge_s'', ''>='', ''ge''} then Some (Bool (sint a \<ge> sint b))
     else None)"

definition fold_ternary :: "string \<Rightarrow> i64 \<Rightarrow> i64 \<Rightarrow> i64 \<Rightarrow> LiteralValue option" where
  "fold_ternary func a b c =
    (if func \<in> {''int.add_or'', ''int_add_or''} then Some (IntL (unwrap_or (checked (sint a + sint b)) c))
     else if func \<in> {''int.sub_or'', ''int_sub_or''} then Some (IntL (unwrap_or (checked (sint a - sint b)) c))
     else if func \<in> {''int.mul_or'', ''int_mul_or''} then Some (IntL (unwrap_or (checked (sint a * sint b)) c))
     else if func \<in> {''int.div_or'', ''int_div_or''} then Some (IntL (unwrap_or (checked_div a b) c))
     else if func \<in> {''int.rem_or'', ''int_rem_or''} then Some (IntL (unwrap_or (checked_rem a b) c))
     else if func \<in> {''int.clamp'', ''int_clamp''}
       then Some (IntL (if sint a < sint b then b else if sint a > sint c then c else a))
     else None)"

definition fold_ints :: "string \<Rightarrow> i64 list \<Rightarrow> LiteralValue option" where
  "fold_ints func ints =
    (case ints of
       [a] \<Rightarrow> fold_unary func a
     | [a, b] \<Rightarrow> fold_binary func a b
     | [a, b, c] \<Rightarrow> fold_ternary func a b c
     | _ \<Rightarrow> None)"

definition fold_call :: "string \<Rightarrow> string list \<Rightarrow> const_env \<Rightarrow> LiteralValue option" where
  "fold_call func args env =
    (case int_args env args of None \<Rightarrow> None | Some ints \<Rightarrow> fold_ints func ints)"

fun literal_of :: "AnfExpr \<Rightarrow> LiteralValue option" where
  "literal_of (Literal l) = Some l"
| "literal_of _ = None"

fun optimize_expr :: "AnfExpr \<Rightarrow> const_env \<Rightarrow> AnfExpr" where
  "optimize_expr (LetE name value body) env =
    (let value = optimize_expr value env;
         body = optimize_expr body (env(name := literal_of value)) in
     if is_pure value \<and> \<not> uses_var body name then body else LetE name value body)"
| "optimize_expr (Call func args) env =
    (case fold_call func args env of Some l \<Rightarrow> Literal l | None \<Rightarrow> Call func args)"
| "optimize_expr (IfE cond then_branch else_branch) env =
    (if env cond = Some (Bool True) \<or> env cond = Some (IntL 1) then optimize_expr then_branch env
     else if env cond = Some (Bool False) \<or> env cond = Some (IntL 0) then optimize_expr else_branch env
     else IfE cond (optimize_expr then_branch env) (optimize_expr else_branch env))"
| "optimize_expr (Return inner) env = Return (optimize_expr inner env)"
| "optimize_expr (Seq es) env = Seq (map (\<lambda>e. optimize_expr e env) es)"
| "optimize_expr (RecordNew fs) env = RecordNew (map (\<lambda>(field, e). (field, optimize_expr e env)) fs)"
| "optimize_expr (FieldUpdate r field value) env = FieldUpdate r field (optimize_expr value env)"
| "optimize_expr (TupleNew es) env = TupleNew (map (\<lambda>e. optimize_expr e env) es)"
| "optimize_expr (VariantNew tag payload) env =
    VariantNew tag (case payload of None \<Rightarrow> None | Some e \<Rightarrow> Some (optimize_expr e env))"
| "optimize_expr (ListNew es) env = ListNew (map (\<lambda>e. optimize_expr e env) es)"
| "optimize_expr (Loop body) env = Loop (optimize_expr body env)"
| "optimize_expr (Break value) env = Break (optimize_expr value env)"
| "optimize_expr (ShortCircuitAnd left right) env = ShortCircuitAnd left (optimize_expr right env)"
| "optimize_expr (ShortCircuitOr left right) env = ShortCircuitOr left (optimize_expr right env)"
| "optimize_expr (Match scrutinee arms) env =
    Match scrutinee (map (\<lambda>(pat, body). (pat, optimize_expr body env)) arms)"
| "optimize_expr (Lambda params captures body) env =
    (let body = optimize_expr body (\<lambda>x. if x \<in> set params then None else env x) in
     Lambda params (collect_free_vars body (rev params) []) body)"
| "optimize_expr (TaskGroup body) env = TaskGroup (optimize_expr body env)"
| "optimize_expr (Timeout duration body) env = Timeout duration (optimize_expr body env)"
| "optimize_expr other env = other"

definition optimize_bindings :: "AnfBinding list \<Rightarrow> AnfBinding list" where
  "optimize_bindings bindings = map (\<lambda>b. b\<lparr>ab_expr := optimize_expr (ab_expr b) Map.empty\<rparr>) bindings"

section \<open>Discarded sequence elements\<close>

definition seq_of :: "AnfExpr list \<Rightarrow> AnfExpr" where
  "seq_of filtered = (case filtered of [] \<Rightarrow> Literal Unit | [e] \<Rightarrow> e | _ \<Rightarrow> Seq filtered)"

definition drop_discarded :: "AnfExpr list \<Rightarrow> AnfExpr list" where
  "drop_discarded es =
    map snd (filter (\<lambda>(i, e). \<not> (i < length es - 1 \<and> is_pure e)) (enumerate 0 es))"

fun elim_dead_expr :: "AnfExpr \<Rightarrow> AnfExpr" where
  "elim_dead_expr (Seq es) = seq_of (drop_discarded (map elim_dead_expr es))"
| "elim_dead_expr (LetE name value body) = LetE name (elim_dead_expr value) (elim_dead_expr body)"
| "elim_dead_expr (IfE cond t e) = IfE cond (elim_dead_expr t) (elim_dead_expr e)"
| "elim_dead_expr (Return inner) = Return (elim_dead_expr inner)"
| "elim_dead_expr (Loop body) = Loop (elim_dead_expr body)"
| "elim_dead_expr (Break value) = Break (elim_dead_expr value)"
| "elim_dead_expr (Lambda params captures body) = Lambda params captures (elim_dead_expr body)"
| "elim_dead_expr (TaskGroup body) = TaskGroup (elim_dead_expr body)"
| "elim_dead_expr (Timeout duration body) = Timeout duration (elim_dead_expr body)"
| "elim_dead_expr (Match scrutinee arms) =
    Match scrutinee (map (\<lambda>(pat, body). (pat, elim_dead_expr body)) arms)"
| "elim_dead_expr (RecordNew fs) = RecordNew (map (\<lambda>(f, e). (f, elim_dead_expr e)) fs)"
| "elim_dead_expr (FieldUpdate r field value) = FieldUpdate r field (elim_dead_expr value)"
| "elim_dead_expr (TupleNew es) = TupleNew (map elim_dead_expr es)"
| "elim_dead_expr (VariantNew tag payload) =
    VariantNew tag (case payload of None \<Rightarrow> None | Some e \<Rightarrow> Some (elim_dead_expr e))"
| "elim_dead_expr (ListNew es) = ListNew (map elim_dead_expr es)"
| "elim_dead_expr other = other"

definition eliminate_dead_pure :: "AnfBinding list \<Rightarrow> AnfBinding list" where
  "eliminate_dead_pure bindings = map (\<lambda>b. b\<lparr>ab_expr := elim_dead_expr (ab_expr b)\<rparr>) bindings"

section \<open>Common subexpressions\<close>

text \<open>The derived equality of expressions, with \<^const>\<open>literal_eq\<close> on the literals.\<close>

fun literal_norm :: "LiteralValue \<Rightarrow> LiteralValue" where
  "literal_norm (Float w) = Float (if take_bit 63 w = 0 then 0 else w)"
| "literal_norm l = l"

fun literal_is_nan :: "LiteralValue \<Rightarrow> bool" where
  "literal_is_nan (Float w) = f64_is_nan w"
| "literal_is_nan l = False"

definition anf_eq :: "AnfExpr \<Rightarrow> AnfExpr \<Rightarrow> bool" where
  "anf_eq a b \<longleftrightarrow> (\<forall>l \<in> set_AnfTree a. \<not> literal_is_nan l) \<and> map_AnfTree literal_norm a = map_AnfTree literal_norm b"

fun cse_expr :: "AnfExpr \<Rightarrow> (AnfExpr \<times> string) list \<Rightarrow> AnfExpr \<times> (AnfExpr \<times> string) list" where
  "cse_expr (LetE name value body) seen =
    (let (value, seen) = cse_expr value seen;
         (new_value, seen) =
           (if is_pure value then
              (case find (\<lambda>(e, n). anf_eq e value) seen of
                 Some (e, existing_name) \<Rightarrow> (Var existing_name, seen)
               | None \<Rightarrow> (value, seen @ [(value, name)]))
            else (value, seen));
         (body, seen) = cse_expr body seen in
     (LetE name new_value body, seen))"
| "cse_expr (IfE cond then_branch else_branch) seen =
    (IfE cond (fst (cse_expr then_branch seen)) (fst (cse_expr else_branch seen)), seen)"
| "cse_expr other seen = (other, seen)"

definition cse_bindings :: "AnfBinding list \<Rightarrow> AnfBinding list" where
  "cse_bindings bindings = map (\<lambda>b. b\<lparr>ab_expr := fst (cse_expr (ab_expr b) [])\<rparr>) bindings"

section \<open>Inlining\<close>

definition sub_name :: "(string \<rightharpoonup> string) \<Rightarrow> string \<Rightarrow> string" where
  "sub_name subst s = (case subst s of Some t \<Rightarrow> t | None \<Rightarrow> s)"

fun substitute_vars :: "AnfExpr \<Rightarrow> (string \<rightharpoonup> string) \<Rightarrow> AnfExpr" where
  "substitute_vars (Var name) subst = Var (sub_name subst name)"
| "substitute_vars (Call func args) subst = Call func (map (sub_name subst) args)"
| "substitute_vars (FieldGet r field) subst = FieldGet (sub_name subst r) field"
| "substitute_vars (IfE cond t e) subst =
    IfE (sub_name subst cond) (substitute_vars t subst) (substitute_vars e subst)"
| "substitute_vars (LetE name value body) subst =
    LetE name (substitute_vars value subst) (substitute_vars body (subst(name := None)))"
| "substitute_vars (Return inner) subst = Return (substitute_vars inner subst)"
| "substitute_vars (Seq es) subst = Seq (map (\<lambda>e. substitute_vars e subst) es)"
| "substitute_vars (RecordNew fs) subst = RecordNew (map (\<lambda>(f, e). (f, substitute_vars e subst)) fs)"
| "substitute_vars (FieldUpdate r field value) subst =
    FieldUpdate (sub_name subst r) field (substitute_vars value subst)"
| "substitute_vars (TupleNew es) subst = TupleNew (map (\<lambda>e. substitute_vars e subst) es)"
| "substitute_vars (VariantNew tag payload) subst =
    VariantNew tag (case payload of None \<Rightarrow> None | Some e \<Rightarrow> Some (substitute_vars e subst))"
| "substitute_vars (ListNew es) subst = ListNew (map (\<lambda>e. substitute_vars e subst) es)"
| "substitute_vars (Lambda params captures body) subst =
    (let inner = (\<lambda>x. if x \<in> set params then None else subst x) in
     Lambda params (map (sub_name inner) captures) (substitute_vars body inner))"
| "substitute_vars (Match scrutinee arms) subst =
    Match (sub_name subst scrutinee) (map (\<lambda>(pat, body). (pat, substitute_vars body subst)) arms)"
| "substitute_vars (Loop body) subst = Loop (substitute_vars body subst)"
| "substitute_vars (Break value) subst = Break (substitute_vars value subst)"
| "substitute_vars (TaskGroup body) subst = TaskGroup (substitute_vars body subst)"
| "substitute_vars (Timeout duration body) subst =
    Timeout (sub_name subst duration) (substitute_vars body subst)"
| "substitute_vars other subst = other"

type_synonym small_fns = "string \<Rightarrow> (string list \<times> AnfExpr) option"

fun inline_calls_in_expr :: "AnfExpr \<Rightarrow> small_fns \<Rightarrow> AnfExpr" where
  "inline_calls_in_expr (Call func args) small_fns =
    (case small_fns func of
       Some (params, body) \<Rightarrow>
         if length params = length args then substitute_vars body (map_of (rev (zip params args)))
         else Call func args
     | None \<Rightarrow> Call func args)"
| "inline_calls_in_expr (LetE name value body) small_fns =
    LetE name (inline_calls_in_expr value small_fns) (inline_calls_in_expr body small_fns)"
| "inline_calls_in_expr (IfE cond t e) small_fns =
    IfE cond (inline_calls_in_expr t small_fns) (inline_calls_in_expr e small_fns)"
| "inline_calls_in_expr (Return inner) small_fns = Return (inline_calls_in_expr inner small_fns)"
| "inline_calls_in_expr (Seq es) small_fns = Seq (map (\<lambda>e. inline_calls_in_expr e small_fns) es)"
| "inline_calls_in_expr (Match scrutinee arms) small_fns =
    Match scrutinee (map (\<lambda>(pat, body). (pat, inline_calls_in_expr body small_fns)) arms)"
| "inline_calls_in_expr (Lambda params captures body) small_fns =
    (let body = inline_calls_in_expr body small_fns in
     Lambda params (collect_free_vars body (rev params) []) body)"
| "inline_calls_in_expr (RecordNew fs) small_fns =
    RecordNew (map (\<lambda>(f, e). (f, inline_calls_in_expr e small_fns)) fs)"
| "inline_calls_in_expr (FieldUpdate r field value) small_fns =
    FieldUpdate r field (inline_calls_in_expr value small_fns)"
| "inline_calls_in_expr (TupleNew es) small_fns = TupleNew (map (\<lambda>e. inline_calls_in_expr e small_fns) es)"
| "inline_calls_in_expr (VariantNew tag payload) small_fns =
    VariantNew tag (case payload of None \<Rightarrow> None | Some e \<Rightarrow> Some (inline_calls_in_expr e small_fns))"
| "inline_calls_in_expr (ListNew es) small_fns = ListNew (map (\<lambda>e. inline_calls_in_expr e small_fns) es)"
| "inline_calls_in_expr (Loop body) small_fns = Loop (inline_calls_in_expr body small_fns)"
| "inline_calls_in_expr (Break value) small_fns = Break (inline_calls_in_expr value small_fns)"
| "inline_calls_in_expr (TaskGroup body) small_fns = TaskGroup (inline_calls_in_expr body small_fns)"
| "inline_calls_in_expr (Timeout duration body) small_fns =
    Timeout duration (inline_calls_in_expr body small_fns)"
| "inline_calls_in_expr other small_fns = other"

fun small_fn :: "AnfBinding \<Rightarrow> (string \<times> string list \<times> AnfExpr) option" where
  "small_fn b =
    (case ab_expr b of
       Lambda params captures body \<Rightarrow>
         if is_pure body \<and> anf_node_count body \<le> 3 then Some (ab_name b, params, body) else None
     | _ \<Rightarrow> None)"

definition small_fns_of :: "AnfBinding list \<Rightarrow> small_fns" where
  "small_fns_of bindings = map_of (rev (List.map_filter small_fn bindings))"

definition inline_small_pure :: "AnfBinding list \<Rightarrow> AnfBinding list" where
  "inline_small_pure bindings =
    (if List.map_filter small_fn bindings = [] then bindings
     else map (\<lambda>b. b\<lparr>ab_expr := inline_calls_in_expr (ab_expr b) (small_fns_of bindings)\<rparr>) bindings)"

end
