(* ===== verification/Anf_Semantics.thy ===== *)
theory Anf_Semantics
  imports Anf_Optimize
begin

text \<open>
  What the optimisation passes keep: an evaluation relation for A-normal form,
  following the documentation of \<^verbatim>\<open>AnfExpr\<close> in \<^verbatim>\<open>anf.rs\<close>, over a backend that is a
  parameter (values, calls, primitives and their state), and forward simulation
  of constant folding and dead code elimination.  The relation describes runs
  that do not trap.  It has no rule for closures, task groups and timeouts.
\<close>

section \<open>Evaluation\<close>

datatype 'v flow = Val 'v | Ret 'v | Brk 'v | Cont

record ('v, 's) backend =
  bk_lit :: "LiteralValue \<Rightarrow> 'v"
  bk_truth :: "'v \<Rightarrow> bool"
  bk_call :: "string \<Rightarrow> 'v list \<Rightarrow> 's \<Rightarrow> ('v \<times> 's) option"
  bk_record :: "(string \<times> 'v) list \<Rightarrow> 'v"
  bk_tuple :: "'v list \<Rightarrow> 'v"
  bk_variant :: "string \<Rightarrow> 'v option \<Rightarrow> 'v"
  bk_list :: "'v list \<Rightarrow> 'v"
  bk_field :: "'v \<Rightarrow> string \<Rightarrow> 'v option"
  bk_update :: "'v \<Rightarrow> string \<Rightarrow> 'v \<Rightarrow> 'v option"
  bk_pattern :: "string \<Rightarrow> 'v \<Rightarrow> 'v option"
  bk_prim :: "AnfExpr \<Rightarrow> (string \<Rightarrow> 'v option) \<Rightarrow> 's \<Rightarrow> ('v flow \<times> 's) option"

text \<open>Expressions that no pass rewrites and whose meaning is the backend's.\<close>

fun is_prim :: "AnfExpr \<Rightarrow> bool" where
  "is_prim (WhileLoop c b) = True"
| "is_prim (EffectCall c f a) = True"
| "is_prim (Dispatch h m a) = True"
| "is_prim (TaskSpawn f a) = True"
| "is_prim (ChannelSend c v) = True"
| "is_prim (ChannelReceive c) = True"
| "is_prim (RuntimeCheck r c m) = True"
| "is_prim (ResourceAcquire r a) = True"
| "is_prim (ResourceRelease h) = True"
| "is_prim (TaskAwait t) = True"
| "is_prim (TaskCancel t) = True"
| "is_prim (ChannelNew n) = True"
| "is_prim (Select bs) = True"
| "is_prim (CellNew i) = True"
| "is_prim (CellGet c) = True"
| "is_prim (CellSet c v) = True"
| "is_prim (Assume p r) = True"
| "is_prim (Abort m) = True"
| "is_prim (IndexGet c i) = True"
| "is_prim (MapNew es) = True"
| "is_prim (SetNew es) = True"
| "is_prim (ForEach x c b) = True"
| "is_prim (Fold i l f) = True"
| "is_prim Placeholder = True"
| "is_prim _ = False"

definition bind_payload :: "string \<Rightarrow> 'v \<Rightarrow> (string \<Rightarrow> 'v option) \<Rightarrow> string \<Rightarrow> 'v option" where
  "bind_payload pat w \<Gamma> = (case arm_payload_binding pat of None \<Rightarrow> \<Gamma> | Some x \<Rightarrow> \<Gamma>(x \<mapsto> w))"

definition matching_arm :: "('v, 's) backend \<Rightarrow> 'v \<Rightarrow> (string \<times> AnfExpr) list \<Rightarrow> (string \<times> AnfExpr) option" where
  "matching_arm B v arms = find (\<lambda>(pat, body). bk_pattern B pat v \<noteq> None) arms"

definition seq_value :: "('v, 's) backend \<Rightarrow> 'v list \<Rightarrow> 'v" where
  "seq_value B vs = (if vs = [] then bk_lit B Unit else last vs)"

fun abrupt :: "'v flow \<Rightarrow> bool" where
  "abrupt (Val v) = False"
| "abrupt _ = True"

inductive ev :: "('v, 's) backend \<Rightarrow> (string \<Rightarrow> 'v option) \<Rightarrow> 's \<Rightarrow> AnfExpr \<Rightarrow> 'v flow \<Rightarrow> 's \<Rightarrow> bool"
  and evs :: "('v, 's) backend \<Rightarrow> (string \<Rightarrow> 'v option) \<Rightarrow> 's \<Rightarrow> AnfExpr list \<Rightarrow> 'v flow + 'v list \<Rightarrow> 's \<Rightarrow> bool"
  for B :: "('v, 's) backend"
where
  ev_Literal: "ev B \<Gamma> s (Literal l) (Val (bk_lit B l)) s"
| ev_Var: "\<Gamma> x = Some v \<Longrightarrow> ev B \<Gamma> s (Var x) (Val v) s"
| ev_Let: "ev B \<Gamma> s value (Val v) s' \<Longrightarrow> ev B (\<Gamma>(x \<mapsto> v)) s' body f s'' \<Longrightarrow> ev B \<Gamma> s (LetE x value body) f s''"
| ev_Let_abrupt: "ev B \<Gamma> s value f s' \<Longrightarrow> abrupt f \<Longrightarrow> ev B \<Gamma> s (LetE x value body) f s'"
| ev_If: "\<Gamma> c = Some v \<Longrightarrow> ev B \<Gamma> s (if bk_truth B v then t else e) f s' \<Longrightarrow> ev B \<Gamma> s (IfE c t e) f s'"
| ev_Call: "map \<Gamma> args = map Some vs \<Longrightarrow> bk_call B func vs s = Some (v, s') \<Longrightarrow> ev B \<Gamma> s (Call func args) (Val v) s'"
| ev_FieldGet: "\<Gamma> r = Some v \<Longrightarrow> bk_field B v field = Some w \<Longrightarrow> ev B \<Gamma> s (FieldGet r field) (Val w) s"
| ev_Return: "ev B \<Gamma> s e (Val v) s' \<Longrightarrow> ev B \<Gamma> s (Return e) (Ret v) s'"
| ev_Return_abrupt: "ev B \<Gamma> s e f s' \<Longrightarrow> abrupt f \<Longrightarrow> ev B \<Gamma> s (Return e) f s'"
| ev_Seq: "evs B \<Gamma> s es (Inr vs) s' \<Longrightarrow> ev B \<Gamma> s (Seq es) (Val (seq_value B vs)) s'"
| ev_Seq_abrupt: "evs B \<Gamma> s es (Inl f) s' \<Longrightarrow> ev B \<Gamma> s (Seq es) f s'"
| ev_Match: "\<Gamma> x = Some v \<Longrightarrow> matching_arm B v arms = Some (pat, body) \<Longrightarrow> bk_pattern B pat v = Some w \<Longrightarrow>
    ev B (bind_payload pat w \<Gamma>) s body f s' \<Longrightarrow> ev B \<Gamma> s (Match x arms) f s'"
| ev_Record: "evs B \<Gamma> s (map snd fs) (Inr vs) s' \<Longrightarrow>
    ev B \<Gamma> s (RecordNew fs) (Val (bk_record B (zip (map fst fs) vs))) s'"
| ev_Record_abrupt: "evs B \<Gamma> s (map snd fs) (Inl f) s' \<Longrightarrow> ev B \<Gamma> s (RecordNew fs) f s'"
| ev_Update: "\<Gamma> r = Some v \<Longrightarrow> ev B \<Gamma> s e (Val w) s' \<Longrightarrow> bk_update B v field w = Some u \<Longrightarrow>
    ev B \<Gamma> s (FieldUpdate r field e) (Val u) s'"
| ev_Update_abrupt: "\<Gamma> r = Some v \<Longrightarrow> ev B \<Gamma> s e f s' \<Longrightarrow> abrupt f \<Longrightarrow> ev B \<Gamma> s (FieldUpdate r field e) f s'"
| ev_Tuple: "evs B \<Gamma> s es (Inr vs) s' \<Longrightarrow> ev B \<Gamma> s (TupleNew es) (Val (bk_tuple B vs)) s'"
| ev_Tuple_abrupt: "evs B \<Gamma> s es (Inl f) s' \<Longrightarrow> ev B \<Gamma> s (TupleNew es) f s'"
| ev_Variant_None: "ev B \<Gamma> s (VariantNew tag None) (Val (bk_variant B tag None)) s"
| ev_Variant: "ev B \<Gamma> s e (Val v) s' \<Longrightarrow> ev B \<Gamma> s (VariantNew tag (Some e)) (Val (bk_variant B tag (Some v))) s'"
| ev_Variant_abrupt: "ev B \<Gamma> s e f s' \<Longrightarrow> abrupt f \<Longrightarrow> ev B \<Gamma> s (VariantNew tag (Some e)) f s'"
| ev_List: "evs B \<Gamma> s es (Inr vs) s' \<Longrightarrow> ev B \<Gamma> s (ListNew es) (Val (bk_list B vs)) s'"
| ev_List_abrupt: "evs B \<Gamma> s es (Inl f) s' \<Longrightarrow> ev B \<Gamma> s (ListNew es) f s'"
| ev_Loop_again: "ev B \<Gamma> s body f s' \<Longrightarrow> f = Cont \<or> f = Val v \<Longrightarrow> ev B \<Gamma> s' (Loop body) f' s'' \<Longrightarrow>
    ev B \<Gamma> s (Loop body) f' s''"
| ev_Loop_break: "ev B \<Gamma> s body (Brk v) s' \<Longrightarrow> ev B \<Gamma> s (Loop body) (Val v) s'"
| ev_Loop_return: "ev B \<Gamma> s body (Ret v) s' \<Longrightarrow> ev B \<Gamma> s (Loop body) (Ret v) s'"
| ev_Break: "ev B \<Gamma> s e (Val v) s' \<Longrightarrow> ev B \<Gamma> s (Break e) (Brk v) s'"
| ev_Break_abrupt: "ev B \<Gamma> s e f s' \<Longrightarrow> abrupt f \<Longrightarrow> ev B \<Gamma> s (Break e) f s'"
| ev_Continue: "ev B \<Gamma> s Continue Cont s"
| ev_And_short: "\<Gamma> l = Some v \<Longrightarrow> \<not> bk_truth B v \<Longrightarrow> ev B \<Gamma> s (ShortCircuitAnd l r) (Val (bk_lit B (Bool False))) s"
| ev_And: "\<Gamma> l = Some v \<Longrightarrow> bk_truth B v \<Longrightarrow> ev B \<Gamma> s r f s' \<Longrightarrow> ev B \<Gamma> s (ShortCircuitAnd l r) f s'"
| ev_Or_short: "\<Gamma> l = Some v \<Longrightarrow> bk_truth B v \<Longrightarrow> ev B \<Gamma> s (ShortCircuitOr l r) (Val (bk_lit B (Bool True))) s"
| ev_Or: "\<Gamma> l = Some v \<Longrightarrow> \<not> bk_truth B v \<Longrightarrow> ev B \<Gamma> s r f s' \<Longrightarrow> ev B \<Gamma> s (ShortCircuitOr l r) f s'"
| ev_Prim: "is_prim e \<Longrightarrow> bk_prim B e \<Gamma> s = Some (f, s') \<Longrightarrow> ev B \<Gamma> s e f s'"
| evs_Nil: "evs B \<Gamma> s [] (Inr []) s"
| evs_Cons: "ev B \<Gamma> s e (Val v) s' \<Longrightarrow> evs B \<Gamma> s' es (Inr vs) s'' \<Longrightarrow> evs B \<Gamma> s (e # es) (Inr (v # vs)) s''"
| evs_abrupt: "ev B \<Gamma> s e f s' \<Longrightarrow> abrupt f \<Longrightarrow> evs B \<Gamma> s (e # es) (Inl f) s'"
| evs_Cons_abrupt: "ev B \<Gamma> s e (Val v) s' \<Longrightarrow> evs B \<Gamma> s' es (Inl f) s'' \<Longrightarrow> evs B \<Gamma> s (e # es) (Inl f) s''"

inductive_cases ev_LiteralE [elim!]: "ev B \<Gamma> s (Literal l) f s'"
inductive_cases ev_VarE [elim!]: "ev B \<Gamma> s (Var x) f s'"

section \<open>What the backend must provide\<close>

text \<open>Calls leave the state alone: the assumption under which the passes count a call as pure.\<close>

definition calls_pure :: "('v, 's) backend \<Rightarrow> bool" where
  "calls_pure B \<longleftrightarrow> (\<forall>func vs s v s'. bk_call B func vs s = Some (v, s') \<longrightarrow> s' = s)"

text \<open>A primitive reads the variables its expression uses.\<close>

definition prims_local :: "('v, 's) backend \<Rightarrow> bool" where
  "prims_local B \<longleftrightarrow>
    (\<forall>e \<Gamma> \<Gamma>' s. is_prim e \<longrightarrow> (\<forall>x. uses_var e x \<longrightarrow> \<Gamma> x = \<Gamma>' x) \<longrightarrow> bk_prim B e \<Gamma> s = bk_prim B e \<Gamma>' s)"

definition lit_agrees :: "('v, 's) backend \<Rightarrow> const_env \<Rightarrow> (string \<Rightarrow> 'v option) \<Rightarrow> bool" where
  "lit_agrees B env \<Gamma> \<longleftrightarrow> (\<forall>x l. env x = Some l \<longrightarrow> \<Gamma> x = Some (bk_lit B l))"

text \<open>Conditions and the arithmetic built-ins mean what the folding takes them to mean.\<close>

definition truth_of_literals :: "('v, 's) backend \<Rightarrow> bool" where
  "truth_of_literals B \<longleftrightarrow>
    bk_truth B (bk_lit B (Bool True)) \<and> bk_truth B (bk_lit B (IntL 1)) \<and>
    \<not> bk_truth B (bk_lit B (Bool False)) \<and> \<not> bk_truth B (bk_lit B (IntL 0))"

definition int_literal :: "LiteralValue \<Rightarrow> i64 option" where
  "int_literal l = (case l of IntL v \<Rightarrow> Some v | Bool b \<Rightarrow> Some (if b then 1 else 0) | _ \<Rightarrow> None)"

definition computes_builtins :: "('v, 's) backend \<Rightarrow> bool" where
  "computes_builtins B \<longleftrightarrow>
    (\<forall>func ls ints l s v s'. map int_literal ls = map Some ints \<longrightarrow> fold_ints func ints = Some l \<longrightarrow>
       bk_call B func (map (bk_lit B) ls) s = Some (v, s') \<longrightarrow> v = bk_lit B l)"

section \<open>Evaluation reads the used variables\<close>

lemma bind_payload_apply:
  "bind_payload pat w \<Gamma> x = (if arm_payload_binding pat = Some x then Some w else \<Gamma> x)"
  by (auto simp: bind_payload_def split: option.splits)

lemma matching_arm_mem: "matching_arm B v arms = Some (pat, body) \<Longrightarrow> (pat, body) \<in> set arms"
  by (auto simp: matching_arm_def dest: find_Some_mem)

lemma uses_record: "e \<in> set (map snd fs) \<Longrightarrow> uses_var e x \<Longrightarrow> uses_var (RecordNew fs) x"
  by (auto simp: list_ex_iff)

lemma ev_coincidence:
  assumes "prims_local B"
  shows "ev B \<Gamma> s e f s' \<Longrightarrow> (\<And>x. uses_var e x \<Longrightarrow> \<Gamma>' x = \<Gamma> x) \<Longrightarrow> ev B \<Gamma>' s e f s'"
    and "evs B \<Gamma> s es r s' \<Longrightarrow> (\<And>e x. e \<in> set es \<Longrightarrow> uses_var e x \<Longrightarrow> \<Gamma>' x = \<Gamma> x) \<Longrightarrow> evs B \<Gamma>' s es r s'"
proof (induction arbitrary: \<Gamma>' and \<Gamma>' rule: ev_evs.inducts)
  case (ev_Let \<Gamma> s e\<^sub>1 v s' x e\<^sub>2 f s'')
  have "ev B \<Gamma>' s e\<^sub>1 (Val v) s'" using ev_Let.prems by (intro ev_Let.IH(2)) simp
  moreover have "ev B (\<Gamma>'(x \<mapsto> v)) s' e\<^sub>2 f s''" using ev_Let.prems by (intro ev_Let.IH(4)) simp
  ultimately show ?case by (rule ev_evs.ev_Let)
next
  case (ev_If \<Gamma> c v s t e f s')
  have "ev B \<Gamma>' s (if bk_truth B v then t else e) f s'" using ev_If.prems by (intro ev_If.IH) (simp split: if_splits)
  with ev_If show ?case by (intro ev_evs.ev_If[of _ c v]) simp_all
next
  case (ev_Call \<Gamma> args vs func s v s')
  have "map \<Gamma>' args = map \<Gamma> args" using ev_Call.prems by simp
  with ev_Call show ?case by (intro ev_evs.ev_Call) simp_all
next
  case (ev_Match \<Gamma> x v arms pat body w s f s')
  have "(pat, body) \<in> set arms" using ev_Match(2) by (rule matching_arm_mem)
  then have "ev B (bind_payload pat w \<Gamma>') s body f s'"
    using ev_Match.prems by (intro ev_Match.IH) (auto simp: bind_payload_apply list_ex_iff)
  with ev_Match show ?case by (intro ev_evs.ev_Match[of _ x v]) simp_all
next
  case (ev_Prim e \<Gamma> s f s')
  have "bk_prim B e \<Gamma>' s = bk_prim B e \<Gamma> s"
    by (rule assms[unfolded prims_local_def, rule_format, OF ev_Prim(1)]) (rule ev_Prim.prems)
  with ev_Prim show ?case by (intro ev_evs.ev_Prim) simp_all
next
  case (ev_Record \<Gamma> s fs vs s')
  have "evs B \<Gamma>' s (map snd fs) (Inr vs) s'"
    by (rule ev_Record(2), rule ev_Record.prems, rule uses_record)
  then show ?case by (rule ev_evs.ev_Record)
next
  case (ev_Record_abrupt \<Gamma> s fs f s')
  have "evs B \<Gamma>' s (map snd fs) (Inl f) s'"
    by (rule ev_Record_abrupt(2), rule ev_Record_abrupt.prems, rule uses_record)
  then show ?case by (rule ev_evs.ev_Record_abrupt)
next
  case (ev_Loop_again \<Gamma> s body f s' v f' s'')
  have "ev B \<Gamma>' s body f s'" by (rule ev_Loop_again(2)) (simp add: ev_Loop_again.prems)
  moreover have "ev B \<Gamma>' s' (Loop body) f' s''" by (rule ev_Loop_again(4)) (rule ev_Loop_again.prems)
  ultimately show ?case by (rule ev_evs.ev_Loop_again[OF _ ev_Loop_again(5)])
next
  case ev_Update
  then show ?case by (auto simp: list_ex_iff intro!: ev_evs.ev_Update)
next
  case evs_Cons
  then show ?case by (auto simp: list_ex_iff intro!: ev_evs.evs_Cons)
next
  case evs_Cons_abrupt
  then show ?case by (auto simp: list_ex_iff intro!: ev_evs.evs_Cons_abrupt)
qed (auto simp: list_ex_iff intro: ev_evs.intros)

section \<open>Pure expressions keep the state\<close>

fun deep_pure :: "AnfExpr \<Rightarrow> bool" where
  "deep_pure (Literal l) = True"
| "deep_pure (Var x) = True"
| "deep_pure (Call f args) = True"
| "deep_pure (FieldGet r f) = True"
| "deep_pure (Lambda ps cs b) = True"
| "deep_pure (LetE x value body) = (deep_pure value \<and> deep_pure body)"
| "deep_pure (IfE c t e) = (deep_pure t \<and> deep_pure e)"
| "deep_pure (Seq es) = list_all deep_pure es"
| "deep_pure (Match s arms) = list_all (\<lambda>(pat, body). deep_pure body) arms"
| "deep_pure (RecordNew fs) = list_all (\<lambda>(f, e). deep_pure e) fs"
| "deep_pure (TupleNew es) = list_all deep_pure es"
| "deep_pure (VariantNew t p) = (case p of None \<Rightarrow> True | Some e \<Rightarrow> deep_pure e)"
| "deep_pure (ListNew es) = list_all deep_pure es"
| "deep_pure _ = False"

text \<open>The fields of every constructed value are pure; lowering produces only variables there.\<close>

fun fields_pure :: "AnfExpr \<Rightarrow> bool" where
  "fields_pure (LetE x value body) = (fields_pure value \<and> fields_pure body)"
| "fields_pure (IfE c t e) = (fields_pure t \<and> fields_pure e)"
| "fields_pure (Return e) = fields_pure e"
| "fields_pure (Seq es) = list_all fields_pure es"
| "fields_pure (Match s arms) = list_all (\<lambda>(pat, body). fields_pure body) arms"
| "fields_pure (RecordNew fs) = list_all (\<lambda>(f, e). deep_pure e \<and> fields_pure e) fs"
| "fields_pure (FieldUpdate r f v) = fields_pure v"
| "fields_pure (TupleNew es) = list_all (\<lambda>e. deep_pure e \<and> fields_pure e) es"
| "fields_pure (VariantNew t p) = (case p of None \<Rightarrow> True | Some e \<Rightarrow> deep_pure e \<and> fields_pure e)"
| "fields_pure (ListNew es) = list_all (\<lambda>e. deep_pure e \<and> fields_pure e) es"
| "fields_pure (Loop b) = fields_pure b"
| "fields_pure (Break v) = fields_pure v"
| "fields_pure (ShortCircuitAnd l r) = fields_pure r"
| "fields_pure (ShortCircuitOr l r) = fields_pure r"
| "fields_pure _ = True"

lemma deep_pure_iff: "is_pure e \<Longrightarrow> fields_pure e \<Longrightarrow> deep_pure e"
  by (induction e rule: is_pure.induct) (fastforce simp: list_all_iff split: option.splits)+

lemma prim_not_deep_pure: "is_prim e \<Longrightarrow> \<not> deep_pure e"
  by (cases e rule: is_prim.cases) simp_all

lemma deep_pure_ev:
  assumes "calls_pure B"
  shows "ev B \<Gamma> s e f s' \<Longrightarrow> deep_pure e \<Longrightarrow> s' = s \<and> \<not> abrupt f"
    and "evs B \<Gamma> s es r s' \<Longrightarrow> list_all deep_pure es \<Longrightarrow> s' = s \<and> (\<exists>vs. r = Inr vs)"
proof (induction rule: ev_evs.inducts)
  case (ev_Call \<Gamma> args vs func s v s')
  then show ?case using assms unfolding calls_pure_def by (simp; blast)
next
  case (ev_Match \<Gamma> x v arms pat body w s f s')
  then show ?case using matching_arm_mem by (fastforce simp: list_all_iff)
next
  case (ev_Prim e \<Gamma> s f s')
  then show ?case using prim_not_deep_pure by blast
qed (auto simp: list_all_iff case_prod_beta split: if_splits)


section \<open>Constant folding preserves evaluation\<close>

text \<open>Names bound by a let lie in \<open>N\<close>, names bound by a match arm do not.\<close>

fun binders_apart :: "string set \<Rightarrow> AnfExpr \<Rightarrow> bool" where
  "binders_apart N (LetE x value body) = (x \<in> N \<and> binders_apart N value \<and> binders_apart N body)"
| "binders_apart N (IfE c t e) = (binders_apart N t \<and> binders_apart N e)"
| "binders_apart N (Return e) = binders_apart N e"
| "binders_apart N (Seq es) = list_all (binders_apart N) es"
| "binders_apart N (Match s arms) =
    list_all (\<lambda>(pat, body). (case arm_payload_binding pat of None \<Rightarrow> True | Some x \<Rightarrow> x \<notin> N) \<and> binders_apart N body) arms"
| "binders_apart N (RecordNew fs) = list_all (\<lambda>(f, e). binders_apart N e) fs"
| "binders_apart N (FieldUpdate r f v) = binders_apart N v"
| "binders_apart N (TupleNew es) = list_all (binders_apart N) es"
| "binders_apart N (VariantNew t p) = (case p of None \<Rightarrow> True | Some e \<Rightarrow> binders_apart N e)"
| "binders_apart N (ListNew es) = list_all (binders_apart N) es"
| "binders_apart N (Loop b) = binders_apart N b"
| "binders_apart N (Break v) = binders_apart N v"
| "binders_apart N (ShortCircuitAnd l r) = binders_apart N r"
| "binders_apart N (ShortCircuitOr l r) = binders_apart N r"
| "binders_apart N _ = True"

lemma deep_pure_optimize: "deep_pure e \<Longrightarrow> deep_pure (optimize_expr e env)"
  by (induction e env rule: optimize_expr.induct)
    (auto simp: Let_def list_all_iff split: option.splits)

lemma fields_pure_optimize: "fields_pure e \<Longrightarrow> fields_pure (optimize_expr e env)"
  by (induction e env rule: optimize_expr.induct)
    (auto simp: Let_def list_all_iff deep_pure_optimize split: option.splits)

lemma literal_of_eq: "literal_of e = Some l \<longleftrightarrow> e = Literal l"
  by (cases e rule: literal_of.cases) auto

lemma int_args_literals:
  "int_args env args = Some ints \<Longrightarrow> lit_agrees B env \<Gamma> \<Longrightarrow>
    \<exists>ls. map \<Gamma> args = map (Some \<circ> bk_lit B) ls \<and> map int_literal ls = map Some ints"
proof (induction args arbitrary: ints)
  case (Cons a args)
  then obtain v vs where v: "int_arg env a = Some v" and vs: "int_args env args = Some vs" and ints: "ints = v # vs"
    by (auto split: option.splits)
  from v obtain l where l: "env a = Some l" "int_literal l = Some v"
    by (auto simp: int_arg_def int_literal_def split: option.splits LiteralValue.splits)
  from Cons.IH[OF vs Cons.prems(2)] obtain ls
    where "map \<Gamma> args = map (Some \<circ> bk_lit B) ls" "map int_literal ls = map Some vs" by blast
  with l Cons.prems(2) ints show ?case
    by (intro exI[of _ "l # ls"]) (auto simp: lit_agrees_def)
qed simp

lemma fold_call_sound:
  assumes "computes_builtins B" "lit_agrees B env \<Gamma>" "fold_call func args env = Some l"
    and "map \<Gamma> args = map Some vs" "bk_call B func vs s = Some (v, s')"
  shows "v = bk_lit B l"
proof -
  from assms(3) obtain ints where i: "int_args env args = Some ints" and f: "fold_ints func ints = Some l"
    by (auto simp: fold_call_def split: option.splits)
  from int_args_literals[OF i assms(2)] obtain ls
    where ls: "map \<Gamma> args = map (Some \<circ> bk_lit B) ls" "map int_literal ls = map Some ints" by blast
  have "map Some vs = map Some (map (bk_lit B) ls)" using ls(1) assms(4) by simp
  then have "vs = map (bk_lit B) ls" by (rule map_injective) simp
  with assms(1,5) ls(2) f show ?thesis unfolding computes_builtins_def by blast
qed


definition sound_backend :: "('v, 's) backend \<Rightarrow> bool" where
  "sound_backend B \<longleftrightarrow> calls_pure B \<and> prims_local B \<and> truth_of_literals B \<and> computes_builtins B"

definition fold_scope :: "('v, 's) backend \<Rightarrow> string set \<Rightarrow> const_env \<Rightarrow> (string \<Rightarrow> 'v option) \<Rightarrow> bool" where
  "fold_scope B N env \<Gamma> \<longleftrightarrow> lit_agrees B env \<Gamma> \<and> dom env \<subseteq> N"

lemma fold_scope_let:
  assumes "fold_scope B N env \<Gamma>" "x \<in> N" "ev B \<Gamma> s value (Val v) s'"
  shows "fold_scope B N (env(x := literal_of value)) (\<Gamma>(x \<mapsto> v))"
proof -
  have "bk_lit B l = v" if "literal_of value = Some l" for l
    using that assms(3) by (auto simp: literal_of_eq)
  with assms(1,2) show ?thesis by (auto simp: fold_scope_def lit_agrees_def split: if_splits)
qed

lemma fold_scope_payload:
  assumes "fold_scope B N env \<Gamma>" "\<And>x. arm_payload_binding pat = Some x \<Longrightarrow> x \<notin> N"
  shows "fold_scope B N env (bind_payload pat w \<Gamma>)"
  using assms by (auto simp: fold_scope_def lit_agrees_def bind_payload_apply)

lemma map_fst_fields: "map fst (map (\<lambda>(k, e). (k, g e)) fs) = map fst fs"
  by (induction fs) auto

lemma map_snd_fields: "map snd (map (\<lambda>(k, e). (k, g e)) fs) = map g (map snd fs)"
  by (induction fs) auto

lemma matching_arm_map:
  "matching_arm B v (map (\<lambda>(pat, body). (pat, g body)) arms) = map_option (\<lambda>(pat, body). (pat, g body)) (matching_arm B v arms)"
  by (induction arms) (auto simp: matching_arm_def)

text \<open>A let is dropped only when its value leaves the state alone and its name is not read.\<close>

lemma ev_dead_let:
  assumes "sound_backend B" "fields_pure value"
    and "ev B \<Gamma> s value (Val v) s'" "ev B (\<Gamma>(x \<mapsto> v)) s' body f s''"
  shows "ev B \<Gamma> s (if is_pure value \<and> \<not> uses_var body x then body else LetE x value body) f s''"
proof (cases "is_pure value \<and> \<not> uses_var body x")
  case True
  have "calls_pure B" "prims_local B" using assms(1) by (simp_all add: sound_backend_def)
  from deep_pure_ev(1)[OF this(1) assms(3)] True assms(2) have "s' = s" by (simp add: deep_pure_iff)
  moreover have "ev B \<Gamma> s' body f s''"
    by (rule ev_coincidence(1)[OF \<open>prims_local B\<close> assms(4)]) (use True in auto)
  ultimately show ?thesis using True by simp
next
  case False
  with assms(3,4) show ?thesis by (auto intro: ev_Let)
qed

lemma ev_if_const:
  assumes "sound_backend B" "fold_scope B N env \<Gamma>" "\<Gamma> c = Some v"
    and "ev B \<Gamma> s (if bk_truth B v then t else e) f s'"
  shows "ev B \<Gamma> s
    (if env c = Some (Bool True) \<or> env c = Some (IntL 1) then t
     else if env c = Some (Bool False) \<or> env c = Some (IntL 0) then e else IfE c t e) f s'"
proof -
  have "v = bk_lit B l" if "env c = Some l" for l
    using assms(2,3) that by (auto simp: fold_scope_def lit_agrees_def)
  with assms(1,4) ev_If[OF assms(3,4)] show ?thesis
    by (auto simp: sound_backend_def truth_of_literals_def)
qed

lemma optimize_preserves_ev:
  assumes B: "sound_backend B"
  shows "ev B \<Gamma> s e f s' \<Longrightarrow> fold_scope B N env \<Gamma> \<Longrightarrow> fields_pure e \<Longrightarrow> binders_apart N e \<Longrightarrow>
      ev B \<Gamma> s (optimize_expr e env) f s'"
    and "evs B \<Gamma> s es r s' \<Longrightarrow> fold_scope B N env \<Gamma> \<Longrightarrow> list_all fields_pure es \<Longrightarrow> list_all (binders_apart N) es \<Longrightarrow>
      evs B \<Gamma> s (map (\<lambda>e. optimize_expr e env) es) r s'"
proof (induction arbitrary: env and env rule: ev_evs.inducts)
  case (ev_Let \<Gamma> s e\<^sub>1 v s' x e\<^sub>2 f s'')
  have 1: "ev B \<Gamma> s (optimize_expr e\<^sub>1 env) (Val v) s'" using ev_Let.prems by (intro ev_Let(2)) simp_all
  have "fold_scope B N (env(x := literal_of (optimize_expr e\<^sub>1 env))) (\<Gamma>(x \<mapsto> v))"
    using ev_Let.prems 1 by (intro fold_scope_let) simp_all
  then have 2: "ev B (\<Gamma>(x \<mapsto> v)) s' (optimize_expr e\<^sub>2 (env(x := literal_of (optimize_expr e\<^sub>1 env)))) f s''"
    by (rule ev_Let(4)) (use ev_Let.prems in simp_all)
  have "fields_pure (optimize_expr e\<^sub>1 env)" using ev_Let.prems by (simp add: fields_pure_optimize)
  from ev_dead_let[OF B this 1 2] show ?case by (simp only: optimize_expr.simps Let_def)
next
  case (ev_Let_abrupt \<Gamma> s e\<^sub>1 f s' x e\<^sub>2)
  have 1: "ev B \<Gamma> s (optimize_expr e\<^sub>1 env) f s'" using ev_Let_abrupt.prems by (intro ev_Let_abrupt(2)) simp_all
  have "fields_pure (optimize_expr e\<^sub>1 env)" using ev_Let_abrupt.prems by (simp add: fields_pure_optimize)
  then have "\<not> is_pure (optimize_expr e\<^sub>1 env)"
    using deep_pure_ev(1)[OF _ 1] ev_Let_abrupt(3) B by (auto simp: sound_backend_def dest: deep_pure_iff)
  with 1 ev_Let_abrupt(3) show ?case by (simp add: Let_def ev_evs.ev_Let_abrupt)
next
  case (ev_If \<Gamma> c v s t e f s')
  have "ev B \<Gamma> s (if bk_truth B v then optimize_expr t env else optimize_expr e env) f s'"
    using ev_If(3)[of env] ev_If.prems by (cases "bk_truth B v") simp_all
  from ev_if_const[OF B ev_If.prems(1) ev_If(1) this] show ?case by simp
next
  case (ev_Call \<Gamma> args vs func s v s')
  show ?case
  proof (cases "fold_call func args env")
    case None
    with ev_Call show ?thesis by (simp add: ev_evs.ev_Call)
  next
    case (Some l)
    from ev_Call.prems have "lit_agrees B env \<Gamma>" by (simp add: fold_scope_def)
    from fold_call_sound[OF _ this Some ev_Call(1,2)] B have "v = bk_lit B l" by (simp add: sound_backend_def)
    moreover have "s' = s" using B ev_Call(2) unfolding sound_backend_def calls_pure_def by blast
    ultimately show ?thesis using Some by (simp add: ev_Literal)
  qed
next
  case (ev_Match \<Gamma> x v arms pat body w s f s')
  have m: "(pat, body) \<in> set arms" using ev_Match(2) by (rule matching_arm_mem)
  then have "fold_scope B N env (bind_payload pat w \<Gamma>)" "fields_pure body" "binders_apart N body"
    using ev_Match.prems by (auto simp: list_all_iff intro!: fold_scope_payload split: option.splits)
  from ev_Match(5)[OF this] ev_Match(1-3) show ?case
    by (simp add: ev_evs.ev_Match[of _ x v] matching_arm_map)
next
  case (ev_Prim e \<Gamma> s f s')
  then have "optimize_expr e env = e" by (cases e rule: is_prim.cases) simp_all
  with ev_Prim show ?case by (simp add: ev_evs.ev_Prim)
next
  case (ev_Record \<Gamma> s fs vs s')
  have "evs B \<Gamma> s (map (\<lambda>e. optimize_expr e env) (map snd fs)) (Inr vs) s'"
    using ev_Record.prems by (intro ev_Record(2)) (auto simp: list_all_iff)
  then have "ev B \<Gamma> s (RecordNew (map (\<lambda>(field, e). (field, optimize_expr e env)) fs))
      (Val (bk_record B (zip (map fst (map (\<lambda>(field, e). (field, optimize_expr e env)) fs)) vs))) s'"
    by (intro ev_evs.ev_Record) (simp only: map_snd_fields)
  then show ?case by (simp only: map_fst_fields optimize_expr.simps)
next
  case (ev_Record_abrupt \<Gamma> s fs f s')
  have "evs B \<Gamma> s (map (\<lambda>e. optimize_expr e env) (map snd fs)) (Inl f) s'"
    using ev_Record_abrupt.prems by (intro ev_Record_abrupt(2)) (auto simp: list_all_iff)
  then show ?case by (simp only: optimize_expr.simps) (intro ev_evs.ev_Record_abrupt, simp only: map_snd_fields)
next
  case (ev_Loop_again \<Gamma> s body f s' v f' s'')
  have "ev B \<Gamma> s (optimize_expr body env) f s'" by (rule ev_Loop_again(2)) (use ev_Loop_again.prems in simp_all)
  moreover have "ev B \<Gamma> s' (Loop (optimize_expr body env)) f' s''"
    using ev_Loop_again(4)[OF ev_Loop_again.prems] by simp
  ultimately show ?case by (simp add: ev_evs.ev_Loop_again[OF _ ev_Loop_again(5)])
qed (auto simp: list_all_iff intro: ev_evs.intros)


section \<open>Discarded elements of a sequence\<close>

lemma deep_pure_seq_of: "list_all deep_pure es \<Longrightarrow> deep_pure (seq_of es)"
  by (auto simp: seq_of_def split: list.splits)

lemma fields_pure_seq_of: "list_all fields_pure es \<Longrightarrow> fields_pure (seq_of es)"
  by (auto simp: seq_of_def split: list.splits)

lemma drop_discarded_Nil [simp]: "drop_discarded [] = []"
  by (simp add: drop_discarded_def)

lemma drop_discarded_single [simp]: "drop_discarded [e] = [e]"
  by (simp add: drop_discarded_def)

lemma filter_enumerate_Suc:
  "map snd (filter (\<lambda>(i, e). P i e) (enumerate (Suc n) es)) = map snd (filter (\<lambda>(i, e). P (Suc i) e) (enumerate n es))"
  by (induction es arbitrary: n P) auto

lemma drop_discarded_Cons [simp]:
  "drop_discarded (e # e' # es) = (if is_pure e then [] else [e]) @ drop_discarded (e' # es)"
  by (simp add: drop_discarded_def filter_enumerate_Suc[of "\<lambda>i e. \<not> (i < Suc (length es) \<and> is_pure e)" 0 "e' # es", simplified])

lemma set_drop_discarded: "set (drop_discarded es) \<subseteq> set es"
  by (induction es rule: induct_list012) auto

lemma deep_pure_elim: "deep_pure e \<Longrightarrow> deep_pure (elim_dead_expr e)"
  by (induction e rule: elim_dead_expr.induct)
    (auto simp: list_all_iff intro!: deep_pure_seq_of dest!: subsetD[OF set_drop_discarded] split: option.splits)

lemma fields_pure_elim: "fields_pure e \<Longrightarrow> fields_pure (elim_dead_expr e)"
  by (induction e rule: elim_dead_expr.induct)
    (auto simp: list_all_iff deep_pure_elim intro!: fields_pure_seq_of dest!: subsetD[OF set_drop_discarded] split: option.splits)

lemma drop_discarded_eq_Nil [simp]: "drop_discarded es = [] \<longleftrightarrow> es = []"
  by (induction es rule: induct_list012) auto

inductive_cases evs_NilE: "evs B \<Gamma> s [] r s'"
inductive_cases evs_ConsE: "evs B \<Gamma> s (e # es) r s'"
inductive_cases ev_SeqE: "ev B \<Gamma> s (Seq es) f s'"

definition seq_result :: "('v, 's) backend \<Rightarrow> 'v flow + 'v list \<Rightarrow> 'v flow" where
  "seq_result B r = (case r of Inl f \<Rightarrow> f | Inr vs \<Rightarrow> Val (seq_value B vs))"

lemma ev_Seq_iff: "ev B \<Gamma> s (Seq es) f s' \<longleftrightarrow> (\<exists>r. evs B \<Gamma> s es r s' \<and> f = seq_result B r)"
proof
  assume "ev B \<Gamma> s (Seq es) f s'"
  then show "\<exists>r. evs B \<Gamma> s es r s' \<and> f = seq_result B r"
    by (rule ev_SeqE) (auto simp: seq_result_def intro: exI[of _ "Inr _"] exI[of _ "Inl _"])
next
  assume "\<exists>r. evs B \<Gamma> s es r s' \<and> f = seq_result B r"
  then obtain r where r: "evs B \<Gamma> s es r s'" "f = seq_result B r" by blast
  then show "ev B \<Gamma> s (Seq es) f s'" by (cases r) (auto simp: seq_result_def intro: ev_Seq ev_Seq_abrupt)
qed

lemma evs_length: "evs B \<Gamma> s es (Inr vs) s' \<Longrightarrow> length vs = length es"
  by (induction es arbitrary: s vs) (auto elim: evs_NilE evs_ConsE)

lemma evs_single: "evs B \<Gamma> s [e] r s' \<longleftrightarrow> ev B \<Gamma> s e (seq_result B r) s' \<and> (case r of Inl f \<Rightarrow> abrupt f | Inr vs \<Rightarrow> length vs = 1)"
  by (cases r) (auto simp: seq_result_def seq_value_def length_Suc_conv elim!: evs_ConsE evs_NilE intro: evs_Nil evs_Cons evs_abrupt)

text \<open>A pure element leaves the state alone and yields a value, so it can be skipped.\<close>

lemma evs_skip_pure:
  assumes "calls_pure B" "deep_pure e" "evs B \<Gamma> s (e # es) r s'" "es \<noteq> []"
  shows "\<exists>r'. evs B \<Gamma> s es r' s' \<and> seq_result B r' = seq_result B r"
  using assms(3)
proof (rule evs_ConsE)
  fix v s1 vs assume "r = Inr (v # vs)" "ev B \<Gamma> s e (Val v) s1" "evs B \<Gamma> s1 es (Inr vs) s'"
  moreover from this have "s1 = s" using deep_pure_ev(1)[OF assms(1) _ assms(2)] by blast
  moreover have "vs \<noteq> []" using evs_length calculation(3) assms(4) by fastforce
  ultimately show ?thesis by (intro exI[of _ "Inr vs"]) (simp add: seq_result_def seq_value_def)
next
  fix f assume "r = Inl f" "ev B \<Gamma> s e f s'" "abrupt f"
  then show ?thesis using deep_pure_ev(1)[OF assms(1) _ assms(2)] by blast
next
  fix v s1 f assume "r = Inl f" "ev B \<Gamma> s e (Val v) s1" "evs B \<Gamma> s1 es (Inl f) s'"
  moreover from this have "s1 = s" using deep_pure_ev(1)[OF assms(1) _ assms(2)] by blast
  ultimately show ?thesis by (intro exI[of _ "Inl f"]) simp
qed

lemma evs_Cons_replace:
  assumes "evs B \<Gamma> s (e # es) r s'" "es \<noteq> []" "es' \<noteq> []"
    and step: "\<And>s r. evs B \<Gamma> s es r s' \<Longrightarrow> \<exists>r'. evs B \<Gamma> s es' r' s' \<and> seq_result B r' = seq_result B r"
  shows "\<exists>r'. evs B \<Gamma> s (e # es') r' s' \<and> seq_result B r' = seq_result B r"
  using assms(1)
proof (rule evs_ConsE)
  fix v s1 vs assume a: "r = Inr (v # vs)" "ev B \<Gamma> s e (Val v) s1" "evs B \<Gamma> s1 es (Inr vs) s'"
  from step[OF a(3)] obtain r' where r': "evs B \<Gamma> s1 es' r' s'" "seq_result B r' = seq_result B (Inr vs)" by blast
  have "vs \<noteq> []" using evs_length[OF a(3)] assms(2) by fastforce
  show ?thesis
  proof (cases r')
    case (Inl f)
    with a r' show ?thesis by (intro exI[of _ "Inl f"]) (auto simp: seq_result_def seq_value_def \<open>vs \<noteq> []\<close> intro: evs_Cons_abrupt)
  next
    case (Inr ws)
    moreover have "ws \<noteq> []" using evs_length r'(1) Inr assms(3) by fastforce
    ultimately show ?thesis using a r' \<open>vs \<noteq> []\<close>
      by (intro exI[of _ "Inr (v # ws)"]) (auto simp: seq_result_def seq_value_def intro: evs_Cons)
  qed
next
  fix f assume a: "r = Inl f" "ev B \<Gamma> s e f s'" "abrupt f"
  then show ?thesis by (intro exI[of _ "Inl f"]) (auto intro: evs_abrupt)
next
  fix v s1 f assume a: "r = Inl f" "ev B \<Gamma> s e (Val v) s1" "evs B \<Gamma> s1 es (Inl f) s'"
  from step[OF a(3)] obtain r' where r': "evs B \<Gamma> s1 es' r' s'" "seq_result B r' = seq_result B (Inl f)" by blast
  show ?thesis
  proof (cases r')
    case (Inl f')
    with a r' show ?thesis by (intro exI[of _ "Inl f"]) (auto simp: seq_result_def intro: evs_Cons_abrupt)
  next
    case (Inr ws)
    moreover have "ws \<noteq> []" using evs_length r'(1) Inr assms(3) by fastforce
    ultimately show ?thesis using a r'
      by (intro exI[of _ "Inr (v # ws)"]) (auto simp: seq_result_def seq_value_def intro: evs_Cons)
  qed
qed

lemma evs_drop_discarded:
  assumes B: "calls_pure B"
  shows "evs B \<Gamma> s es r s' \<Longrightarrow> list_all fields_pure es \<Longrightarrow>
    \<exists>r'. evs B \<Gamma> s (drop_discarded es) r' s' \<and> seq_result B r' = seq_result B r"
proof (induction es arbitrary: s r rule: induct_list012)
  case (3 e e' es)
  then have fp: "fields_pure e" and rest: "list_all fields_pure (e' # es)" by simp_all
  show ?case
  proof (cases "is_pure e")
    case True
    with fp have "deep_pure e" by (simp add: deep_pure_iff)
    from evs_skip_pure[OF B this 3(3)] obtain r' where "evs B \<Gamma> s (e' # es) r' s'" "seq_result B r' = seq_result B r" by auto
    with 3(2)[OF this(1) rest] True show ?thesis by simp
  next
    case False
    from evs_Cons_replace[OF 3(3) _ _ 3(2)[OF _ rest]] False show ?thesis by simp
  qed
qed auto

lemma list012_cases: obtains "xs = []" | x where "xs = [x]" | x y zs where "xs = x # y # zs"
  by (cases xs rule: remdups_adj.cases) auto

lemma ev_seq_of: "ev B \<Gamma> s (Seq es) f s' \<Longrightarrow> ev B \<Gamma> s (seq_of es) f s'"
proof (cases es rule: list012_cases)
  case 1
  assume "ev B \<Gamma> s (Seq es) f s'"
  with 1 show ?thesis by (auto simp: seq_of_def ev_Seq_iff seq_result_def seq_value_def elim!: evs_NilE intro: ev_Literal)
next
  case (2 e)
  assume "ev B \<Gamma> s (Seq es) f s'"
  with 2 show ?thesis by (auto simp: seq_of_def ev_Seq_iff evs_single)
qed (simp add: seq_of_def)

lemma ev_seq_elim:
  assumes "calls_pure B" "evs B \<Gamma> s es r s'" "list_all fields_pure es"
  shows "ev B \<Gamma> s (seq_of (drop_discarded es)) (seq_result B r) s'"
proof -
  from evs_drop_discarded[OF assms] obtain r'
    where "evs B \<Gamma> s (drop_discarded es) r' s'" "seq_result B r' = seq_result B r" by blast
  then have "ev B \<Gamma> s (Seq (drop_discarded es)) (seq_result B r) s'" by (auto simp: ev_Seq_iff)
  then show ?thesis by (rule ev_seq_of)
qed

lemma elim_dead_preserves_ev:
  assumes B: "calls_pure B"
  shows "ev B \<Gamma> s e f s' \<Longrightarrow> fields_pure e \<Longrightarrow> ev B \<Gamma> s (elim_dead_expr e) f s'"
    and "evs B \<Gamma> s es r s' \<Longrightarrow> list_all fields_pure es \<Longrightarrow> evs B \<Gamma> s (map elim_dead_expr es) r s'"
proof (induction rule: ev_evs.inducts)
  case (ev_Seq \<Gamma> s es vs s')
  then have "evs B \<Gamma> s (map elim_dead_expr es) (Inr vs) s'" "list_all fields_pure (map elim_dead_expr es)"
    by (auto simp: list_all_iff fields_pure_elim)
  from ev_seq_elim[OF B this] show ?case by (simp add: seq_result_def)
next
  case (ev_Seq_abrupt \<Gamma> s es f s')
  then have "evs B \<Gamma> s (map elim_dead_expr es) (Inl f) s'" "list_all fields_pure (map elim_dead_expr es)"
    by (auto simp: list_all_iff fields_pure_elim)
  from ev_seq_elim[OF B this] show ?case by (simp add: seq_result_def)
next
  case (ev_Match \<Gamma> x v arms pat body w s f s')
  have "(pat, body) \<in> set arms" using ev_Match(2) by (rule matching_arm_mem)
  with ev_Match show ?case by (auto simp: list_all_iff matching_arm_map intro!: ev_evs.ev_Match[of _ x v])
next
  case (ev_Record \<Gamma> s fs vs s')
  then have "evs B \<Gamma> s (map elim_dead_expr (map snd fs)) (Inr vs) s'" by (auto simp: list_all_iff case_prod_beta)
  then have "ev B \<Gamma> s (RecordNew (map (\<lambda>(k, e). (k, elim_dead_expr e)) fs))
      (Val (bk_record B (zip (map fst (map (\<lambda>(k, e). (k, elim_dead_expr e)) fs)) vs))) s'"
    by (intro ev_evs.ev_Record) (simp only: map_snd_fields)
  then show ?case by (simp only: map_fst_fields elim_dead_expr.simps)
next
  case (ev_Record_abrupt \<Gamma> s fs f s')
  then have "evs B \<Gamma> s (map elim_dead_expr (map snd fs)) (Inl f) s'" by (auto simp: list_all_iff case_prod_beta)
  then show ?case by (simp only: elim_dead_expr.simps) (intro ev_evs.ev_Record_abrupt, simp only: map_snd_fields)
next
  case (ev_If \<Gamma> c v s t e f s')
  then show ?case by (auto intro!: ev_evs.ev_If[of _ c v] split: if_splits)
next
  case (ev_Prim e \<Gamma> s f s')
  then have "elim_dead_expr e = e" by (cases e rule: is_prim.cases) simp_all
  with ev_Prim show ?case by (simp add: ev_evs.ev_Prim)
next
  case (ev_Loop_again \<Gamma> s body f s' v f' s'')
  then show ?case by (simp add: ev_evs.ev_Loop_again[OF _ ev_Loop_again(5)])
qed (auto simp: list_all_iff intro: ev_evs.intros)


end
