(* ===== verification/Anf_Passes.thy ===== *)
theory Anf_Passes
  imports Anf_Semantics
begin

text \<open>
  What the optimisation passes promise and where they break it: the pass
  pipeline preserves runs, folded arithmetic is exact, inlining is right without
  name capture; effects of dead calls are lost, a timeout loses its duration,
  common subexpression elimination leaves the scope of a name, inlining captures
  argument names.
\<close>

section \<open>Inlining without capture\<close>

text \<open>No binder of the expression is in \<open>F\<close>.\<close>

fun binders_avoid :: "string set \<Rightarrow> AnfExpr \<Rightarrow> bool" where
  "binders_avoid F (LetE x value body) = (x \<notin> F \<and> binders_avoid F value \<and> binders_avoid F body)"
| "binders_avoid F (IfE c t e) = (binders_avoid F t \<and> binders_avoid F e)"
| "binders_avoid F (Seq es) = list_all (binders_avoid F) es"
| "binders_avoid F (Match s arms) =
    list_all (\<lambda>(pat, body). (case arm_payload_binding pat of None \<Rightarrow> True | Some x \<Rightarrow> x \<notin> F) \<and> binders_avoid F body) arms"
| "binders_avoid F (RecordNew fs) = list_all (\<lambda>(f, e). binders_avoid F e) fs"
| "binders_avoid F (TupleNew es) = list_all (binders_avoid F) es"
| "binders_avoid F (VariantNew t p) = (case p of None \<Rightarrow> True | Some e \<Rightarrow> binders_avoid F e)"
| "binders_avoid F (ListNew es) = list_all (binders_avoid F) es"
| "binders_avoid F _ = True"

lemma substitute_vars_empty: "substitute_vars e Map.empty = e"
proof (induction e "Map.empty :: string \<rightharpoonup> string" rule: substitute_vars.induct)
  case (13 params captures body)
  have "(\<lambda>x. if x \<in> set params then None else None) = (Map.empty :: string \<rightharpoonup> string)" by auto
  with 13 show ?case by (simp add: sub_name_def map_idI)
qed (auto simp: sub_name_def fun_upd_def intro!: map_idI split: option.splits)

definition names_in :: "string set \<Rightarrow> (string \<rightharpoonup> string) \<Rightarrow> bool" where
  "names_in F \<sigma> \<longleftrightarrow> dom \<sigma> \<union> ran \<sigma> \<subseteq> F"

lemma sub_name_upd:
  assumes "x \<notin> F" "names_in F \<sigma>" "y \<noteq> x"
  shows "sub_name (\<sigma>(x := None)) y = sub_name \<sigma> y" "sub_name \<sigma> y \<noteq> x"
  using assms by (auto simp: names_in_def sub_name_def ran_def split: option.splits)

lemma sub_name_outside: "x \<notin> F \<Longrightarrow> names_in F \<sigma> \<Longrightarrow> sub_name \<sigma> x = x"
  by (auto simp: names_in_def sub_name_def split: option.splits)

lemma ran_upd_None: "names_in F \<sigma> \<Longrightarrow> names_in F (\<sigma>(x := None))"
  by (auto simp: names_in_def ran_def split: if_splits)

definition sub_agrees :: "(string \<Rightarrow> 'v option) \<Rightarrow> (string \<rightharpoonup> string) \<Rightarrow> (string \<Rightarrow> 'v option) \<Rightarrow> AnfExpr \<Rightarrow> bool" where
  "sub_agrees \<Gamma>' \<sigma> \<Gamma> e \<longleftrightarrow> (\<forall>x. uses_var e x \<longrightarrow> \<Gamma>' (sub_name \<sigma> x) = \<Gamma> x)"

lemma sub_agrees_simps [simp]:
  "sub_agrees \<Gamma>' \<sigma> \<Gamma> (Var x) \<longleftrightarrow> \<Gamma>' (sub_name \<sigma> x) = \<Gamma> x"
  "sub_agrees \<Gamma>' \<sigma> \<Gamma> (IfE c t e) \<longleftrightarrow> \<Gamma>' (sub_name \<sigma> c) = \<Gamma> c \<and> sub_agrees \<Gamma>' \<sigma> \<Gamma> t \<and> sub_agrees \<Gamma>' \<sigma> \<Gamma> e"
  "sub_agrees \<Gamma>' \<sigma> \<Gamma> (Call func args) \<longleftrightarrow> (\<forall>a \<in> set args. \<Gamma>' (sub_name \<sigma> a) = \<Gamma> a)"
  "sub_agrees \<Gamma>' \<sigma> \<Gamma> (FieldGet r k) \<longleftrightarrow> \<Gamma>' (sub_name \<sigma> r) = \<Gamma> r"
  "sub_agrees \<Gamma>' \<sigma> \<Gamma> (Seq es) \<longleftrightarrow> (\<forall>e \<in> set es. sub_agrees \<Gamma>' \<sigma> \<Gamma> e)"
  "sub_agrees \<Gamma>' \<sigma> \<Gamma> (TupleNew es) \<longleftrightarrow> (\<forall>e \<in> set es. sub_agrees \<Gamma>' \<sigma> \<Gamma> e)"
  "sub_agrees \<Gamma>' \<sigma> \<Gamma> (ListNew es) \<longleftrightarrow> (\<forall>e \<in> set es. sub_agrees \<Gamma>' \<sigma> \<Gamma> e)"
  "sub_agrees \<Gamma>' \<sigma> \<Gamma> (VariantNew tag (Some e)) \<longleftrightarrow> sub_agrees \<Gamma>' \<sigma> \<Gamma> e"
  unfolding sub_agrees_def by (auto simp: list_ex_iff)

lemma sub_agrees_record [simp]:
  "sub_agrees \<Gamma>' \<sigma> \<Gamma> (RecordNew fs) \<longleftrightarrow> (\<forall>e \<in> set (map snd fs). sub_agrees \<Gamma>' \<sigma> \<Gamma> e)"
  unfolding sub_agrees_def by (force simp: list_ex_iff)

lemma sub_agrees_let:
  assumes "sub_agrees \<Gamma>' \<sigma> \<Gamma> (LetE x e\<^sub>1 e\<^sub>2)" "x \<notin> F" "names_in F \<sigma>"
  shows "sub_agrees \<Gamma>' \<sigma> \<Gamma> e\<^sub>1" "sub_agrees (\<Gamma>'(x \<mapsto> v)) (\<sigma>(x := None)) (\<Gamma>(x \<mapsto> v)) e\<^sub>2"
proof -
  show "sub_agrees \<Gamma>' \<sigma> \<Gamma> e\<^sub>1" using assms(1) by (simp add: sub_agrees_def)
  have "(\<Gamma>'(x \<mapsto> v)) (sub_name (\<sigma>(x := None)) y) = (\<Gamma>(x \<mapsto> v)) y" if "uses_var e\<^sub>2 y" for y
    using assms(1) that sub_name_upd[OF assms(2,3), of y] by (cases "y = x") (simp_all add: sub_agrees_def sub_name_def)
  then show "sub_agrees (\<Gamma>'(x \<mapsto> v)) (\<sigma>(x := None)) (\<Gamma>(x \<mapsto> v)) e\<^sub>2" by (simp add: sub_agrees_def)
qed

lemma sub_agrees_arm:
  assumes "sub_agrees \<Gamma>' \<sigma> \<Gamma> (Match x arms)" "(pat, body) \<in> set arms" "names_in F \<sigma>"
    and avoid: "\<And>y. arm_payload_binding pat = Some y \<Longrightarrow> y \<notin> F"
  shows "sub_agrees (bind_payload pat w \<Gamma>') \<sigma> (bind_payload pat w \<Gamma>) body"
proof -
  have "bind_payload pat w \<Gamma>' (sub_name \<sigma> y) = bind_payload pat w \<Gamma> y" if y: "uses_var body y" for y
  proof (cases "arm_payload_binding pat = Some y")
    case True
    with avoid[OF True] assms(3) show ?thesis by (simp add: bind_payload_apply sub_name_outside)
  next
    case False
    then have "arm_payload_binding pat \<noteq> Some (sub_name \<sigma> y)"
      using avoid sub_name_upd(2)[OF _ assms(3), of "sub_name \<sigma> y" y] by (metis sub_name_def option.simps(4))
    moreover have "\<Gamma>' (sub_name \<sigma> y) = \<Gamma> y" using assms(1,2) y by (auto simp: sub_agrees_def list_ex_iff)
    ultimately show ?thesis using False by (simp add: bind_payload_apply)
  qed
  then show ?thesis by (simp add: sub_agrees_def)
qed

lemma substitute_ev:
  shows "ev B \<Gamma> s e f s' \<Longrightarrow> sub_agrees \<Gamma>' \<sigma> \<Gamma> e \<Longrightarrow> names_in F \<sigma> \<Longrightarrow>
      binders_avoid F e \<Longrightarrow> deep_pure e \<Longrightarrow> ev B \<Gamma>' s (substitute_vars e \<sigma>) f s'"
    and "evs B \<Gamma> s es r s' \<Longrightarrow> (\<forall>e \<in> set es. sub_agrees \<Gamma>' \<sigma> \<Gamma> e) \<Longrightarrow> names_in F \<sigma> \<Longrightarrow>
      list_all (binders_avoid F) es \<Longrightarrow> list_all deep_pure es \<Longrightarrow>
      evs B \<Gamma>' s (map (\<lambda>e. substitute_vars e \<sigma>) es) r s'"
proof (induction arbitrary: \<Gamma>' \<sigma> and \<Gamma>' \<sigma> rule: ev_evs.inducts)
  case (ev_Let \<Gamma> s e\<^sub>1 v s' x e\<^sub>2 f s'')
  have x: "x \<notin> F" using ev_Let.prems(3) by simp
  note ag = sub_agrees_let[OF ev_Let.prems(1) x ev_Let.prems(2)]
  have "ev B \<Gamma>' s (substitute_vars e\<^sub>1 \<sigma>) (Val v) s'" by (rule ev_Let(2)[OF ag(1)]) (use ev_Let.prems in simp_all)
  moreover have "ev B (\<Gamma>'(x \<mapsto> v)) s' (substitute_vars e\<^sub>2 (\<sigma>(x := None))) f s''"
    by (rule ev_Let(4)[OF ag(2) ran_upd_None[OF ev_Let.prems(2)]]) (use ev_Let.prems in simp_all)
  ultimately show ?case by (simp add: ev_evs.ev_Let)
next
  case (ev_Let_abrupt \<Gamma> s e\<^sub>1 f s' x e\<^sub>2)
  have x: "x \<notin> F" using ev_Let_abrupt.prems(3) by simp
  note ag = sub_agrees_let[OF ev_Let_abrupt.prems(1) x ev_Let_abrupt.prems(2)]
  from ev_Let_abrupt(2)[OF ag(1)] ev_Let_abrupt(3) ev_Let_abrupt.prems show ?case by (simp add: ev_evs.ev_Let_abrupt)
next
  case (ev_If \<Gamma> c v s t e f s')
  then show ?case by (auto intro!: ev_evs.ev_If[of _ _ v] split: if_splits)
next
  case (ev_Call \<Gamma> args vs func s v s')
  have "map (\<Gamma>' \<circ> sub_name \<sigma>) args = map \<Gamma> args" using ev_Call.prems(1) by simp
  with ev_Call(1,2) show ?case by (simp add: ev_evs.ev_Call)
next
  case (ev_Match \<Gamma> x v arms pat body w s f s')
  have m: "(pat, body) \<in> set arms" using ev_Match(2) by (rule matching_arm_mem)
  have "y \<notin> F" if "arm_payload_binding pat = Some y" for y using ev_Match.prems(3) m that by (auto simp: list_all_iff)
  from sub_agrees_arm[OF ev_Match.prems(1) m ev_Match.prems(2) this]
  have "ev B (bind_payload pat w \<Gamma>') s (substitute_vars body \<sigma>) f s'"
    by (rule ev_Match(5)) (use ev_Match.prems m in \<open>auto simp: list_all_iff\<close>)
  moreover have "\<Gamma>' (sub_name \<sigma> x) = Some v" using ev_Match.prems(1) ev_Match(1) by (simp add: sub_agrees_def)
  ultimately show ?case using ev_Match(2,3)
    by (auto simp: matching_arm_map intro!: ev_evs.ev_Match[of _ "sub_name \<sigma> x" v])
next
  case (ev_Record \<Gamma> s fs vs s')
  then have "evs B \<Gamma>' s (map (\<lambda>e. substitute_vars e \<sigma>) (map snd fs)) (Inr vs) s'"
    by (intro ev_Record(2)) (auto simp: list_all_iff)
  then have "ev B \<Gamma>' s (RecordNew (map (\<lambda>(f, e). (f, substitute_vars e \<sigma>)) fs))
      (Val (bk_record B (zip (map fst (map (\<lambda>(f, e). (f, substitute_vars e \<sigma>)) fs)) vs))) s'"
    by (intro ev_evs.ev_Record) (simp only: map_snd_fields)
  then show ?case by (simp only: map_fst_fields substitute_vars.simps)
next
  case (ev_Record_abrupt \<Gamma> s fs f s')
  then have "evs B \<Gamma>' s (map (\<lambda>e. substitute_vars e \<sigma>) (map snd fs)) (Inl f) s'"
    by (intro ev_Record_abrupt(2)) (auto simp: list_all_iff)
  then show ?case by (simp only: substitute_vars.simps) (intro ev_evs.ev_Record_abrupt, simp only: map_snd_fields)
next
  case (ev_Prim e \<Gamma> s f s')
  then show ?case using prim_not_deep_pure by blast
next
  case evs_Cons
  then show ?case by (auto intro!: ev_evs.evs_Cons)
next
  case evs_Cons_abrupt
  then show ?case by (auto intro!: ev_evs.evs_Cons_abrupt)
qed (auto simp: list_all_iff intro: ev_evs.intros)


text \<open>Arguments of calls are names in \<open>F\<close>.\<close>

fun args_in :: "string set \<Rightarrow> AnfExpr \<Rightarrow> bool" where
  "args_in F (Call func args) = (set args \<subseteq> F)"
| "args_in F (LetE x value body) = (args_in F value \<and> args_in F body)"
| "args_in F (IfE c t e) = (args_in F t \<and> args_in F e)"
| "args_in F (Return e) = args_in F e"
| "args_in F (Seq es) = list_all (args_in F) es"
| "args_in F (Match s arms) = list_all (\<lambda>(pat, body). args_in F body) arms"
| "args_in F (RecordNew fs) = list_all (\<lambda>(f, e). args_in F e) fs"
| "args_in F (FieldUpdate r k v) = args_in F v"
| "args_in F (TupleNew es) = list_all (args_in F) es"
| "args_in F (VariantNew t p) = (case p of None \<Rightarrow> True | Some e \<Rightarrow> args_in F e)"
| "args_in F (ListNew es) = list_all (args_in F) es"
| "args_in F (Loop b) = args_in F b"
| "args_in F (Break v) = args_in F v"
| "args_in F _ = True"

text \<open>
  A function of the table is closed over its distinct parameters, its parameters
  and the call arguments are kept apart from the names it binds, and a call runs
  its body.
\<close>

definition inlinable :: "('v, 's) backend \<Rightarrow> string set \<Rightarrow> small_fns \<Rightarrow> bool" where
  "inlinable B F small \<longleftrightarrow>
    (\<forall>func params body. small func = Some (params, body) \<longrightarrow>
       distinct params \<and> set params \<subseteq> F \<and> (\<forall>x. uses_var body x \<longrightarrow> x \<in> set params) \<and>
       binders_avoid F body \<and> deep_pure body \<and>
       (\<forall>vs s v s'. length vs = length params \<longrightarrow> bk_call B func vs s = Some (v, s') \<longrightarrow>
          ev B (map_of (zip params vs)) s body (Val v) s'))"

lemma map_of_rev_distinct: "distinct (map fst xs) \<Longrightarrow> map_of (rev xs) = map_of xs"
  by (rule map_of_inject_set[THEN iffD2]) (simp_all add: rev_map[symmetric])

lemma sub_name_params:
  assumes "distinct params" "length params = length args" "map \<Gamma> args = map Some vs" "x \<in> set params"
  shows "\<Gamma> (sub_name (map_of (rev (zip params args))) x) = map_of (zip params vs) x"
proof -
  from assms(4) obtain i where i: "i < length params" "x = params ! i" by (auto simp: in_set_conv_nth)
  have len: "length vs = length args" using assms(3) map_eq_imp_length_eq by fastforce
  have "map_of (zip params args) x = Some (args ! i)" "map_of (zip params vs) x = Some (vs ! i)"
    using assms(1,2) i len by (auto simp: map_of_zip_nth)
  moreover have "map_of (rev (zip params args)) = map_of (zip params args)"
    using assms(1,2) by (intro map_of_rev_distinct) simp
  moreover have "\<Gamma> (args ! i) = Some (vs ! i)"
    using arg_cong[OF assms(3), of "\<lambda>l. l ! i"] i(1) assms(2) len by simp
  ultimately show ?thesis by (simp add: sub_name_def)
qed

lemma inline_call_ev:
  assumes "inlinable B F small" "small func = Some (params, body)" "length params = length args" "set args \<subseteq> F"
    and "map \<Gamma> args = map Some vs" "bk_call B func vs s = Some (v, s')"
  shows "ev B \<Gamma> s (substitute_vars body (map_of (rev (zip params args)))) (Val v) s'"
proof -
  let ?\<sigma> = "map_of (rev (zip params args))"
  have len: "length vs = length params" using assms(3,5) map_eq_imp_length_eq by fastforce
  from assms(1,2) have d: "distinct params" "set params \<subseteq> F" "\<And>x. uses_var body x \<Longrightarrow> x \<in> set params"
    "binders_avoid F body" "deep_pure body" unfolding inlinable_def by blast+
  have "ev B (map_of (zip params vs)) s body (Val v) s'"
    using assms(1,2,6) len unfolding inlinable_def by blast
  moreover have "sub_agrees \<Gamma> ?\<sigma> (map_of (zip params vs)) body"
    using d(3) sub_name_params[OF d(1) assms(3,5)] by (simp add: sub_agrees_def)
  moreover have "names_in F ?\<sigma>"
    using assms(3,4) d(2) unfolding names_in_def
    by (auto simp: ran_def dest!: map_of_SomeD) (meson set_zip_leftD set_zip_rightD subsetD)+
  ultimately show ?thesis using d(4,5) by (rule substitute_ev(1))
qed

lemma inline_preserves_ev:
  assumes I: "inlinable B F small"
  shows "ev B \<Gamma> s e f s' \<Longrightarrow> args_in F e \<Longrightarrow> ev B \<Gamma> s (inline_calls_in_expr e small) f s'"
    and "evs B \<Gamma> s es r s' \<Longrightarrow> list_all (args_in F) es \<Longrightarrow> evs B \<Gamma> s (map (\<lambda>e. inline_calls_in_expr e small) es) r s'"
proof (induction rule: ev_evs.inducts)
  case (ev_Call \<Gamma> args vs func s v s')
  have keep: "ev B \<Gamma> s (Call func args) (Val v) s'" using ev_Call(1,2) by (rule ev_evs.ev_Call)
  show ?case
  proof (cases "\<exists>params body. small func = Some (params, body) \<and> length params = length args")
    case True
    then obtain params body where "small func = Some (params, body)" "length params = length args" by blast
    with inline_call_ev[OF I this _ ev_Call(1,2)] ev_Call.prems show ?thesis by simp
  next
    case False
    with keep show ?thesis by (auto split: option.splits)
  qed
next
  case (ev_Match \<Gamma> x v arms pat body w s f s')
  have "(pat, body) \<in> set arms" using ev_Match(2) by (rule matching_arm_mem)
  with ev_Match show ?case by (auto simp: list_all_iff matching_arm_map intro!: ev_evs.ev_Match[of _ x v])
next
  case (ev_Record \<Gamma> s fs vs s')
  then have "evs B \<Gamma> s (map (\<lambda>e. inline_calls_in_expr e small) (map snd fs)) (Inr vs) s'"
    by (auto simp: list_all_iff case_prod_beta)
  then have "ev B \<Gamma> s (RecordNew (map (\<lambda>(k, e). (k, inline_calls_in_expr e small)) fs))
      (Val (bk_record B (zip (map fst (map (\<lambda>(k, e). (k, inline_calls_in_expr e small)) fs)) vs))) s'"
    by (intro ev_evs.ev_Record) (simp only: map_snd_fields)
  then show ?case by (simp only: map_fst_fields inline_calls_in_expr.simps)
next
  case (ev_Record_abrupt \<Gamma> s fs f s')
  then have "evs B \<Gamma> s (map (\<lambda>e. inline_calls_in_expr e small) (map snd fs)) (Inl f) s'"
    by (auto simp: list_all_iff case_prod_beta)
  then show ?case by (simp only: inline_calls_in_expr.simps) (intro ev_evs.ev_Record_abrupt, simp only: map_snd_fields)
next
  case (ev_If \<Gamma> c v s t e f s')
  then show ?case by (auto intro!: ev_evs.ev_If[of _ c v] split: if_splits)
next
  case (ev_Prim e \<Gamma> s f s')
  then have "inline_calls_in_expr e small = e" by (cases e rule: is_prim.cases) simp_all
  with ev_Prim show ?case by (simp add: ev_evs.ev_Prim)
next
  case (ev_Loop_again \<Gamma> s body f s' v f' s'')
  then show ?case by (simp add: ev_evs.ev_Loop_again[OF _ ev_Loop_again(5)])
qed (auto simp: list_all_iff intro: ev_evs.intros)


section \<open>The passes on a module\<close>

text \<open>The code of a binding: a top-level lambda is emitted as a function with its body.\<close>

fun run_body :: "AnfExpr \<Rightarrow> AnfExpr" where
  "run_body (Lambda params captures body) = body"
| "run_body e = e"

lemma binders_apart_seq_of: "list_all (binders_apart N) es \<Longrightarrow> binders_apart N (seq_of es)"
  by (auto simp: seq_of_def split: list.splits)

lemma binders_apart_elim: "binders_apart N e \<Longrightarrow> binders_apart N (elim_dead_expr e)"
  by (induction e rule: elim_dead_expr.induct)
    (auto simp: list_all_iff intro!: binders_apart_seq_of dest!: subsetD[OF set_drop_discarded] split: option.splits)

section \<open>Folded arithmetic\<close>

text \<open>The integer a folded call yields.\<close>

definition folded_int :: "string \<Rightarrow> i64 list \<Rightarrow> int option" where
  "folded_int func ints = (case fold_ints func ints of Some (IntL w) \<Rightarrow> Some (sint w) | _ \<Rightarrow> None)"

lemma sint_of_int_i64: "sint (of_int r :: i64) = signed_take_bit 63 r"
  using sint_sbintrunc'[where 'a = 64, of r] by simp

lemma i64_range: "i64_MIN \<le> sint (a :: i64)" "sint (a :: i64) \<le> i64_MAX"
  using sint_ge[of a] sint_lt[of a] by simp_all

lemma sint_of_int_range: "i64_MIN \<le> r \<Longrightarrow> r \<le> i64_MAX \<Longrightarrow> sint (of_int r :: i64) = r"
  unfolding sint_of_int_i64 by (rule signed_take_bit_int_eq_self) simp_all

lemma sint_wrapping:
  "sint (a + b) = signed_take_bit 63 (sint a + sint b)"
  "sint (a - b) = signed_take_bit 63 (sint a - sint b)"
  "sint (a * b) = signed_take_bit 63 (sint a * sint b)" for a b :: i64
  using sint_word_add[of a b] by (simp_all add: sint_of_int_i64[symmetric])

lemma sint_saturated: "sint (saturated r) = max i64_MIN (min i64_MAX r)"
  unfolding saturated_def by (subst sint_of_int_range) auto

lemma map_sint_checked: "map_option sint (checked r) = (if i64_MIN \<le> r \<and> r \<le> i64_MAX then Some r else None)"
  by (simp add: checked_def sint_of_int_range)

lemma sint_unwrap_checked: "sint (unwrap_or (checked r) c) = (if i64_MIN \<le> r \<and> r \<le> i64_MAX then r else sint c)"
  by (simp add: checked_def unwrap_or_def sint_of_int_range)

lemma sdiv_bound:
  assumes "i64_MIN \<le> a" "a \<le> i64_MAX" "b \<noteq> 0" "\<not> (a = i64_MIN \<and> b = - 1)"
  shows "i64_MIN \<le> a sdiv b \<and> a sdiv b \<le> i64_MAX"
proof -
  have q: "\<bar>a sdiv b\<bar> = \<bar>a\<bar> div \<bar>b\<bar>"
    using assms(3) by (auto simp: signed_divide_int_def abs_mult sgn_if div_neg_neg_trivial pos_imp_zdiv_nonneg_iff)
  show ?thesis
  proof (cases "\<bar>b\<bar> = 1")
    case True
    then have "b = 1 \<or> b = - 1" by arith
    with assms show ?thesis by (auto simp: signed_divide_int_def sgn_if)
  next
    case False
    with assms(3) have "2 \<le> \<bar>b\<bar>" by arith
    then have "\<bar>a\<bar> div \<bar>b\<bar> \<le> \<bar>a\<bar> div 2" by (intro zdiv_mono2) simp_all
    also have "\<dots> \<le> 2 ^ 62" using assms(1,2) by simp
    finally have "\<bar>a sdiv b\<bar> \<le> 2 ^ 62" using q by simp
    then have "a sdiv b \<le> 2 ^ 62" "- (a sdiv b) \<le> 2 ^ 62" by (simp_all only: abs_le_iff)
    then show ?thesis by simp
  qed
qed


lemma sint_eq_0: "sint b = 0 \<longleftrightarrow> b = 0" for b :: i64
  by (metis signed_0 signed_word_eqI sint_0)

lemma checked_div_exact:
  "map_option sint (checked_div a b) =
    (if sint b = 0 \<or> sint a = i64_MIN \<and> sint b = - 1 then None else Some (sint a sdiv sint b))"
proof -
  have "checked (sint a sdiv sint b) = None" if "sint a = i64_MIN" "sint b = - 1"
    using that by (simp add: checked_def signed_divide_int_def)
  moreover have "i64_MIN \<le> sint a sdiv sint b \<and> sint a sdiv sint b \<le> i64_MAX"
    if "sint b \<noteq> 0" "\<not> (sint a = i64_MIN \<and> sint b = - 1)"
    using that by (intro sdiv_bound i64_range)
  ultimately show ?thesis by (auto simp: checked_div_def sint_eq_0 map_sint_checked)
qed

lemma smod_bound: "l \<noteq> 0 \<Longrightarrow> \<bar>k smod l\<bar> < \<bar>l\<bar>" for k l :: int
proof -
  assume "l \<noteq> 0"
  then have "\<bar>k smod l\<bar> = \<bar>k\<bar> mod \<bar>l\<bar>"
    by (auto simp: signed_modulo_int_def abs_mult sgn_if)
  then show ?thesis using \<open>l \<noteq> 0\<close> by simp
qed

lemma checked_rem_exact:
  "map_option sint (checked_rem a b) =
    (if sint b = 0 \<or> sint a = i64_MIN \<and> sint b = - 1 then None else Some (sint a smod sint b))"
proof -
  have "sint (of_int (sint a smod sint b) :: i64) = sint a smod sint b" if "sint b \<noteq> 0"
    using smod_bound[OF that, of "sint a"] i64_range[of b] by (intro sint_of_int_range) arith+
  then show ?thesis by (simp add: checked_rem_def sint_eq_0)
qed

lemma folded_int_binary: "folded_int func [a, b] =
    (case fold_binary func a b of Some (IntL w) \<Rightarrow> Some (sint w) | _ \<Rightarrow> None)"
  by (simp add: folded_int_def fold_ints_def)


section \<open>A concrete backend\<close>

text \<open>
  Values are 64-bit words, the state counts effects; built-ins compute as
  documented in \<^verbatim>\<open>const_fold.rs\<close>, other functions are given by a table.
\<close>

definition word_literal :: "LiteralValue \<Rightarrow> i64" where
  "word_literal l = (case int_literal l of Some w \<Rightarrow> w | None \<Rightarrow> 0)"

definition word_backend :: "(string \<Rightarrow> i64 list \<Rightarrow> nat \<Rightarrow> (i64 \<times> nat) option) \<Rightarrow> (i64, nat) backend" where
  "word_backend user = \<lparr>
    bk_lit = word_literal,
    bk_truth = (\<lambda>v. v \<noteq> 0),
    bk_call = (\<lambda>func vs s. case fold_ints func vs of Some l \<Rightarrow> Some (word_literal l, s) | None \<Rightarrow> user func vs s),
    bk_record = (\<lambda>fs. 0), bk_tuple = (\<lambda>vs. 0), bk_variant = (\<lambda>tag p. 0), bk_list = (\<lambda>vs. 0),
    bk_field = (\<lambda>v k. None), bk_update = (\<lambda>v k w. None),
    bk_pattern = (\<lambda>pat v. if pat = ''_'' then Some v else None),
    bk_prim = (\<lambda>e \<Gamma> s. Some (Val 0, Suc s))\<rparr>"

definition double_fn :: "string \<Rightarrow> i64 list \<Rightarrow> nat \<Rightarrow> (i64 \<times> nat) option" where
  "double_fn func vs s = (if func = ''double'' then (case vs of [v] \<Rightarrow> Some (v + v, s) | _ \<Rightarrow> None) else None)"

definition tick_fn :: "string \<Rightarrow> i64 list \<Rightarrow> nat \<Rightarrow> (i64 \<times> nat) option" where
  "tick_fn func vs s = (if func = ''tick'' then Some (0, Suc s) else None)"

lemma int_literals_words: "map int_literal ls = map Some ints \<Longrightarrow> map word_literal ls = ints"
  by (induction ls arbitrary: ints) (auto simp: word_literal_def)

lemma word_backend_sound: "sound_backend (word_backend double_fn)"
  by (auto simp: sound_backend_def calls_pure_def prims_local_def truth_of_literals_def computes_builtins_def
      word_backend_def double_fn_def word_literal_def[of "Bool _"] word_literal_def[of "IntL _"] int_literal_def[of "Bool _"]
      int_literal_def[of "IntL _"] dest!: int_literals_words split: option.splits list.splits if_splits)

section \<open>Properties of the passes\<close>

lemma no_ev_Lambda: "\<not> ev B \<Gamma> s (Lambda params captures body) f s'"
  by (auto elim: ev.cases)

lemma run_body_pass:
  assumes "\<And>params captures body. \<exists>captures'. g (Lambda params captures body) = Lambda params captures' (g body)"
    and "ev B \<Gamma> s (g (run_body e)) f s'"
  shows "ev B \<Gamma> s (run_body (g e)) f s'"
proof (cases "\<exists>params captures body. e = Lambda params captures body")
  case True
  then obtain params captures body where e: "e = Lambda params captures body" by blast
  from assms(1)[of params captures body] assms(2) show ?thesis by (auto simp: e)
next
  case False
  then have "run_body e = e" by (cases e rule: run_body.cases) auto
  with assms(2) have ev: "ev B \<Gamma> s (g e) f s'" by simp
  then have "run_body (g e) = g e" by (cases "g e" rule: run_body.cases) (auto simp: no_ev_Lambda)
  with ev show ?thesis by simp
qed



definition sample_module :: "AnfBinding list" where
  "sample_module = [\<lparr>ab_source_ref = 0, ab_name = ''main'',
    ab_expr = Lambda [''x''] []
      (LetE ''a'' (Literal (IntL 2)) (LetE ''b'' (Call ''add'' [''a'', ''a''])
        (Seq [Var ''x'', EffectCall ''Log'' ''emit'' [''b''], Call ''mul'' [''b'', ''x'']])))\<rparr>]"

lemma sample_module_run:
  "ev (word_backend double_fn) [''x'' \<mapsto> 3] 0 (run_body (ab_expr (sample_module ! 0))) (Val 12) 1"
proof -
  let ?B = "word_backend double_fn"
  let ?\<Gamma> = "[''x'' \<mapsto> 3, ''a'' \<mapsto> 2, ''b'' \<mapsto> 4] :: string \<Rightarrow> i64 option"
  have call: "bk_call ?B ''add'' [2, 2] 0 = Some (4, 0)" "bk_call ?B ''mul'' [4, 3] 1 = Some (12, 1)"
    by (simp_all add: word_backend_def fold_ints_def fold_binary_def word_literal_def int_literal_def)
  have lit: "bk_lit ?B (IntL 2) = 2" by (simp add: word_backend_def word_literal_def int_literal_def)
  have c: "ev ?B ?\<Gamma> 1 (Call ''mul'' [''b'', ''x'']) (Val 12) 1"
    by (rule ev_Call[of _ _ "[4, 3]", OF _ call(2)]) simp
  have p: "ev ?B ?\<Gamma> 0 (EffectCall ''Log'' ''emit'' [''b'']) (Val 0) 1"
    by (rule ev_Prim) (simp_all add: word_backend_def)
  have x: "ev ?B ?\<Gamma> 0 (Var ''x'') (Val 3) 0" by (rule ev_Var) simp
  from ev_Seq[OF evs_Cons[OF x evs_Cons[OF p evs_Cons[OF c evs_Nil]]]]
  have q: "ev ?B ?\<Gamma> 0 (Seq [Var ''x'', EffectCall ''Log'' ''emit'' [''b''], Call ''mul'' [''b'', ''x'']]) (Val 12) 1"
    by (simp add: seq_value_def)
  have d: "ev ?B [''x'' \<mapsto> 3, ''a'' \<mapsto> 2] 0 (Call ''add'' [''a'', ''a'']) (Val 4) 0"
    by (rule ev_Call[of _ _ "[2, 2]", OF _ call(1)]) simp
  have l: "ev ?B [''x'' \<mapsto> 3] 0 (Literal (IntL 2)) (Val 2) 0"
    using ev_Literal[of ?B "[''x'' \<mapsto> 3]" 0 "IntL 2"] by (simp only: lit)
  show ?thesis unfolding sample_module_def using ev_Let[OF l ev_Let[OF d q]] by simp
qed




definition double_module :: "AnfBinding list" where
  "double_module =
    [\<lparr>ab_source_ref = 0, ab_name = ''double'', ab_expr = Lambda [''p''] [] (Call ''add'' [''p'', ''p''])\<rparr>,
     \<lparr>ab_source_ref = 1, ab_name = ''main'', ab_expr = Lambda [''x''] []
       (LetE ''r'' (Call ''double'' [''x'']) (EffectCall ''Log'' ''emit'' [''r'']))\<rparr>]"

lemma double_module_fns: "small_fns_of double_module = [''double'' \<mapsto> ([''p''], Call ''add'' [''p'', ''p''])]"
  by (simp add: small_fns_of_def double_module_def List.map_filter_def)

lemma double_calls:
  "bk_call (word_backend double_fn) ''double'' [v] s = Some (2 * v, s)"
  "bk_call (word_backend double_fn) ''add'' [v, v] s = Some (2 * v, s)"
  by (simp_all add: word_backend_def fold_ints_def fold_unary_def fold_binary_def double_fn_def
      word_literal_def int_literal_def)

lemma double_module_inlinable: "inlinable (word_backend double_fn) {''p'', ''x'', ''r''} (small_fns_of double_module)"
proof -
  have "ev (word_backend double_fn) [''p'' \<mapsto> v] s (Call ''add'' [''p'', ''p'']) (Val (2 * v)) s" for v s
    by (rule ev_Call[of _ _ "[v, v]"]) (simp_all add: double_calls)
  then show ?thesis unfolding double_module_fns inlinable_def
    by (auto simp: length_Suc_conv double_calls split: if_splits)
qed


lemma fold_call_empty: "fold_call func args Map.empty = None"
  by (cases args) (simp_all add: fold_call_def fold_ints_def int_arg_def)



text \<open>Away from timeouts, every free variable counts as used.\<close>

fun no_timeout :: "'l AnfTree \<Rightarrow> bool" where
  "no_timeout (Timeout d b) = False"
| "no_timeout (LetE x value body) = (no_timeout value \<and> no_timeout body)"
| "no_timeout (IfE c t e) = (no_timeout t \<and> no_timeout e)"
| "no_timeout (Return e) = no_timeout e"
| "no_timeout (Seq es) = list_all no_timeout es"
| "no_timeout (Match s arms) = list_all (\<lambda>(pat, body). no_timeout body) arms"
| "no_timeout (Lambda ps cs b) = no_timeout b"
| "no_timeout (RecordNew fs) = list_all (\<lambda>(f, e). no_timeout e) fs"
| "no_timeout (FieldUpdate r f v) = no_timeout v"
| "no_timeout (TupleNew es) = list_all no_timeout es"
| "no_timeout (VariantNew t p) = (case p of None \<Rightarrow> True | Some e \<Rightarrow> no_timeout e)"
| "no_timeout (ListNew es) = list_all no_timeout es"
| "no_timeout (Loop b) = no_timeout b"
| "no_timeout (Break v) = no_timeout v"
| "no_timeout (WhileLoop c b) = no_timeout b"
| "no_timeout (ShortCircuitAnd l r) = no_timeout r"
| "no_timeout (ShortCircuitOr l r) = no_timeout r"
| "no_timeout (TaskGroup b) = no_timeout b"
| "no_timeout (Select bs) = list_all (\<lambda>(ch, x, body). no_timeout body) bs"
| "no_timeout (ForEach x c b) = no_timeout b"
| "no_timeout _ = True"

lemma free_vars_used: "no_timeout e \<Longrightarrow> x \<in> free_vars e \<Longrightarrow> uses_var e x"
  by (induction e x rule: uses_var.induct)
    (fastforce simp: list_all_iff list_ex_iff split: option.splits)+

lemma no_timeout_optimize: "no_timeout e \<Longrightarrow> no_timeout (optimize_expr e env)"
  by (induction e env rule: optimize_expr.induct) (auto simp: Let_def list_all_iff split: option.splits)

text \<open>
  Constant folding keeps programs closed: without timeouts, the result
  mentions no variable that was not free before.
\<close>

lemma optimize_keeps_scope:
  "no_timeout e \<Longrightarrow> free_vars (optimize_expr e env) \<subseteq> free_vars e"
proof (induction e env rule: optimize_expr.induct)
  case (1 name e\<^sub>1 e\<^sub>2 env)
  let ?v = "optimize_expr e\<^sub>1 env" and ?b = "optimize_expr e\<^sub>2 (env(name := literal_of (optimize_expr e\<^sub>1 env)))"
  have v: "free_vars ?v \<subseteq> free_vars e\<^sub>1" using 1(1,3) by simp
  have b: "free_vars ?b \<subseteq> free_vars e\<^sub>2" by (rule 1(2)) (use 1(3) in simp_all)
  have "name \<notin> free_vars ?b" if "\<not> uses_var ?b name"
    using that 1(3) free_vars_used no_timeout_optimize by fastforce
  with v b show ?case by (auto simp: Let_def)
next
  case (6 fs env)
  have "free_vars (optimize_expr e env) \<subseteq> free_vars e" if "(k, e) \<in> set fs" for k e
    using 6(1)[OF that refl] 6(2) that by (auto simp: list_all_iff)
  then show ?case by fastforce
next
  case (15 x arms env)
  have "free_vars (optimize_expr body env) \<subseteq> free_vars body" if "(pat, body) \<in> set arms" for pat body
    using 15(1)[OF that refl] 15(2) that by (auto simp: list_all_iff)
  then show ?case by fastforce
qed (auto simp: list_all_iff Let_def split: option.splits if_splits)

lemma optimize_keeps_scope_witness:
  "free_vars (optimize_expr (LetE ''a'' (Literal (IntL 1)) (Call ''f'' [''a'', ''y''])) Map.empty) \<subseteq> {''y''}"
  using optimize_keeps_scope[of "LetE ''a'' (Literal (IntL 1)) (Call ''f'' [''a'', ''y''])" Map.empty] by simp

text \<open>
  C38. The use check overlooks the duration of a timeout: a literal duration is
  dropped with its let, and the timeout names a variable that is no longer bound.
\<close>

theorem timeout_loses_duration:
  assumes "\<not> uses_var (optimize_expr body (env(d := Some l))) d"
  shows "optimize_expr (LetE d (Literal l) (Timeout d body)) env = Timeout d (optimize_expr body (env(d := Some l))) \<and>
    d \<notin> free_vars (LetE d (Literal l) (Timeout d body)) \<and>
    d \<in> free_vars (optimize_expr (LetE d (Literal l) (Timeout d body)) env)"
  using assms by simp

theorem timeout_loses_duration_witness:
  "optimize_expr (LetE ''ms'' (Literal (IntL 50)) (Timeout ''ms'' (EffectCall ''Net'' ''get'' []))) Map.empty =
    Timeout ''ms'' (EffectCall ''Net'' ''get'' [])"
  using timeout_loses_duration[of "EffectCall ''Net'' ''get'' []" Map.empty "''ms''" "IntL 50"] by simp

inductive_cases ev_LetE: "ev B \<Gamma> s (LetE x value body) f s'"

lemma anf_eq_Call: "anf_eq (Call func args) e \<longleftrightarrow> e = Call func args"
  by (cases e) (auto simp: anf_eq_def)

text \<open>
  C36. Common subexpression elimination records names bound inside the value of
  a let and reuses them after the let: a program that runs becomes one that
  reads an unbound variable and has no run.
\<close>

theorem cse_leaves_scope:
  assumes "\<Gamma> t = None" "a \<noteq> t" "map \<Gamma> args = map Some vs" "bk_call B func vs s = Some (v, s)" "set args \<inter> {a, t} = {}"
  shows "ev B \<Gamma> s (LetE a (LetE t (Call func args) (Var t)) (LetE b (Call func args) (Var b))) (Val v) s \<and>
    fst (cse_expr (LetE a (LetE t (Call func args) (Var t)) (LetE b (Call func args) (Var b))) []) =
      LetE a (LetE t (Call func args) (Var t)) (LetE b (Var t) (Var b)) \<and>
    \<not> ev B \<Gamma> s (LetE a (LetE t (Call func args) (Var t)) (LetE b (Var t) (Var b))) f s'"
proof (intro conjI notI)
  have args: "map (\<Gamma>(a \<mapsto> v)) args = map \<Gamma> args" using assms(5) by simp
  have "ev B \<Gamma> s (LetE t (Call func args) (Var t)) (Val v) s"
    by (rule ev_Let[OF ev_Call[OF assms(3,4)]], rule ev_Var) simp
  moreover have "ev B (\<Gamma>(a \<mapsto> v)) s (LetE b (Call func args) (Var b)) (Val v) s"
    by (rule ev_Let[OF ev_Call[of _ _ vs, OF _ assms(4)]], simp only: args assms(3), rule ev_Var) simp
  ultimately show "ev B \<Gamma> s (LetE a (LetE t (Call func args) (Var t)) (LetE b (Call func args) (Var b))) (Val v) s"
    by (rule ev_Let)
  show "fst (cse_expr (LetE a (LetE t (Call func args) (Var t)) (LetE b (Call func args) (Var b))) []) =
      LetE a (LetE t (Call func args) (Var t)) (LetE b (Var t) (Var b))"
    by (simp add: anf_eq_Call)
  assume "ev B \<Gamma> s (LetE a (LetE t (Call func args) (Var t)) (LetE b (Var t) (Var b))) f s'"
  then show False
  proof (rule ev_LetE)
    fix w s1 assume "ev B (\<Gamma>(a \<mapsto> w)) s1 (LetE b (Var t) (Var b)) f s'"
    then show False using assms(1,2) by (auto elim!: ev_LetE)
  next
    assume "ev B \<Gamma> s (LetE t (Call func args) (Var t)) f s'" "abrupt f"
    then show False by (auto elim!: ev_LetE elim: ev.cases)
  qed simp
qed


theorem cse_leaves_scope_witness:
  "fst (cse_expr (LetE ''a'' (LetE ''t'' (Call ''double'' [''x'']) (Var ''t''))
      (LetE ''b'' (Call ''double'' [''x'']) (Var ''b''))) []) =
    LetE ''a'' (LetE ''t'' (Call ''double'' [''x'']) (Var ''t'')) (LetE ''b'' (Var ''t'') (Var ''b'')) \<and>
   \<not> ev (word_backend double_fn) [''x'' \<mapsto> 3] 0
      (LetE ''a'' (LetE ''t'' (Call ''double'' [''x'']) (Var ''t'')) (LetE ''b'' (Var ''t'') (Var ''b''))) (Val 6) 0"
  using cse_leaves_scope[of "[''x'' \<mapsto> 3]" "''t''" "''a''" "[''x'']" "[3]" "word_backend double_fn" "''double''" 0 6 "''b''" "Val 6" 0]
  by (simp add: double_calls)

text \<open>
  C37. Substitution does not rename the names a function binds: an argument with
  such a name is captured, and the inlined call computes with the wrong value.
\<close>

theorem inline_captures_argument:
  assumes "p \<noteq> t" "h \<noteq> g" "k \<noteq> g"
    and "bk_call B h [v] s = Some (w, s)" "bk_call B k [w, v] s = Some (r, s)" "bk_call B k [w, w] s = Some (r', s)"
  shows "ev B [p \<mapsto> v] s (LetE t (Call h [p]) (Call k [t, p])) (Val r) s \<and>
    ab_expr (inline_small_pure
      [\<lparr>ab_source_ref = 0, ab_name = g, ab_expr = Lambda [p] [] (LetE t (Call h [p]) (Call k [t, p]))\<rparr>,
       \<lparr>ab_source_ref = 1, ab_name = m, ab_expr = Call g [t]\<rparr>] ! 1) = LetE t (Call h [t]) (Call k [t, t]) \<and>
    ev B [t \<mapsto> v] s (LetE t (Call h [t]) (Call k [t, t])) (Val r') s"
proof (intro conjI)
  have "ev B [p \<mapsto> v] s (Call h [p]) (Val w) s" by (rule ev_Call[of _ _ "[v]", OF _ assms(4)]) simp
  moreover have "ev B ([p \<mapsto> v](t \<mapsto> w)) s (Call k [t, p]) (Val r) s"
    by (rule ev_Call[of _ _ "[w, v]", OF _ assms(5)]) (use assms(1) in simp)
  ultimately show "ev B [p \<mapsto> v] s (LetE t (Call h [p]) (Call k [t, p])) (Val r) s" by (rule ev_Let)
  have "ev B [t \<mapsto> v] s (Call h [t]) (Val w) s" by (rule ev_Call[of _ _ "[v]", OF _ assms(4)]) simp
  moreover have "ev B ([t \<mapsto> v](t \<mapsto> w)) s (Call k [t, t]) (Val r') s"
    by (rule ev_Call[of _ _ "[w, w]", OF _ assms(6)]) simp
  ultimately show "ev B [t \<mapsto> v] s (LetE t (Call h [t]) (Call k [t, t])) (Val r') s" by (rule ev_Let)
qed (use assms(1-3) in \<open>simp add: inline_small_pure_def small_fns_of_def List.map_filter_def sub_name_def\<close>)

theorem inline_captures_argument_witness:
  "ab_expr (inline_small_pure
      [\<lparr>ab_source_ref = 0, ab_name = ''g'', ab_expr = Lambda [''p''] [] (LetE ''t'' (Call ''double'' [''p'']) (Call ''sub'' [''t'', ''p'']))\<rparr>,
       \<lparr>ab_source_ref = 1, ab_name = ''m'', ab_expr = Call ''g'' [''t'']\<rparr>] ! 1) =
     LetE ''t'' (Call ''double'' [''t'']) (Call ''sub'' [''t'', ''t'']) \<and>
   ev (word_backend double_fn) [''p'' \<mapsto> 3] 0 (LetE ''t'' (Call ''double'' [''p'']) (Call ''sub'' [''t'', ''p''])) (Val 3) 0 \<and>
   ev (word_backend double_fn) [''t'' \<mapsto> 3] 0 (LetE ''t'' (Call ''double'' [''t'']) (Call ''sub'' [''t'', ''t''])) (Val 0) 0"
proof -
  have "bk_call (word_backend double_fn) ''sub'' [6, 3] 0 = Some (3, 0)" "bk_call (word_backend double_fn) ''sub'' [6, 6] 0 = Some (0, 0)"
    by (simp_all add: word_backend_def fold_ints_def fold_binary_def word_literal_def int_literal_def)
  then show ?thesis
    using inline_captures_argument[of "''p''" "''t''" "''double''" "''g''" "''sub''" "word_backend double_fn" 3 0 6 3 0 "''m''"]
    by (simp add: double_calls)
qed



end
