(* ===== verification/Spec2Isabelle.thy ===== *)
theory Spec2Isabelle
  imports Package_Diagnostics Graph_Index Canonical Op_Schema Coordinator Change_Parser Snapshot_Gc Anf_Passes
begin

text \<open>
  A verification development for the AIL toolchain (\<^verbatim>\<open>src/crates\<close>): the Semantic
  Graph, the change language and its atomic application, the coordinator that
  serializes agents, the content-addressed storage below it, the optimisation
  passes of the compiler and the package manager.

  \<^bold>\<open>The program.\<close> A program under development is a Semantic Graph (\<^verbatim>\<open>ail-core\<close>).
  Agents change it through documents of a change language (\<^verbatim>\<open>ail-change\<close>): a
  document is parsed, brought to the current language version, checked against
  the schema of its verbs, canonicalized to a sequence of payloads in phase
  order, and applied to the graph completely or not at all. The coordinator
  (\<^verbatim>\<open>ail-coordinator\<close>) holds the live graph behind a mutex, rebases stale change
  sets, and accepts signed change sets and object bundles of remote agents
  (\<^verbatim>\<open>ail-remote\<close>). Snapshots, branches, tags, approvals and assumptions live in a
  content-addressed store with retention and garbage collection
  (\<^verbatim>\<open>ail-storage\<close>). The compiler (\<^verbatim>\<open>ail-compiler\<close>) optimises programs in A-normal
  form. Packages are described by manifests, kept in a registry and resolved
  under trust, advisory, license and capability policies (\<^verbatim>\<open>ail-package\<close>).

  \<^bold>\<open>Theories and sources.\<close>
  \<^item> \<open>AIL_Prelude\<close>, \<open>AIL_Strings\<close>: machine integers, results and their binding,
    ordered maps (\<^verbatim>\<open>BTreeMap\<close>, behind the locale \<open>ordered_map\<close>), the string
    functions of the Rust library, generic lemmas.
  \<^item> \<open>Semantic_Graph\<close>, \<open>Graph_Validation\<close>, \<open>Graph_Index\<close>: \<^verbatim>\<open>ail-core\<close>, files
    \<^verbatim>\<open>semantic_graph/types.rs\<close>, \<^verbatim>\<open>validation.rs\<close>, \<^verbatim>\<open>graph_index.rs\<close>. The specification
    of \<^verbatim>\<open>validate\<close> is \<open>graph_wf\<close>: unique references and no dangling edge.
  \<^item> \<open>Change_Model\<close>, \<open>Change_Parser\<close>, \<open>Acl_Migrator\<close>, \<open>Op_Schema\<close>, \<open>Canonical\<close>,
    \<open>Change_Apply\<close>: \<^verbatim>\<open>ail-change\<close>. The parser is a fold of a fallible step over
    the lines; printing and parsing round-trip. Application is an instance of
    the locale \<open>transaction\<close>, the snapshot counter one of \<open>snapshot_counter\<close>.
  \<^item> \<open>Rebase\<close>, \<open>Coordinator\<close>: \<^verbatim>\<open>ail-coordinator\<close>. A request is one transition;
    the locale \<open>serializing_service\<close> gives that every history has the effect of
    its accepted change sets in order.
  \<^item> \<open>Remote\<close>: \<^verbatim>\<open>ail-remote\<close>, policy, identities, bundles, signed change sets.
  \<^item> \<open>Object_Store\<close>, \<open>Snapshot_Store\<close>, \<open>Storage_Records\<close>, \<open>Retention\<close>,
    \<open>Snapshot_Gc\<close>: \<^verbatim>\<open>ail-storage\<close>. Stores refine finite maps (locales
    \<open>object_store\<close>, \<open>first_write_store\<close>, \<open>mutable_graph_store\<close>); the lemmas say what
    the diagnostics report and what survives a collection or a compaction.
  \<^item> \<open>Anf_Model\<close>, \<open>Anf_Optimize\<close>, \<open>Anf_Semantics\<close>, \<open>Anf_Passes\<close>: \<^verbatim>\<open>ail-compiler\<close>,
    files \<^verbatim>\<open>anf.rs\<close>, \<^verbatim>\<open>optimize/\<close>, \<^verbatim>\<open>pattern_string.rs\<close>, \<^verbatim>\<open>wasm_abi/bindings.rs\<close>. An
    evaluation relation over an arbitrary backend, forward simulation for the
    passes under stated conditions, and the programs for which these fail.
  \<^item> \<open>Package_Manifest\<close>, \<open>Package_Versioning\<close>, \<open>Package_Registry\<close>,
    \<open>Package_Resolver\<close>, \<open>Package_Diagnostics\<close>: \<^verbatim>\<open>ail-package\<close>. Exact
    characterizations of publication, upgrades, lookups, resolution and of the
    reported import cycles.
  \<^item> this theory: properties from a document to the live graph, across parser,
    canonicalization, application and coordinator.

  \<^bold>\<open>Conventions.\<close> A struct is a record whose fields carry a prefix for the
  struct, an enum a datatype with the names of its variants, an integer a word
  of its width (a \<^verbatim>\<open>usize\<close> position a natural number), a result a sum with the
  error on the left. A function on \<^verbatim>\<open>&mut\<close> data returns the new data. Error
  texts are values with one constructor per message where only the text differs.
  Text is a list of bytes, with the character classes of ASCII.

  \<^bold>\<open>Parameters.\<close> BLAKE3, CBOR, Ed25519, the \<^verbatim>\<open>semver\<close> crate, the iteration order
  of hash maps, the result of a sort with an inconsistent comparison and the
  backend that runs calls and primitives are arguments of the definitions. What
  the code relies on (decoding reads back an encoding, an iteration order
  permutes the entries, no two stored encodings share a hash) is a named
  hypothesis of the theorems that need it, and their witnesses instantiate it.

  \<^bold>\<open>Bounds.\<close> There is no fuel: every loop is a structural recursion, a fold, or a
  \<open>function\<close> with its termination proof (the migration chain, the arguments of an
  operation, the ancestry walk, the parent chains, the collection of imports and
  the search for cycles).

  \<^bold>\<open>Not modelled.\<close> The command line (\<^verbatim>\<open>ail-cli\<close>), the tests and harnesses
  (\<^verbatim>\<open>ail-testkit\<close>, \<^verbatim>\<open>ail-dogfood\<close>, \<^verbatim>\<open>fuzz\<close>) and the file, network and database
  backends are input and output. The front end, lowering and code generation of
  the compiler, the WASM runtime (\<^verbatim>\<open>ail-runtime\<close>), the standard library, the
  verifier with its SMT solver (\<^verbatim>\<open>ail-verify\<close>) and the context projections
  (\<^verbatim>\<open>ail-context\<close>) are separate programs over the same graph. Of the package
  manager the lockfile, namespaces, coherence and the remote registries are left
  out. Display texts, serialization derives and tracing are left out throughout.
\<close>

section \<open>From a document to the live graph\<close>

abbreviation empty_graph :: SemanticGraph where
  "empty_graph \<equiv> \<lparr>sg_nodes = [], sg_edges = []\<rparr>"

text \<open>Payloads that address nodes by name create no node and are always admissible.\<close>

lemma by_name_step:
  assumes "by_name p"
  shows "payload_admissible p g" "set (node_ids (apply_payload p g)) \<subseteq> set (node_ids g)"
proof -
  show "payload_admissible p g" using assms by (cases p) auto
  show "set (node_ids (apply_payload p g)) \<subseteq> set (node_ids g)"
    using assms by (cases p) (auto simp: remove_node_def split: option.splits)
qed

lemma by_name_admissible: "list_all (\<lambda>op. by_name (op_payload op)) ops \<Longrightarrow> ops_admissible ops g"
  by (induction ops arbitrary: g) (auto intro: by_name_step)

lemma ops_admissible_append:
  "ops_admissible (xs @ ys) g \<longleftrightarrow> ops_admissible xs g \<and> ops_admissible ys (fold apply_op xs g)"
  by (induction xs arbitrary: g) auto

text \<open>A canonical operation creates at most the node numbered with its position.\<close>

lemma canonical_op_step:
  assumes "of_nat i \<notin> set (node_ids g)"
  shows "payload_admissible (op_payload (canonical_op c (i, t))) g \<and>
    set (node_ids (apply_op (canonical_op c (i, t)) g)) \<subseteq> insert (of_nat i) (set (node_ids g))"
proof -
  obtain k v a where t: "t = (k, v, a)" by (cases t)
  show ?thesis
  proof (cases "k = Create")
    case True
    with materialize_payload_create[of c i v "canonical_args k v a"] assms show ?thesis
      by (auto simp: t)
  next
    case False
    let ?p = "materialize_payload c i k v (canonical_args k v a)"
    from materialize_payload_other[OF False] by_name_step[of ?p g] show ?thesis by (simp add: t) blast
  qed
qed

lemma canonical_ops_admissible:
  assumes "n + length ts \<le> 2 ^ 32" "\<forall>i < length ts. of_nat (n + i) \<notin> set (node_ids g)"
  shows "ops_admissible (map (canonical_op c) (enumerate n ts)) g"
  using assms
proof (induction ts arbitrary: n g)
  case (Cons t ts)
  let ?g = "apply_op (canonical_op c (n, t)) g"
  have "of_nat n \<notin> set (node_ids g)" using spec[OF Cons.prems(2), of 0] by simp
  note step = canonical_op_step[OF this, of c t]
  have "of_nat (Suc n + i) \<notin> set (node_ids ?g)" if "i < length ts" for i
  proof -
    have "n < 2 ^ LENGTH(32)" "Suc n + i < 2 ^ LENGTH(32)" using Cons.prems(1) that by simp_all
    then have u: "unat (of_nat n :: NodeRef) = n" "unat (of_nat (Suc n + i) :: NodeRef) = Suc n + i"
      by (simp_all only: unat_of_nat mod_less)
    have "(of_nat (Suc n + i) :: NodeRef) \<noteq> of_nat n"
    proof
      assume "(of_nat (Suc n + i) :: NodeRef) = of_nat n"
      then have "Suc n + i = n" using u by (simp only:)
      then show False by simp
    qed
    moreover have "of_nat (Suc n + i) \<notin> set (node_ids g)" using spec[OF Cons.prems(2), of "Suc i"] that by simp
    ultimately show ?thesis using step by auto
  qed
  with Cons.IH[of "Suc n" ?g] Cons.prems(1) step show ?case by simp
qed simp

lemma canonical_changeset_admissible:
  assumes "length (op_pairs pcs) \<le> 2 ^ 32" "\<forall>i < length (op_pairs pcs). of_nat i \<notin> set (node_ids g)"
  shows "ops_admissible (cc_ops (canonicalize_parsed_inner c pcs)) g"
proof -
  have "ops_admissible (canonical_core c pcs) g"
    unfolding canonical_core_def using assms by (intro canonical_ops_admissible) simp_all
  then show ?thesis
    by (simp add: canonicalize_parsed_inner_def expand_infer_boundary_def ops_admissible_append
        by_name_admissible foldl_expand_by_name)
qed

lemma parsed_op_pairs: "parse_changeset src = Inr pcs \<Longrightarrow> length (op_pairs pcs) = length (pc_parsed_ops pcs)"
  by (erule parse_changeset_state) (auto simp: op_pairs_def finish_def state_ok_def split: if_splits option.splits)

lemma try_canonicalize_cases:
  assumes "try_canonicalize_parsed c pcs = Inr cs"
  obtains pcs' where "cs = canonicalize_parsed_inner c pcs'" "pc_changeset pcs' = pc_changeset pcs"
    "pc_preconditions pcs' = pc_preconditions pcs" "length (pc_parsed_ops pcs') = length (pc_parsed_ops pcs)"
  using assms migrated_parts[of pcs]
  by (auto simp: try_canonicalize_parsed_def rbind_Ok_iff split: if_splits)

lemma submit_current:
  assumes "validate (st_graph st) = Inr ()" "cc_base_snapshot_id cs = memory_current_snapshot_id (st_bridge st)"
    and "cc_preconditions cs = []" "ops_admissible (cc_ops cs) (st_graph st)"
  shows "submit c st cs = (CoordApplied (memory_current_snapshot_id (st_bridge st) + 1),
    commit st (fold apply_op (cc_ops cs) (st_graph st)) (cc_ops cs))"
proof -
  from assms(1) have wf: "graph_wf (st_graph st)" by (simp add: validate_Ok_iff)
  have "apply_cs c fixed_current_snapshot_id cs (st_graph st) \<lparr>fb_id = live_id st\<rparr> =
      (Applied, fold apply_op (cc_ops cs) (st_graph st))"
    unfolding apply_cs_Applied_iff using assms wf by (simp add: fixed_current_snapshot_id_def trail_wf_iff)
  then show ?thesis
    using assms(2) by (simp add: submit_def submit_clean_def commit_def Let_def mb.current_advance)
qed

lemma first_created_id:
  assumes "cc_ops (canonicalize_parsed_inner c pcs) = op # ops" "op_payload op = CreateNode n"
  shows "gn_id n = 0"
proof -
  let ?ts = "sort_key (\<lambda>a. phase_order (fst a)) (op_pairs pcs)"
  have synth: "list_all (\<lambda>op. by_name (op_payload op)) (foldl (expand_step c ops') [] xs)" for ops' xs
    by (rule foldl_expand_by_name) simp
  show ?thesis
  proof (cases ?ts)
    case Nil
    then have "canonical_core c pcs = []" by (simp add: canonical_core_def)
    with assms synth[of "[]" "[]"] show ?thesis
      by (simp add: canonicalize_parsed_inner_def expand_infer_boundary_def)
  next
    case (Cons t ts)
    obtain k v a where t: "t = (k, v, a)" by (cases t)
    from Cons assms(1) have "op = canonical_op c (0, t)"
      by (simp add: canonicalize_parsed_inner_def expand_infer_boundary_def canonical_core_def)
    with assms(2) have p: "materialize_payload c 0 k v (canonical_args k v a) = CreateNode n" by (simp add: t)
    then have "k = Create" using materialize_payload_other[of k c 0 v "canonical_args k v a"] by auto
    with p materialize_payload_create[of c 0 v "canonical_args k v a"] show ?thesis by auto
  qed
qed

lemma validate_duplicate_create:
  assumes "validate g = Inr ()" "gn_id n \<in> set (node_ids g)"
  shows "validate (apply_payload (CreateNode n) g) = Inl (DuplicateRef (gn_id n))"
proof -
  have wf: "graph_wf g" using assms(1) by (simp add: validate_Ok_iff)
  from assms(2) graph_wf_apply_payload[OF wf, of "CreateNode n"]
  obtain e where e: "validate (apply_payload (CreateNode n) g) = Inl e"
    by (cases "validate (apply_payload (CreateNode n) g)") (auto simp: validate_Ok_iff)
  with validate_step_error[OF wf e] show ?thesis by auto
qed

text \<open>
  C16. Any first document takes effect: what the parser accepts and the migrator
  brings to the current version, if it asserts nothing and has at most 2 to the 32
  operations, commits on a coordinator that starts from the empty graph at the
  document's base; the snapshot advances by one and the live graph is valid.
\<close>

theorem first_document_commits:
  assumes "parse_changeset src = Ok pcs" "try_canonicalize_parsed c pcs = Ok cs"
    and "pc_preconditions pcs = []" "length (pc_parsed_ops pcs) \<le> 2 ^ 32"
    and "ch_base_snapshot_id (pc_changeset pcs) = i"
  shows "fst (submit c (co_inner (coordinator_new i empty_graph)) cs) = CoordApplied (i + 1) \<and>
    validate (st_graph (snd (submit c (co_inner (coordinator_new i empty_graph)) cs))) = Ok ()"
proof -
  let ?st = "co_inner (coordinator_new i empty_graph)"
  from assms(2) obtain pcs' where cs: "cs = canonicalize_parsed_inner c pcs'"
    and pcs': "pc_changeset pcs' = pc_changeset pcs" "pc_preconditions pcs' = pc_preconditions pcs"
      "length (pc_parsed_ops pcs') = length (pc_parsed_ops pcs)"
    by (rule try_canonicalize_cases)
  have st: "st_graph ?st = empty_graph" "memory_current_snapshot_id (st_bridge ?st) = i"
    by (simp_all add: coordinator_new_def with_remote_signer_policy_def)
  have valid: "validate empty_graph = Inr ()" by code_simp
  have "length (op_pairs pcs') = length (op_pairs pcs)"
    using pcs' by (cases "pc_parsed_ops pcs'") (auto simp: op_pairs_def)
  then have "ops_admissible (cc_ops cs) empty_graph"
    unfolding cs using parsed_op_pairs[OF assms(1)] assms(4) by (intro canonical_changeset_admissible) simp_all
  then have "submit c ?st cs = (CoordApplied (i + 1), commit ?st (fold apply_op (cc_ops cs) empty_graph) (cc_ops cs))"
    using submit_current[of ?st cs c] valid assms(3,5) pcs' by (simp add: st cs canonicalize_parsed_inner_def)
  moreover have "validate (st_graph (snd (submit c ?st cs))) = Inr ()"
    using submit_wf[of ?st c cs] valid by (simp add: validate_Ok_iff st)
  ultimately show ?thesis by simp
qed

definition module_op :: ParsedOp where
  "module_op = \<lparr>po_kind = Create, po_verb = ''create_module'', po_args = [(''id'', ''m'')]\<rparr>"

definition module_document :: ParsedChangeSet where
  "module_document =
     default_parsed\<lparr>pc_changeset := \<lparr>ch_meta = \<lparr>me_author = ''a'', me_description = [], me_timestamp = 0\<rparr>,
          ch_base_snapshot_id = 3, ch_ops = [Create]\<rparr>, pc_parsed_ops := [module_op]\<rparr>"

lemma module_document_canonical:
  "try_canonicalize_parsed c module_document = Inr (canonicalize_parsed_inner c module_document)"
  by (simp add: try_canonicalize_parsed_def module_document_def default_parsed_def CURRENT_ACL_VERSION_def)

theorem first_document_commits_witness:
  "parse_changeset (render_document ''a'' 3 [module_op]) = Ok module_document \<and>
   fst (submit sample_codec (co_inner (coordinator_new 3 empty_graph))
          (canonicalize_parsed_inner sample_codec module_document)) = CoordApplied 4"
proof -
  have "plain_author ''a''" "list_all plain_op [module_op]" by code_simp+
  from parse_rendered_document[OF this, of 3]
  have src: "parse_changeset (render_document ''a'' 3 [module_op]) = Inr module_document"
    by (simp add: finish_def initial_state_def module_document_def module_op_def default_parsed_def)
  from src first_document_commits[OF src module_document_canonical[of sample_codec], of 3] show ?thesis
    by (simp add: module_document_def default_parsed_def)
qed



text \<open>What the payload of each registered verb needs.\<close>

lemma registered_payloads:
  "list_all (\<lambda>s. \<forall>kind. map_verb (os_verb_prefix s) = Some kind \<longrightarrow>
      (\<forall>k \<in> set (os_required s). \<exists>v. bt_get a k = Some v) \<longrightarrow>
      (materialize_payload c idx kind (os_verb_prefix s) a = Noop \<longleftrightarrow>
        kind = Deprecate \<and> os_verb_prefix s = ''deprecate'' \<and> bt_get a ''replacement'' = None)) OP_SCHEMAS"
  unfolding OP_SCHEMAS_def list.pred_inject schema_entry_def OpSchemaEntry.simps map_verb_stem verb_table_def
  by (intro conjI) (auto simp: payload_helper_defs create_payload_def target_and_def split: option.splits)



end
